(* ===== verification/Prelude.thy ===== *)
theory Prelude
  imports Main "HOL-Library.Word"
begin

text \<open>
  Shared vocabulary of the development: the machine integers of the source as words, the
  outcome type of fallible Rust code, bounds-checked byte access, the big-endian accessors of
  the \<open>byteorder\<close> crate as the source uses them, and the list lemmas that the packet
  proofs rest on.

  Conventions. A \<open>usize\<close> is a \<^typ>\<open>nat\<close>; a subtraction that would go below
  zero and an access out of range are the outcome \<open>Panic\<close>, so that "never panics" is a
  statement about the model and not a convention. A function that mutates a packet in place
  returns the packet it leaves behind together with its outcome, because the source may leave a
  changed packet behind on an error.
\<close>

unbundle bit_operations_syntax

type_synonym byte = "8 word"
type_synonym u16 = "16 word"
type_synonym u32 = "32 word"
type_synonym u64 = "64 word"
type_synonym packet = "byte list"

named_theorems res_simps "unfolding rules of the outcome monad and of byte access"
named_theorems wire_simps "lengths and positions of encoded names, questions and records"

text \<open>Offsets stay sums of numerals.\<close>

declare add_2_eq_Suc [simp del] add_2_eq_Suc' [simp del]

subsection \<open>Outcomes\<close>

datatype ('e, 'a) res = Ok 'a | Err 'e | Panic

fun rbind :: "('e, 'a) res \<Rightarrow> ('a \<Rightarrow> ('e, 'b) res) \<Rightarrow> ('e, 'b) res" where
  "rbind (Ok a) f = f a"
| "rbind (Err e) f = Err e"
| "rbind Panic f = Panic"

definition ensure :: "bool \<Rightarrow> 'e \<Rightarrow> ('e, unit) res" where
  "ensure b e = (if b then Ok () else Err e)"

definition assert_that :: "bool \<Rightarrow> ('e, unit) res" where
  "assert_that b = (if b then Ok () else Panic)"

fun map_err :: "('e \<Rightarrow> 'f) \<Rightarrow> ('e, 'a) res \<Rightarrow> ('f, 'a) res" where
  "map_err f (Ok a) = Ok a"
| "map_err f (Err e) = Err (f e)"
| "map_err f Panic = Panic"

definition is_ok :: "('e, 'a) res \<Rightarrow> bool" where
  "is_ok r = (case r of Ok _ \<Rightarrow> True | _ \<Rightarrow> False)"

fun unwrap_or :: "'a option \<Rightarrow> 'a \<Rightarrow> 'a" where
  "unwrap_or (Some a) d = a"
| "unwrap_or None d = d"

lemma rbind_cong [fundef_cong]:
  "r = r' \<Longrightarrow> (\<And>a. r' = Ok a \<Longrightarrow> f a = g a) \<Longrightarrow> rbind r f = rbind r' g"
  by (cases r') auto

lemma rbind_eq_Ok [simp]: "rbind r f = Ok b \<longleftrightarrow> (\<exists>a. r = Ok a \<and> f a = Ok b)"
  by (cases r) auto

lemma rbind_eq_Panic: "rbind r f = Panic \<longleftrightarrow> r = Panic \<or> (\<exists>a. r = Ok a \<and> f a = Panic)"
  by (cases r) auto

lemma rbind_eq_Err: "rbind r f = Err e \<longleftrightarrow> r = Err e \<or> (\<exists>a. r = Ok a \<and> f a = Err e)"
  by (cases r) auto

lemma rbind_assoc: "rbind (rbind r f) g = rbind r (\<lambda>a. rbind (f a) g)"
  by (cases r) auto

lemma ensure_simps [simp]:
  "ensure True e = Ok ()"
  "ensure False e = Err e"
  "ensure b e = Ok u \<longleftrightarrow> b"
  "ensure b e \<noteq> Panic"
  "ensure b e = Err e' \<longleftrightarrow> \<not> b \<and> e' = e"
  by (auto simp: ensure_def)

lemma assert_that_simps [simp]:
  "assert_that True = Ok ()"
  "assert_that b = Ok u \<longleftrightarrow> b"
  "assert_that b = Panic \<longleftrightarrow> \<not> b"
  "assert_that b \<noteq> Err e"
  by (auto simp: assert_that_def)

lemma map_err_simps [simp]:
  "map_err f r = Ok a \<longleftrightarrow> r = Ok a"
  "map_err f r = Panic \<longleftrightarrow> r = Panic"
  by (cases r; simp)+

lemma is_ok_iff: "is_ok r \<longleftrightarrow> (\<exists>a. r = Ok a)"
  by (cases r) (auto simp: is_ok_def)

subsection \<open>Checked arithmetic and bounds-checked access\<close>

definition usub :: "nat \<Rightarrow> nat \<Rightarrow> ('e, nat) res" where
  "usub a b = (if b \<le> a then Ok (a - b) else Panic)"

definition byte_at :: "packet \<Rightarrow> nat \<Rightarrow> ('e, byte) res" where
  "byte_at p i = (if i < length p then Ok (p ! i) else Panic)"

definition subslice :: "packet \<Rightarrow> nat \<Rightarrow> nat \<Rightarrow> packet" where
  "subslice p i n = take n (drop i p)"

definition subslice_at :: "packet \<Rightarrow> nat \<Rightarrow> nat \<Rightarrow> ('e, packet) res" where
  "subslice_at p i n = (if i + n \<le> length p then Ok (subslice p i n) else Panic)"

definition overwrite :: "packet \<Rightarrow> nat \<Rightarrow> packet \<Rightarrow> packet" where
  "overwrite p i bs = take i p @ bs @ drop (i + length bs) p"

definition overwrite_at :: "packet \<Rightarrow> nat \<Rightarrow> packet \<Rightarrow> ('e, packet) res" where
  "overwrite_at p i bs = (if i + length bs \<le> length p then Ok (overwrite p i bs) else Panic)"

lemma usub_simps [simp]:
  "b \<le> a \<Longrightarrow> usub a b = Ok (a - b)"
  "usub a b = Ok c \<longleftrightarrow> b \<le> a \<and> c = a - b"
  "usub a b = Panic \<longleftrightarrow> a < b"
  "usub a b \<noteq> Err e"
  by (auto simp: usub_def)

lemma byte_at_simps [simp]:
  "i < length p \<Longrightarrow> byte_at p i = Ok (p ! i)"
  "byte_at p i = Ok b \<longleftrightarrow> i < length p \<and> b = p ! i"
  "byte_at p i = Panic \<longleftrightarrow> length p \<le> i"
  "byte_at p i \<noteq> Err e"
  by (auto simp: byte_at_def)

lemma length_subslice [simp]: "i + n \<le> length p \<Longrightarrow> length (subslice p i n) = n"
  by (simp add: subslice_def)

lemma length_overwrite [simp]: "i + length bs \<le> length p \<Longrightarrow> length (overwrite p i bs) = length p"
  by (simp add: overwrite_def)

lemma subslice_append [simp]:
  "length a = i \<Longrightarrow> length b = n \<Longrightarrow> subslice (a @ b @ c) i n = b"
  by (auto simp: subslice_def)

lemma subslice_at_append [simp]:
  "length a = i \<Longrightarrow> length b = n \<Longrightarrow> subslice_at (a @ b @ c) i n = Ok b"
  by (auto simp: subslice_at_def)

lemma overwrite_append [simp]:
  "length a = i \<Longrightarrow> length b = length bs \<Longrightarrow> overwrite (a @ b @ c) i bs = a @ bs @ c"
  by (auto simp: overwrite_def)

lemma nth_overwrite:
  "i + length bs \<le> length p \<Longrightarrow> j < length p \<Longrightarrow>
   overwrite p i bs ! j = (if i \<le> j \<and> j < i + length bs then bs ! (j - i) else p ! j)"
  by (auto simp: overwrite_def nth_append)

lemma subslice_at_simps [simp]:
  "subslice_at p i n = Ok b \<longleftrightarrow> i + n \<le> length p \<and> b = subslice p i n"
  "subslice_at p i n = Panic \<longleftrightarrow> length p < i + n"
  "subslice_at p i n \<noteq> Err e"
  by (auto simp: subslice_at_def)

lemma overwrite_at_simps [simp]:
  "overwrite_at p i bs = Ok q \<longleftrightarrow> i + length bs \<le> length p \<and> q = overwrite p i bs"
  "overwrite_at p i bs = Panic \<longleftrightarrow> length p < i + length bs"
  "overwrite_at p i bs \<noteq> Err e"
  by (auto simp: overwrite_at_def)

subsection \<open>Big-endian accessors\<close>

definition be16 :: "byte \<Rightarrow> byte \<Rightarrow> u16" where
  "be16 a b = (push_bit 8 (ucast a) OR ucast b)"

definition be32 :: "byte \<Rightarrow> byte \<Rightarrow> byte \<Rightarrow> byte \<Rightarrow> u32" where
  "be32 a b c d = (push_bit 24 (ucast a) OR push_bit 16 (ucast b) OR push_bit 8 (ucast c) OR ucast d)"

definition u16_be :: "u16 \<Rightarrow> packet" where
  "u16_be w = [ucast (drop_bit 8 w), ucast w]"

definition u32_be :: "u32 \<Rightarrow> packet" where
  "u32_be w = [ucast (drop_bit 24 w), ucast (drop_bit 16 w), ucast (drop_bit 8 w), ucast w]"

definition get_u16 :: "packet \<Rightarrow> nat \<Rightarrow> u16" where
  "get_u16 p i = be16 (p ! i) (p ! (i + 1))"

definition get_u32 :: "packet \<Rightarrow> nat \<Rightarrow> u32" where
  "get_u32 p i = be32 (p ! i) (p ! (i + 1)) (p ! (i + 2)) (p ! (i + 3))"

definition read_u16 :: "packet \<Rightarrow> nat \<Rightarrow> ('e, u16) res" where
  "read_u16 p i = (if i + 2 \<le> length p then Ok (get_u16 p i) else Panic)"

definition read_u32 :: "packet \<Rightarrow> nat \<Rightarrow> ('e, u32) res" where
  "read_u32 p i = (if i + 4 \<le> length p then Ok (get_u32 p i) else Panic)"

definition write_u16 :: "packet \<Rightarrow> nat \<Rightarrow> u16 \<Rightarrow> ('e, packet) res" where
  "write_u16 p i w = (if i + 2 \<le> length p then Ok (overwrite p i (u16_be w)) else Panic)"

lemma read_u16_simps [simp]:
  "i + 2 \<le> length p \<Longrightarrow> read_u16 p i = Ok (get_u16 p i)"
  "read_u16 p i = Ok w \<longleftrightarrow> i + 2 \<le> length p \<and> w = get_u16 p i"
  "read_u16 p i = Panic \<longleftrightarrow> length p < i + 2"
  "read_u16 p i \<noteq> Err e"
  by (auto simp: read_u16_def)

lemma read_u32_simps [simp]:
  "i + 4 \<le> length p \<Longrightarrow> read_u32 p i = Ok (get_u32 p i)"
  "read_u32 p i = Ok v \<longleftrightarrow> i + 4 \<le> length p \<and> v = get_u32 p i"
  "read_u32 p i = Panic \<longleftrightarrow> length p < i + 4"
  "read_u32 p i \<noteq> Err e"
  by (auto simp: read_u32_def)

lemma write_u16_simps [simp]:
  "i + 2 \<le> length p \<Longrightarrow> write_u16 p i w = Ok (overwrite p i (u16_be w))"
  "write_u16 p i w = Ok q \<longleftrightarrow> i + 2 \<le> length p \<and> q = overwrite p i (u16_be w)"
  "write_u16 p i w = Panic \<longleftrightarrow> length p < i + 2"
  "write_u16 p i w \<noteq> Err e"
  by (auto simp: write_u16_def)

text \<open>The four counts of a header.\<close>

definition section_counts :: "packet \<Rightarrow> ('e, nat \<times> nat \<times> nat \<times> nat) res" where
  "section_counts p =
    rbind (read_u16 p 4) (\<lambda>qdcount.
    rbind (read_u16 p 6) (\<lambda>ancount.
    rbind (read_u16 p 8) (\<lambda>nscount.
    rbind (read_u16 p 10) (\<lambda>arcount.
    Ok (unat qdcount, unat ancount, unat nscount, unat arcount)))))"

lemma section_counts_simps [simp]:
  "12 \<le> length p \<Longrightarrow> section_counts p
     = Ok (unat (get_u16 p 4), unat (get_u16 p 6), unat (get_u16 p 8), unat (get_u16 p 10))"
  "section_counts p = Panic \<longleftrightarrow> length p < 12"
  "section_counts p \<noteq> Err e"
  by (auto simp: section_counts_def rbind_eq_Panic rbind_eq_Err)

lemma length_u16_be [simp]: "length (u16_be w) = 2"
  by (simp add: u16_be_def)

lemma length_u32_be [simp]: "length (u32_be w) = 4"
  by (simp add: u32_be_def)

lemma be16_u16_be [simp]: "be16 (ucast (drop_bit 8 w)) (ucast w) = w"
  by (rule bit_word_eqI) (auto simp: be16_def bit_simps)

lemma be32_u32_be [simp]:
  "be32 (ucast (drop_bit 24 w)) (ucast (drop_bit 16 w)) (ucast (drop_bit 8 w)) (ucast w) = w"
proof (rule bit_word_eqI)
  fix n
  assume "n < LENGTH(32)"
  then consider "24 \<le> n" "n < 32" | "16 \<le> n" "n < 24" | "8 \<le> n" "n < 16" | "n < 8"
    by (cases "24 \<le> n"; cases "16 \<le> n"; cases "8 \<le> n") auto
  then show "bit (be32 (ucast (drop_bit 24 w)) (ucast (drop_bit 16 w)) (ucast (drop_bit 8 w))
      (ucast w)) n = bit w n"
    by cases (auto simp: be32_def bit_simps)
qed

lemma u16_be_be16 [simp]: "u16_be (be16 a b) = [a, b]"
proof -
  have "ucast (drop_bit 8 (be16 a b)) = a"
    by (rule bit_word_eqI) (auto simp: be16_def bit_simps dest: bit_imp_le_length)
  moreover have "ucast (be16 a b) = b"
    by (rule bit_word_eqI) (auto simp: be16_def bit_simps)
  ultimately show ?thesis by (simp add: u16_be_def)
qed

lemma get_u16_append [simp]: "length a = i \<Longrightarrow> get_u16 (a @ u16_be w @ c) i = w"
  by (auto simp: get_u16_def u16_be_def nth_append)

lemma get_u32_append [simp]: "length a = i \<Longrightarrow> get_u32 (a @ u32_be w @ c) i = w"
  by (auto simp: get_u32_def u32_be_def nth_append)

lemma get_u16_append_left:
  "i + 2 \<le> length a \<Longrightarrow> get_u16 (a @ c) i = get_u16 a i"
  by (simp add: get_u16_def nth_append)

lemma u16_be_get_u16: "i + 2 \<le> length p \<Longrightarrow> u16_be (get_u16 p i) = subslice p i 2"
proof -
  assume "i + 2 \<le> length p"
  then have "drop i p = p ! i # p ! (i + 1) # drop (i + 2) p"
    by (metis Cons_nth_drop_Suc add_2_eq_Suc' add.right_neutral add_Suc_right Suc_le_lessD
        Suc_eq_plus1 Suc_lessD)
  then show ?thesis by (simp add: get_u16_def subslice_def)
qed

lemma u16_of_nat_inverse [simp]: "n < 65536 \<Longrightarrow> unat (of_nat n :: u16) = n"
  by (simp add: unat_of_nat)

lemma u8_of_nat_inverse [simp]: "n < 256 \<Longrightarrow> unat (of_nat n :: byte) = n"
  by (simp add: unat_of_nat)

lemma unat_u16_bound [simp]: "unat (w :: u16) < 65536"
  using unsigned_less [of w] by simp

lemma unat_u16_le [simp]: "unat (w :: u16) \<le> 65535"
  using unsigned_less [of w] by (simp add: less_Suc_eq_le [symmetric])

lemma unat_u8_bound [simp]: "unat (b :: byte) < 256"
  using unsigned_less [of b] by simp

text \<open>
  The offset in a two-byte compression pointer, \<open>((len & 0x3f) << 8) | b2\<close>, as the four
  name readers of the source compute it.
\<close>

definition pointer_target :: "byte \<Rightarrow> byte \<Rightarrow> nat" where
  "pointer_target len b2 = (push_bit 8 (unat (len AND 0x3f)) OR unat b2)"

subsection \<open>The top bits of a label length\<close>

lemma and_not_mask6_iff: "(b :: byte) AND NOT (mask 6) = 0 \<longleftrightarrow> take_bit 6 b = b"
proof
  assume "b AND NOT (mask 6) = 0"
  then have "n < 6" if "bit b n" for n
    using bit_and_iff [of b "NOT (mask 6)" n] that bit_imp_le_length [OF that]
    by (auto simp: bit_simps)
  then show "take_bit 6 b = b" by (auto intro!: bit_word_eqI simp: bit_simps)
next
  assume "take_bit 6 b = b"
  then show "b AND NOT (mask 6) = 0"
    by (metis take_bit_eq_mask and.assoc word_log_esimps(1) bit.conj_cancel_right and_zero_eq)
qed

lemma take_bit_byte_iff: "take_bit n (b :: byte) = b \<longleftrightarrow> unat b < 2 ^ n"
proof -
  have "unat (take_bit n b) = take_bit n (unat b)" by (rule unsigned_take_bit_eq)
  then have "unat (take_bit n b) = unat b mod 2 ^ n" by (simp add: take_bit_eq_mod)
  then show ?thesis
    by (metis mod_less mod_less_divisor unsigned_word_eqI zero_less_numeral zero_less_power)
qed

lemma top_bits_zero_iff: "(b :: byte) AND 0xC0 = 0 \<longleftrightarrow> unat b < 64"
proof -
  have "(0xC0 :: byte) = NOT (mask 6)" by (simp add: mask_eq_exp_minus_1)
  then show ?thesis using and_not_mask6_iff [of b] take_bit_byte_iff [of 6 b] by simp
qed

lemma byte_less_16_iff: "(b :: byte) < 16 \<longleftrightarrow> (\<forall>k. bit b k \<longrightarrow> k < 4)"
proof -
  have "b < 16 \<longleftrightarrow> take_bit 4 b = b"
    using take_bit_byte_iff [of 4 b] by (simp add: word_less_nat_alt)
  moreover have "take_bit 4 b = b \<longleftrightarrow> (\<forall>k. bit b k \<longrightarrow> k < 4)"
  proof
    assume "take_bit 4 b = b"
    then show "\<forall>k. bit b k \<longrightarrow> k < 4" by (metis bit_take_bit_iff)
  qed (auto intro!: bit_word_eqI simp: bit_take_bit_iff)
  ultimately show ?thesis by simp
qed

subsection \<open>What stands at an offset\<close>

text \<open>
  \<open>has_at p off bs\<close>: the bytes \<open>bs\<close> stand in \<open>p\<close> from offset \<open>off\<close>. An encoding is a
  concatenation, and \<open>has_at_append\<close> splits the fact along it, so that each read of a
  parser finds the field it reads.
\<close>

definition has_at :: "packet \<Rightarrow> nat \<Rightarrow> packet \<Rightarrow> bool" where
  "has_at p off bs \<longleftrightarrow> off + length bs \<le> length p \<and> take (length bs) (drop off p) = bs"

lemma has_at_iff: "has_at p off bs \<longleftrightarrow> (\<exists>pre suf. p = pre @ bs @ suf \<and> length pre = off)"
proof
  assume h: "has_at p off bs"
  then have "p = take off p @ bs @ drop (length bs) (drop off p)"
    by (metis has_at_def append_take_drop_id)
  moreover have "length (take off p) = off" using h by (simp add: has_at_def)
  ultimately show "\<exists>pre suf. p = pre @ bs @ suf \<and> length pre = off" by blast
qed (auto simp: has_at_def)

lemma has_at_Nil [simp]: "has_at p off [] \<longleftrightarrow> off \<le> length p"
  by (simp add: has_at_def)

lemma has_at_append [simp]:
  "has_at p off (a @ b) \<longleftrightarrow> has_at p off a \<and> has_at p (off + length a) b"
  by (auto simp: has_at_def take_add add.commute add.left_commute)

lemma has_at_Cons: "has_at p off (x # xs) \<longleftrightarrow> off < length p \<and> p ! off = x \<and> has_at p (off + 1) xs"
proof -
  have "has_at p off [x] \<longleftrightarrow> off < length p \<and> p ! off = x"
    by (auto simp: has_at_def take_Suc_conv_app_nth hd_drop_conv_nth take_Suc)
  then show ?thesis using has_at_append [of p off "[x]" xs] by simp
qed

lemma has_at_prefix [simp]: "length pre = off \<Longrightarrow> has_at (pre @ bs @ suf) off bs"
  by (auto simp: has_at_def)

lemma has_at_bound: "has_at p off bs \<Longrightarrow> off + length bs \<le> length p"
  by (simp add: has_at_def)

lemma has_at_subslice: "has_at p off bs \<Longrightarrow> subslice p off (length bs) = bs"
  by (simp add: has_at_def subslice_def)

lemma has_at_u16:
  "has_at p off (u16_be w) \<longleftrightarrow> off + 2 \<le> length p \<and> get_u16 p off = w"
proof
  assume "has_at p off (u16_be w)"
  then show "off + 2 \<le> length p \<and> get_u16 p off = w"
    by (auto simp: has_at_iff)
next
  assume "off + 2 \<le> length p \<and> get_u16 p off = w"
  then show "has_at p off (u16_be w)"
    using u16_be_get_u16 [of off p] by (auto simp: has_at_def subslice_def)
qed

lemma has_at_u32:
  "has_at p off (u32_be w) \<Longrightarrow> off + 4 \<le> length p \<and> get_u32 p off = w"
  by (auto simp: has_at_iff)

subsection \<open>Saturating arithmetic\<close>

definition u64_max :: nat where
  "u64_max = 2 ^ 64 - 1"

definition saturating_add_u64 :: "u64 \<Rightarrow> u64 \<Rightarrow> u64" where
  "saturating_add_u64 a b = (if unat a + unat b \<le> u64_max then a + b else of_nat u64_max)"

definition saturating_sub_u64 :: "u64 \<Rightarrow> u64 \<Rightarrow> u64" where
  "saturating_sub_u64 a b = (if b \<le> a then a - b else 0)"

definition saturating_mul_u64 :: "u64 \<Rightarrow> u64 \<Rightarrow> u64" where
  "saturating_mul_u64 a b = (if unat a * unat b \<le> u64_max then a * b else of_nat u64_max)"

lemma unat_saturating_add: "unat (saturating_add_u64 a b) = min (unat a + unat b) u64_max"
  by (auto simp: saturating_add_u64_def u64_max_def unat_word_ariths unat_of_nat min_def)

lemma unat_saturating_sub: "unat (saturating_sub_u64 a b) = unat a - unat b"
  by (auto simp: saturating_sub_u64_def unat_sub word_le_nat_alt)

lemma unat_saturating_mul: "unat (saturating_mul_u64 a b) = min (unat a * unat b) u64_max"
  by (auto simp: saturating_mul_u64_def u64_max_def unat_word_ariths unat_of_nat min_def)

end
