(* ===== verification/Rr_Types.thy ===== *)
theory Rr_Types
  imports Main "HOL-Library.Word"
begin

text \<open>
  Resource record types (\<open>src/libdoh/src/upstream/rr_types.rs\<close>): the enum
  \<open>RrType\<close> and its two conversions. A constructor carries the source's name behind
  \<open>RR_\<close>, since several of the names are taken in HOL. The lemmas show that the two
  conversions are inverse to each other on the types that \<open>from_u16\<close> can produce.
\<close>

datatype (plugins only: code size) rr_type
  = RR_None | RR_A | RR_NS | RR_MD | RR_MF | RR_CNAME | RR_SOA | RR_MB | RR_MG | RR_MR
  | RR_Null | RR_PTR | RR_HINFO | RR_MINFO | RR_MX | RR_TXT | RR_RP | RR_AFSDB | RR_X25
  | RR_ISDN | RR_RT | RR_NSAPPTR | RR_SIG | RR_KEY | RR_PX | RR_GPOS | RR_AAAA | RR_LOC
  | RR_NXT | RR_EID | RR_NIMLOC | RR_SRV | RR_ATMA | RR_NAPTR | RR_KX | RR_CERT | RR_DNAME
  | RR_OPT | RR_APL | RR_DS | RR_SSHFP | RR_IPSECKEY | RR_RRSIG | RR_NSEC | RR_DNSKEY
  | RR_DHCID | RR_NSEC3 | RR_NSEC3PARAM | RR_TLSA | RR_SMIMEA | RR_HIP | RR_NINFO | RR_RKEY
  | RR_TALINK | RR_CDS | RR_CDNSKEY | RR_OPENPGPKEY | RR_CSYNC | RR_ZONEMD | RR_SVCB | RR_HTTPS
  | RR_SPF | RR_UINFO | RR_UID | RR_GID | RR_UNSPEC | RR_NID | RR_L32 | RR_L64 | RR_LP
  | RR_EUI48 | RR_EUI64 | RR_NXNAME | RR_URI | RR_CAA | RR_AVC | RR_AMTRELAY | RR_RESINFO
  | RR_TKEY | RR_TSIG | RR_IXFR | RR_AXFR | RR_MAILB | RR_MAILA | RR_ANY | RR_TA | RR_DLV
  | RR_Reserved | RR_Unknown "16 word"

definition rr_from_u16 :: "16 word \<Rightarrow> rr_type" where
  "rr_from_u16 code =
    (if code = 0 then RR_None
     else if code = 1 then RR_A
     else if code = 2 then RR_NS
     else if code = 3 then RR_MD
     else if code = 4 then RR_MF
     else if code = 5 then RR_CNAME
     else if code = 6 then RR_SOA
     else if code = 7 then RR_MB
     else if code = 8 then RR_MG
     else if code = 9 then RR_MR
     else if code = 10 then RR_Null
     else if code = 12 then RR_PTR
     else if code = 13 then RR_HINFO
     else if code = 14 then RR_MINFO
     else if code = 15 then RR_MX
     else if code = 16 then RR_TXT
     else if code = 17 then RR_RP
     else if code = 18 then RR_AFSDB
     else if code = 19 then RR_X25
     else if code = 20 then RR_ISDN
     else if code = 21 then RR_RT
     else if code = 23 then RR_NSAPPTR
     else if code = 24 then RR_SIG
     else if code = 25 then RR_KEY
     else if code = 26 then RR_PX
     else if code = 27 then RR_GPOS
     else if code = 28 then RR_AAAA
     else if code = 29 then RR_LOC
     else if code = 30 then RR_NXT
     else if code = 31 then RR_EID
     else if code = 32 then RR_NIMLOC
     else if code = 33 then RR_SRV
     else if code = 34 then RR_ATMA
     else if code = 35 then RR_NAPTR
     else if code = 36 then RR_KX
     else if code = 37 then RR_CERT
     else if code = 39 then RR_DNAME
     else if code = 41 then RR_OPT
     else if code = 42 then RR_APL
     else if code = 43 then RR_DS
     else if code = 44 then RR_SSHFP
     else if code = 45 then RR_IPSECKEY
     else if code = 46 then RR_RRSIG
     else if code = 47 then RR_NSEC
     else if code = 48 then RR_DNSKEY
     else if code = 49 then RR_DHCID
     else if code = 50 then RR_NSEC3
     else if code = 51 then RR_NSEC3PARAM
     else if code = 52 then RR_TLSA
     else if code = 53 then RR_SMIMEA
     else if code = 55 then RR_HIP
     else if code = 56 then RR_NINFO
     else if code = 57 then RR_RKEY
     else if code = 58 then RR_TALINK
     else if code = 59 then RR_CDS
     else if code = 60 then RR_CDNSKEY
     else if code = 61 then RR_OPENPGPKEY
     else if code = 62 then RR_CSYNC
     else if code = 63 then RR_ZONEMD
     else if code = 64 then RR_SVCB
     else if code = 65 then RR_HTTPS
     else if code = 99 then RR_SPF
     else if code = 100 then RR_UINFO
     else if code = 101 then RR_UID
     else if code = 102 then RR_GID
     else if code = 103 then RR_UNSPEC
     else if code = 104 then RR_NID
     else if code = 105 then RR_L32
     else if code = 106 then RR_L64
     else if code = 107 then RR_LP
     else if code = 108 then RR_EUI48
     else if code = 109 then RR_EUI64
     else if code = 128 then RR_NXNAME
     else if code = 249 then RR_TKEY
     else if code = 250 then RR_TSIG
     else if code = 251 then RR_IXFR
     else if code = 252 then RR_AXFR
     else if code = 253 then RR_MAILB
     else if code = 254 then RR_MAILA
     else if code = 255 then RR_ANY
     else if code = 256 then RR_URI
     else if code = 257 then RR_CAA
     else if code = 258 then RR_AVC
     else if code = 260 then RR_AMTRELAY
     else if code = 261 then RR_RESINFO
     else if code = 32768 then RR_TA
     else if code = 32769 then RR_DLV
     else if code = 65535 then RR_Reserved
     else RR_Unknown code)"

primrec rr_to_u16 :: "rr_type \<Rightarrow> 16 word" where
  "rr_to_u16 RR_None = 0"
| "rr_to_u16 RR_A = 1"
| "rr_to_u16 RR_NS = 2"
| "rr_to_u16 RR_MD = 3"
| "rr_to_u16 RR_MF = 4"
| "rr_to_u16 RR_CNAME = 5"
| "rr_to_u16 RR_SOA = 6"
| "rr_to_u16 RR_MB = 7"
| "rr_to_u16 RR_MG = 8"
| "rr_to_u16 RR_MR = 9"
| "rr_to_u16 RR_Null = 10"
| "rr_to_u16 RR_PTR = 12"
| "rr_to_u16 RR_HINFO = 13"
| "rr_to_u16 RR_MINFO = 14"
| "rr_to_u16 RR_MX = 15"
| "rr_to_u16 RR_TXT = 16"
| "rr_to_u16 RR_RP = 17"
| "rr_to_u16 RR_AFSDB = 18"
| "rr_to_u16 RR_X25 = 19"
| "rr_to_u16 RR_ISDN = 20"
| "rr_to_u16 RR_RT = 21"
| "rr_to_u16 RR_NSAPPTR = 23"
| "rr_to_u16 RR_SIG = 24"
| "rr_to_u16 RR_KEY = 25"
| "rr_to_u16 RR_PX = 26"
| "rr_to_u16 RR_GPOS = 27"
| "rr_to_u16 RR_AAAA = 28"
| "rr_to_u16 RR_LOC = 29"
| "rr_to_u16 RR_NXT = 30"
| "rr_to_u16 RR_EID = 31"
| "rr_to_u16 RR_NIMLOC = 32"
| "rr_to_u16 RR_SRV = 33"
| "rr_to_u16 RR_ATMA = 34"
| "rr_to_u16 RR_NAPTR = 35"
| "rr_to_u16 RR_KX = 36"
| "rr_to_u16 RR_CERT = 37"
| "rr_to_u16 RR_DNAME = 39"
| "rr_to_u16 RR_OPT = 41"
| "rr_to_u16 RR_APL = 42"
| "rr_to_u16 RR_DS = 43"
| "rr_to_u16 RR_SSHFP = 44"
| "rr_to_u16 RR_IPSECKEY = 45"
| "rr_to_u16 RR_RRSIG = 46"
| "rr_to_u16 RR_NSEC = 47"
| "rr_to_u16 RR_DNSKEY = 48"
| "rr_to_u16 RR_DHCID = 49"
| "rr_to_u16 RR_NSEC3 = 50"
| "rr_to_u16 RR_NSEC3PARAM = 51"
| "rr_to_u16 RR_TLSA = 52"
| "rr_to_u16 RR_SMIMEA = 53"
| "rr_to_u16 RR_HIP = 55"
| "rr_to_u16 RR_NINFO = 56"
| "rr_to_u16 RR_RKEY = 57"
| "rr_to_u16 RR_TALINK = 58"
| "rr_to_u16 RR_CDS = 59"
| "rr_to_u16 RR_CDNSKEY = 60"
| "rr_to_u16 RR_OPENPGPKEY = 61"
| "rr_to_u16 RR_CSYNC = 62"
| "rr_to_u16 RR_ZONEMD = 63"
| "rr_to_u16 RR_SVCB = 64"
| "rr_to_u16 RR_HTTPS = 65"
| "rr_to_u16 RR_SPF = 99"
| "rr_to_u16 RR_UINFO = 100"
| "rr_to_u16 RR_UID = 101"
| "rr_to_u16 RR_GID = 102"
| "rr_to_u16 RR_UNSPEC = 103"
| "rr_to_u16 RR_NID = 104"
| "rr_to_u16 RR_L32 = 105"
| "rr_to_u16 RR_L64 = 106"
| "rr_to_u16 RR_LP = 107"
| "rr_to_u16 RR_EUI48 = 108"
| "rr_to_u16 RR_EUI64 = 109"
| "rr_to_u16 RR_NXNAME = 128"
| "rr_to_u16 RR_TKEY = 249"
| "rr_to_u16 RR_TSIG = 250"
| "rr_to_u16 RR_IXFR = 251"
| "rr_to_u16 RR_AXFR = 252"
| "rr_to_u16 RR_MAILB = 253"
| "rr_to_u16 RR_MAILA = 254"
| "rr_to_u16 RR_ANY = 255"
| "rr_to_u16 RR_URI = 256"
| "rr_to_u16 RR_CAA = 257"
| "rr_to_u16 RR_AVC = 258"
| "rr_to_u16 RR_AMTRELAY = 260"
| "rr_to_u16 RR_RESINFO = 261"
| "rr_to_u16 RR_TA = 32768"
| "rr_to_u16 RR_DLV = 32769"
| "rr_to_u16 RR_Reserved = 65535"
| "rr_to_u16 (RR_Unknown code) = code"

text \<open>
  The types a wire code can denote: \<open>Unknown\<close> carries only a code without a name of
  its own.
\<close>

definition rr_canonical :: "rr_type \<Rightarrow> bool" where
  "rr_canonical t = (rr_from_u16 (rr_to_u16 t) = t)"

lemma rr_to_from_u16 [simp]: "rr_to_u16 (rr_from_u16 c) = c"
  unfolding rr_from_u16_def by (simp split: if_split)

lemma rr_canonical_from_u16 [simp]: "rr_canonical (rr_from_u16 c)"
  by (simp add: rr_canonical_def)

lemma rr_from_to_u16 [simp]: "rr_canonical t \<Longrightarrow> rr_from_u16 (rr_to_u16 t) = t"
  by (simp add: rr_canonical_def)

lemma rr_canonical_named: "(\<And>c. t \<noteq> RR_Unknown c) \<Longrightarrow> rr_canonical t"
  by (cases t) (simp_all add: rr_canonical_def rr_from_u16_def)

lemma rr_from_u16_eq_iff: "rr_canonical t \<Longrightarrow> rr_from_u16 c = t \<longleftrightarrow> c = rr_to_u16 t"
  by auto

lemma rr_canonical_address_types [simp]:
  "rr_canonical RR_A" "rr_canonical RR_AAAA" "rr_canonical RR_OPT"
  by (simp_all add: rr_canonical_def rr_from_u16_def)

end
