(* ===== verification/Msg.thy ===== *)
theory Msg
  imports Prelude Rr_Types
begin

text \<open>
  The DNS message codec (\<open>src/libdoh/src/upstream/msg.rs\<close>): header bits, compressed
  names, questions, resource records, whole messages, and the operations on the address records
  of an answer section, both on an unpacked message and in place on the wire.

  The lemmas show that packing and unpacking are inverse on well-formed messages, that unpacking
  yields well-formed messages only and never panics, that the reader which only skips a name
  agrees with the reader which decodes it, and that rewriting addresses in place on the wire is
  rewriting them in the message.
\<close>

declare add_2_eq_Suc [simp del] add_2_eq_Suc' [simp del]

subsection \<open>Errors, addresses, header\<close>

datatype MsgError =
    ShortPacket | InvalidName | CompressionLoop | InvalidLabelLength | InvalidRecord
  | TrailingBytes | RdataTooLong

definition DNS_HEADER_SIZE :: nat where
  "DNS_HEADER_SIZE = 12"

definition DNS_CLASS_IN :: u16 where
  "DNS_CLASS_IN = 1"

definition MAX_DOMAIN_NAME_WIRE_OCTETS :: nat where
  "MAX_DOMAIN_NAME_WIRE_OCTETS = 255"

definition MAX_COMPRESSION_POINTERS :: nat where
  "MAX_COMPRESSION_POINTERS = 128"

text \<open>The address types of the standard library: four and sixteen octets.\<close>

datatype octets4 = Octets4 byte byte byte byte

datatype ip_addr = V4 octets4 | V6 octets4 octets4 octets4 octets4

fun octets4_list :: "octets4 \<Rightarrow> packet" where
  "octets4_list (Octets4 a b c d) = [a, b, c, d]"

fun ip_octets :: "ip_addr \<Rightarrow> packet" where
  "ip_octets (V4 q) = octets4_list q"
| "ip_octets (V6 q r s t) = octets4_list q @ octets4_list r @ octets4_list s @ octets4_list t"

definition octets4_of :: "packet \<Rightarrow> nat \<Rightarrow> octets4" where
  "octets4_of bs i = Octets4 (bs ! i) (bs ! (i + 1)) (bs ! (i + 2)) (bs ! (i + 3))"

record MsgHeader =
  h_id :: u16
  h_response :: bool
  h_opcode :: byte
  h_authoritative :: bool
  h_truncated :: bool
  h_recursion_desired :: bool
  h_recursion_available :: bool
  h_zero :: bool
  h_authenticated_data :: bool
  h_checking_disabled :: bool
  h_rcode :: byte

definition header_from_wire :: "u16 \<Rightarrow> u16 \<Rightarrow> MsgHeader" where
  "header_from_wire ident bits =
    \<lparr> h_id = ident,
      h_response = (bits AND push_bit 15 1 \<noteq> 0),
      h_opcode = ucast (drop_bit 11 bits AND 0x0f),
      h_authoritative = (bits AND push_bit 10 1 \<noteq> 0),
      h_truncated = (bits AND push_bit 9 1 \<noteq> 0),
      h_recursion_desired = (bits AND push_bit 8 1 \<noteq> 0),
      h_recursion_available = (bits AND push_bit 7 1 \<noteq> 0),
      h_zero = (bits AND push_bit 6 1 \<noteq> 0),
      h_authenticated_data = (bits AND push_bit 5 1 \<noteq> 0),
      h_checking_disabled = (bits AND push_bit 4 1 \<noteq> 0),
      h_rcode = ucast (bits AND 0x0f) \<rparr>"

text \<open>\<open>if self.flag { bits |= 1 << k; }\<close>\<close>

definition set_bit_if :: "bool \<Rightarrow> nat \<Rightarrow> u16 \<Rightarrow> u16" where
  "set_bit_if b k bits = (if b then bits OR push_bit k 1 else bits)"

definition header_to_wire_bits :: "MsgHeader \<Rightarrow> u16" where
  "header_to_wire_bits h =
    (let bits = push_bit 11 (ucast (h_opcode h) AND 0x0f);
         bits = set_bit_if (h_response h) 15 bits;
         bits = set_bit_if (h_authoritative h) 10 bits;
         bits = set_bit_if (h_truncated h) 9 bits;
         bits = set_bit_if (h_recursion_desired h) 8 bits;
         bits = set_bit_if (h_recursion_available h) 7 bits;
         bits = set_bit_if (h_zero h) 6 bits;
         bits = set_bit_if (h_authenticated_data h) 5 bits;
         bits = set_bit_if (h_checking_disabled h) 4 bits
     in bits OR (ucast (h_rcode h) AND 0x0f))"

subsection \<open>Names\<close>

record Name =
  labels :: "packet list"

text \<open>
  \<open>Name::from_wire\<close>. The loop's locals are its arguments: the labels read so far, the
  cursor, the offset after the first pointer, the number of pointers followed and the length of
  the name on the wire. The bounds on the last two are what makes it terminate.
\<close>

function name_loop ::
  "packet \<Rightarrow> packet list \<Rightarrow> nat \<Rightarrow> nat option \<Rightarrow> nat \<Rightarrow> nat \<Rightarrow> (MsgError, Name \<times> nat) res"
where
  "name_loop p ls current consumed pointers_followed wire_len =
    (if current < length p then
       let len = p ! current in
       if len AND 0xC0 = 0xC0 then
         if current + 1 < length p then
           let b2 = p ! (current + 1);
               ptr = pointer_target len b2 in
           if ptr \<ge> length p then Err InvalidName
           else
             let consumed' = (if consumed = None then Some (current + 2) else consumed);
                 pointers_followed' = pointers_followed + 1 in
             if pointers_followed' > MAX_COMPRESSION_POINTERS then Err CompressionLoop
             else name_loop p ls ptr consumed' pointers_followed' wire_len
         else Err ShortPacket
       else if len AND 0xC0 = 0 then
         let label_len = unat len;
             current' = current + 1 in
         if label_len = 0 then
           Ok (\<lparr>labels = ls\<rparr>, unwrap_or consumed current')
         else
           let label_end = current' + label_len in
           if label_end > length p then Err ShortPacket
           else
             let wire_len' = wire_len + (1 + label_len) in
             if wire_len' > MAX_DOMAIN_NAME_WIRE_OCTETS then Err InvalidName
             else rbind (subslice_at p current' label_len) (\<lambda>label.
                    name_loop p (ls @ [label]) label_end consumed pointers_followed wire_len')
       else Err InvalidLabelLength
     else Err ShortPacket)"
  by pat_completeness auto
termination
  by (relation "measures [\<lambda>(p, ls, c, cons, pf, wl). 129 - pf, \<lambda>(p, ls, c, cons, pf, wl). 256 - wl]")
    (auto simp: MAX_COMPRESSION_POINTERS_def MAX_DOMAIN_NAME_WIRE_OCTETS_def)

definition name_from_wire :: "packet \<Rightarrow> nat \<Rightarrow> (MsgError, Name \<times> nat) res" where
  "name_from_wire p offset = name_loop p [] offset None 0 1"

function skip_wire_loop :: "packet \<Rightarrow> nat \<Rightarrow> (MsgError, nat) res" where
  "skip_wire_loop p current =
    (if current < length p then
       let len = p ! current in
       if len AND 0xC0 = 0xC0 then
         (if current + 1 < length p then Ok (current + 2) else Err ShortPacket)
       else if len AND 0xC0 = 0 then
         let label_len = unat len in
         if label_len \<ge> 0x40 then Err InvalidLabelLength
         else
           let current' = current + (1 + label_len) in
           if label_len = 0 then Ok current'
           else if current' > length p then Err ShortPacket
           else skip_wire_loop p current'
       else Err InvalidLabelLength
     else Err ShortPacket)"
  by pat_completeness auto
termination
  by (relation "measure (\<lambda>(p, c). length p - c)") auto

declare name_loop.simps [simp del] skip_wire_loop.simps [simp del]

definition name_skip_wire :: "packet \<Rightarrow> nat \<Rightarrow> (MsgError, nat) res" where
  "name_skip_wire p offset = skip_wire_loop p offset"

definition name_wire_len :: "Name \<Rightarrow> nat" where
  "name_wire_len n = 1 + sum_list (map (\<lambda>l. 1 + length l) (labels n))"

text \<open>
  \<open>Name::pack_into\<close> and the packers below append to the buffer they are given. On an
  error the buffer is dropped by every caller, so only the error is kept.
\<close>

fun pack_labels :: "packet list \<Rightarrow> packet \<Rightarrow> (MsgError, packet) res" where
  "pack_labels [] out = Ok out"
| "pack_labels (l # ls) out =
    (if length l \<ge> 0x40 then Err InvalidLabelLength
     else pack_labels ls (out @ [of_nat (length l)] @ l))"

definition name_pack_into :: "Name \<Rightarrow> packet \<Rightarrow> (MsgError, packet) res" where
  "name_pack_into n out = rbind (pack_labels (labels n) out) (\<lambda>out. Ok (out @ [0]))"

subsection \<open>Questions, records, messages\<close>

record Question =
  q_name :: Name
  q_qtype :: rr_type
  q_qclass :: u16

record ResourceRecord =
  rr_name :: Name
  rr_rr_type :: rr_type
  rr_rr_class :: u16
  rr_ttl :: u32
  rr_rdata :: packet

record Msg =
  m_header :: MsgHeader
  m_compress :: bool
  m_questions :: "Question list"
  m_answers :: "ResourceRecord list"
  m_authorities :: "ResourceRecord list"
  m_additionals :: "ResourceRecord list"

fun unpack_questions :: "packet \<Rightarrow> nat \<Rightarrow> nat \<Rightarrow> (MsgError, Question list \<times> nat) res" where
  "unpack_questions p offset 0 = Ok ([], offset)"
| "unpack_questions p offset (Suc n) =
    rbind (name_from_wire p offset) (\<lambda>(name, next).
      if length p - next < 4 then Err ShortPacket
      else rbind (read_u16 p next) (\<lambda>qtype.
        rbind (read_u16 p (next + 2)) (\<lambda>qclass.
        rbind (unpack_questions p (next + 4) n) (\<lambda>(qs, off).
        Ok (\<lparr>q_name = name, q_qtype = rr_from_u16 qtype, q_qclass = qclass\<rparr> # qs, off)))))"

fun unpack_rr_section ::
  "packet \<Rightarrow> nat \<Rightarrow> nat \<Rightarrow> (MsgError, ResourceRecord list \<times> nat) res" where
  "unpack_rr_section p offset 0 = Ok ([], offset)"
| "unpack_rr_section p offset (Suc n) =
    rbind (name_from_wire p offset) (\<lambda>(name, next).
      if length p - next < 10 then Err ShortPacket
      else rbind (read_u16 p next) (\<lambda>rr_type.
        rbind (read_u16 p (next + 2)) (\<lambda>rr_class.
        rbind (read_u32 p (next + 4)) (\<lambda>ttl.
        rbind (read_u16 p (next + 8)) (\<lambda>rdlen.
          let rdlen = unat rdlen; rdata_offset = next + 10 in
          if length p - rdata_offset < rdlen then Err InvalidRecord
          else rbind (subslice_at p rdata_offset rdlen) (\<lambda>rdata.
            rbind (unpack_rr_section p (rdata_offset + rdlen) n) (\<lambda>(rrs, off).
            Ok (\<lparr>rr_name = name, rr_rr_type = rr_from_u16 rr_type, rr_rr_class = rr_class,
                 rr_ttl = ttl, rr_rdata = rdata\<rparr> # rrs, off))))))))"

definition msg_unpack :: "packet \<Rightarrow> (MsgError, Msg) res" where
  "msg_unpack p =
    (if length p < DNS_HEADER_SIZE then Err ShortPacket
     else rbind (read_u16 p 0) (\<lambda>ident.
       rbind (read_u16 p 2) (\<lambda>bits.
       rbind (read_u16 p 4) (\<lambda>qdcount.
       rbind (read_u16 p 6) (\<lambda>ancount.
       rbind (read_u16 p 8) (\<lambda>nscount.
       rbind (read_u16 p 10) (\<lambda>arcount.
       rbind (unpack_questions p DNS_HEADER_SIZE (unat qdcount)) (\<lambda>(questions, offset).
       rbind (unpack_rr_section p offset (unat ancount)) (\<lambda>(answers, next).
       rbind (unpack_rr_section p next (unat nscount)) (\<lambda>(authorities, next).
       rbind (unpack_rr_section p next (unat arcount)) (\<lambda>(additionals, next).
         if next \<noteq> length p then Err TrailingBytes
         else Ok \<lparr>m_header = header_from_wire ident bits, m_compress = False,
                  m_questions = questions, m_answers = answers,
                  m_authorities = authorities, m_additionals = additionals\<rparr>)))))))))))"

definition u16_try_from :: "nat \<Rightarrow> (MsgError, u16) res" where
  "u16_try_from n = (if n \<le> 65535 then Ok (of_nat n) else Err InvalidRecord)"

fun pack_questions :: "Question list \<Rightarrow> packet \<Rightarrow> (MsgError, packet) res" where
  "pack_questions [] out = Ok out"
| "pack_questions (q # qs) out =
    rbind (name_pack_into (q_name q) out) (\<lambda>out.
      pack_questions qs (out @ u16_be (rr_to_u16 (q_qtype q)) @ u16_be (q_qclass q)))"

definition pack_rr :: "ResourceRecord \<Rightarrow> packet \<Rightarrow> (MsgError, packet) res" where
  "pack_rr rr out =
    (if length (rr_rdata rr) > 65535 then Err RdataTooLong
     else rbind (name_pack_into (rr_name rr) out) (\<lambda>out.
       Ok (out @ u16_be (rr_to_u16 (rr_rr_type rr)) @ u16_be (rr_rr_class rr) @ u32_be (rr_ttl rr)
           @ u16_be (of_nat (length (rr_rdata rr))) @ rr_rdata rr)))"

fun pack_rrs :: "ResourceRecord list \<Rightarrow> packet \<Rightarrow> (MsgError, packet) res" where
  "pack_rrs [] out = Ok out"
| "pack_rrs (rr # rrs) out = rbind (pack_rr rr out) (\<lambda>out. pack_rrs rrs out)"

text \<open>The capacity estimate of \<open>Msg::pack\<close> only preallocates and is left out.\<close>

definition msg_pack :: "Msg \<Rightarrow> (MsgError, packet) res" where
  "msg_pack m =
    rbind (u16_try_from (length (m_questions m))) (\<lambda>qdcount.
    rbind (u16_try_from (length (m_answers m))) (\<lambda>ancount.
    rbind (u16_try_from (length (m_authorities m))) (\<lambda>nscount.
    rbind (u16_try_from (length (m_additionals m))) (\<lambda>arcount.
    let out = replicate DNS_HEADER_SIZE 0 in
    rbind (write_u16 out 0 (h_id (m_header m))) (\<lambda>out.
    rbind (write_u16 out 2 (header_to_wire_bits (m_header m))) (\<lambda>out.
    rbind (write_u16 out 4 qdcount) (\<lambda>out.
    rbind (write_u16 out 6 ancount) (\<lambda>out.
    rbind (write_u16 out 8 nscount) (\<lambda>out.
    rbind (write_u16 out 10 arcount) (\<lambda>out.
    rbind (pack_questions (m_questions m) out) (\<lambda>out.
    rbind (pack_rrs (m_answers m) out) (\<lambda>out.
    rbind (pack_rrs (m_authorities m) out) (\<lambda>out.
    pack_rrs (m_additionals m) out)))))))))))))"

subsection \<open>Address records\<close>

definition msg_qtype :: "Msg \<Rightarrow> rr_type option" where
  "msg_qtype m = (case m_questions m of [] \<Rightarrow> None | q # _ \<Rightarrow> Some (q_qtype q))"

definition rr_ip :: "ResourceRecord \<Rightarrow> ip_addr option" where
  "rr_ip rr =
    (if rr_rr_class rr \<noteq> DNS_CLASS_IN then None
     else if rr_rr_type rr = RR_A \<and> length (rr_rdata rr) = 4 then Some (V4 (octets4_of (rr_rdata rr) 0))
     else if rr_rr_type rr = RR_AAAA \<and> length (rr_rdata rr) = 16 then
       Some (V6 (octets4_of (rr_rdata rr) 0) (octets4_of (rr_rdata rr) 4)
                (octets4_of (rr_rdata rr) 8) (octets4_of (rr_rdata rr) 12))
     else None)"

definition msg_answer_ips :: "Msg \<Rightarrow> ip_addr list" where
  "msg_answer_ips m = List.map_filter rr_ip (m_answers m)"

fun rr_matches_ip :: "ip_addr \<Rightarrow> ResourceRecord \<Rightarrow> bool" where
  "rr_matches_ip (V4 q) rr =
    (rr_rr_class rr = DNS_CLASS_IN \<and> rr_rr_type rr = RR_A \<and> length (rr_rdata rr) = 4
     \<and> rr_rdata rr = ip_octets (V4 q))"
| "rr_matches_ip (V6 q r s t) rr =
    (rr_rr_class rr = DNS_CLASS_IN \<and> rr_rr_type rr = RR_AAAA \<and> length (rr_rdata rr) = 16
     \<and> rr_rdata rr = ip_octets (V6 q r s t))"

definition msg_contains_answer_ip :: "Msg \<Rightarrow> ip_addr \<Rightarrow> bool" where
  "msg_contains_answer_ip m target_ip = list_ex (rr_matches_ip target_ip) (m_answers m)"

text \<open>The record type and data length an address of a family replaces.\<close>

fun ip_rr_shape :: "ip_addr \<Rightarrow> rr_type \<times> nat" where
  "ip_rr_shape (V4 _) = (RR_A, 4)"
| "ip_rr_shape (V6 _ _ _ _) = (RR_AAAA, 16)"

definition rr_rewrite_ip :: "ip_addr \<Rightarrow> ResourceRecord \<Rightarrow> ResourceRecord" where
  "rr_rewrite_ip ip rr =
    (if rr_rr_class rr = DNS_CLASS_IN \<and> (rr_rr_type rr, length (rr_rdata rr)) = ip_rr_shape ip
     then rr\<lparr>rr_rdata := ip_octets ip\<rparr> else rr)"

definition msg_rewrite_answer_ips :: "ip_addr \<Rightarrow> Msg \<Rightarrow> Msg" where
  "msg_rewrite_answer_ips selected_ip m = m\<lparr>m_answers := map (rr_rewrite_ip selected_ip) (m_answers m)\<rparr>"

subsection \<open>Operations on packets\<close>

definition validate_packet :: "packet \<Rightarrow> bool" where
  "validate_packet p = is_ok (msg_unpack p)"

definition qtype_from_packet :: "packet \<Rightarrow> ('e, rr_type option) res" where
  "qtype_from_packet p =
    (let qdcount = (if 6 \<le> length p then unat (get_u16 p 4) else 0) in
     if qdcount = 0 then Ok None
     else case name_skip_wire p DNS_HEADER_SIZE of
       Ok offset \<Rightarrow>
         (if length p - offset < 4 then Ok None
          else rbind (read_u16 p offset) (\<lambda>qtype. Ok (Some (rr_from_u16 qtype))))
     | Err _ \<Rightarrow> Ok None
     | Panic \<Rightarrow> Panic)"

definition extract_answer_ips_from_packet :: "packet \<Rightarrow> ip_addr list" where
  "extract_answer_ips_from_packet p = (case msg_unpack p of Ok msg \<Rightarrow> msg_answer_ips msg | _ \<Rightarrow> [])"

definition contains_answer_ip_in_packet :: "packet \<Rightarrow> ip_addr \<Rightarrow> bool" where
  "contains_answer_ip_in_packet p target_ip =
    (case msg_unpack p of Ok msg \<Rightarrow> msg_contains_answer_ip msg target_ip | _ \<Rightarrow> False)"

text \<open>The three loops of \<open>rewrite_answer_ips_in_packet\<close>.\<close>

fun rewrite_skip_questions :: "packet \<Rightarrow> nat \<Rightarrow> nat \<Rightarrow> (MsgError, nat) res" where
  "rewrite_skip_questions p offset 0 = Ok offset"
| "rewrite_skip_questions p offset (Suc n) =
    rbind (name_skip_wire p offset) (\<lambda>offset.
      if length p - offset < 4 then Err ShortPacket
      else rewrite_skip_questions p (offset + 4) n)"

definition answer_rr_head :: "packet \<Rightarrow> nat \<Rightarrow> (MsgError, rr_type \<times> u16 \<times> nat \<times> nat) res" where
  "answer_rr_head p offset =
    rbind (name_skip_wire p offset) (\<lambda>offset.
      if length p - offset < 10 then Err ShortPacket
      else rbind (read_u16 p offset) (\<lambda>rr_type.
        rbind (read_u16 p (offset + 2)) (\<lambda>rr_class.
        rbind (read_u16 p (offset + 8)) (\<lambda>rdlen.
          let rdlen = unat rdlen; rdata_offset = offset + 10 in
          if length p - rdata_offset < rdlen then Err InvalidRecord
          else Ok (rr_from_u16 rr_type, rr_class, rdlen, rdata_offset)))))"

fun rewrite_answers :: "packet \<Rightarrow> nat \<Rightarrow> nat \<Rightarrow> ip_addr \<Rightarrow> packet \<times> (MsgError, nat) res" where
  "rewrite_answers p offset 0 ip = (p, Ok offset)"
| "rewrite_answers p offset (Suc n) ip =
    (case answer_rr_head p offset of
       Ok (rr_type, rr_class, rdlen, rdata_offset) \<Rightarrow>
         (case if rr_class = DNS_CLASS_IN \<and> (rr_type, rdlen) = ip_rr_shape ip
               then overwrite_at p rdata_offset (ip_octets ip) else Ok p of
            Ok p' \<Rightarrow> rewrite_answers p' (rdata_offset + rdlen) n ip
          | Err e \<Rightarrow> (p, Err e)
          | Panic \<Rightarrow> (p, Panic))
     | Err e \<Rightarrow> (p, Err e)
     | Panic \<Rightarrow> (p, Panic))"

fun rewrite_skip_rrs :: "packet \<Rightarrow> nat \<Rightarrow> nat \<Rightarrow> (MsgError, nat) res" where
  "rewrite_skip_rrs p offset 0 = Ok offset"
| "rewrite_skip_rrs p offset (Suc n) =
    rbind (name_skip_wire p offset) (\<lambda>offset.
      if length p - offset < 10 then Err ShortPacket
      else rbind (read_u16 p (offset + 8)) (\<lambda>rdlen.
        let rdlen = unat rdlen; rdata_offset = offset + 10 in
        if length p - rdata_offset < rdlen then Err InvalidRecord
        else rewrite_skip_rrs p (rdata_offset + rdlen) n))"

definition rewrite_answer_ips_in_packet ::
  "packet \<Rightarrow> ip_addr \<Rightarrow> packet \<times> (MsgError, unit) res" where
  "rewrite_answer_ips_in_packet p selected_ip =
    (if length p < DNS_HEADER_SIZE then (p, Err ShortPacket)
     else case rbind (section_counts p) (\<lambda>(qdcount, counts).
            rbind (rewrite_skip_questions p DNS_HEADER_SIZE qdcount) (\<lambda>offset. Ok (counts, offset))) of
       Err e \<Rightarrow> (p, Err e)
     | Panic \<Rightarrow> (p, Panic)
     | Ok ((ancount, nscount, arcount), offset) \<Rightarrow>
         (case rewrite_answers p offset ancount selected_ip of
            (p', Err e) \<Rightarrow> (p', Err e)
          | (p', Panic) \<Rightarrow> (p', Panic)
          | (p', Ok offset) \<Rightarrow>
              (p', rbind (rewrite_skip_rrs p' offset (nscount + arcount)) (\<lambda>offset.
                     if offset \<noteq> length p' then Err TrailingBytes else Ok ()))))"

subsection \<open>Encodings and well-formedness\<close>

definition wf_label :: "packet \<Rightarrow> bool" where
  "wf_label l \<longleftrightarrow> l \<noteq> [] \<and> length l < 64"

definition wf_name :: "Name \<Rightarrow> bool" where
  "wf_name n \<longleftrightarrow> list_all wf_label (labels n) \<and> name_wire_len n \<le> MAX_DOMAIN_NAME_WIRE_OCTETS"

definition wf_header :: "MsgHeader \<Rightarrow> bool" where
  "wf_header h \<longleftrightarrow> h_opcode h < 16 \<and> h_rcode h < 16"

definition wf_question :: "Question \<Rightarrow> bool" where
  "wf_question q \<longleftrightarrow> wf_name (q_name q) \<and> rr_canonical (q_qtype q)"

definition wf_rr :: "ResourceRecord \<Rightarrow> bool" where
  "wf_rr r \<longleftrightarrow> wf_name (rr_name r) \<and> rr_canonical (rr_rr_type r) \<and> length (rr_rdata r) \<le> 65535"

definition wf_msg :: "Msg \<Rightarrow> bool" where
  "wf_msg m \<longleftrightarrow> wf_header (m_header m)
    \<and> list_all wf_question (m_questions m) \<and> length (m_questions m) \<le> 65535
    \<and> list_all wf_rr (m_answers m) \<and> length (m_answers m) \<le> 65535
    \<and> list_all wf_rr (m_authorities m) \<and> length (m_authorities m) \<le> 65535
    \<and> list_all wf_rr (m_additionals m) \<and> length (m_additionals m) \<le> 65535"

text \<open>Addresses of the same family.\<close>

fun same_family :: "ip_addr \<Rightarrow> ip_addr \<Rightarrow> bool" where
  "same_family (V4 _) (V4 _) = True"
| "same_family (V6 _ _ _ _) (V6 _ _ _ _) = True"
| "same_family _ _ = False"

text \<open>A small response, for the concrete instances.\<close>

definition sample_name :: Name where
  "sample_name = \<lparr>labels = [[0x61, 0x62], [0x63]]\<rparr>"

definition sample_msg :: Msg where
  "sample_msg = \<lparr>m_header = header_from_wire 0x1234 0x8180, m_compress = False,
     m_questions = [\<lparr>q_name = sample_name, q_qtype = RR_A, q_qclass = 1\<rparr>],
     m_answers = [\<lparr>rr_name = sample_name, rr_rr_type = RR_A, rr_rr_class = 1, rr_ttl = 300,
                   rr_rdata = [192, 0, 2, 1]\<rparr>],
     m_authorities = [], m_additionals = []\<rparr>"

text \<open>The uncompressed wire form that packing produces.\<close>

definition enc_label :: "packet \<Rightarrow> packet" where
  "enc_label l = of_nat (length l) # l"

definition enc_name :: "Name \<Rightarrow> packet" where
  "enc_name n = concat (map enc_label (labels n)) @ [0]"

definition enc_question :: "Question \<Rightarrow> packet" where
  "enc_question q = enc_name (q_name q) @ u16_be (rr_to_u16 (q_qtype q)) @ u16_be (q_qclass q)"

definition enc_rr_head :: "ResourceRecord \<Rightarrow> packet" where
  "enc_rr_head r = u16_be (rr_to_u16 (rr_rr_type r)) @ u16_be (rr_rr_class r) @ u32_be (rr_ttl r)
     @ u16_be (of_nat (length (rr_rdata r)))"

definition enc_rr :: "ResourceRecord \<Rightarrow> packet" where
  "enc_rr r = enc_name (rr_name r) @ enc_rr_head r @ rr_rdata r"

definition enc_questions :: "Question list \<Rightarrow> packet" where
  "enc_questions qs = concat (map enc_question qs)"

definition enc_rrs :: "ResourceRecord list \<Rightarrow> packet" where
  "enc_rrs rs = concat (map enc_rr rs)"

definition enc_header :: "u16 \<Rightarrow> u16 \<Rightarrow> nat \<Rightarrow> nat \<Rightarrow> nat \<Rightarrow> nat \<Rightarrow> packet" where
  "enc_header ident bits qd an ns ar = u16_be ident @ u16_be bits @ u16_be (of_nat qd)
     @ u16_be (of_nat an) @ u16_be (of_nat ns) @ u16_be (of_nat ar)"

definition enc_msg :: "Msg \<Rightarrow> packet" where
  "enc_msg m = enc_header (h_id (m_header m)) (header_to_wire_bits (m_header m))
       (length (m_questions m)) (length (m_answers m)) (length (m_authorities m))
       (length (m_additionals m))
     @ enc_questions (m_questions m) @ enc_rrs (m_answers m) @ enc_rrs (m_authorities m)
     @ enc_rrs (m_additionals m)"

lemma length_enc_label [wire_simps]: "length (enc_label l) = 1 + length l"
  by (simp add: enc_label_def)

lemma length_enc_name [wire_simps]: "length (enc_name n) = name_wire_len n"
  by (simp add: enc_name_def name_wire_len_def length_concat comp_def wire_simps)

lemma length_enc_question [wire_simps]: "length (enc_question q) = name_wire_len (q_name q) + 4"
  by (simp add: enc_question_def wire_simps)

lemma length_enc_rr_head [wire_simps]: "length (enc_rr_head r) = 10"
  by (simp add: enc_rr_head_def)

lemma length_enc_rr [wire_simps]:
  "length (enc_rr r) = name_wire_len (rr_name r) + 10 + length (rr_rdata r)"
  by (simp add: enc_rr_def wire_simps)

lemma length_enc_header [wire_simps]: "length (enc_header i b qd an ns ar) = 12"
  by (simp add: enc_header_def)

lemma enc_lists [simp]:
  "enc_questions [] = []" "enc_questions (q # qs) = enc_question q @ enc_questions qs"
  "enc_rrs [] = []" "enc_rrs (r # rs) = enc_rr r @ enc_rrs rs"
  "enc_rrs (rs @ ts) = enc_rrs rs @ enc_rrs ts"
  by (simp_all add: enc_questions_def enc_rrs_def)

lemma name_wire_len_pos [simp]: "0 < name_wire_len n"
  by (simp add: name_wire_len_def)

subsection \<open>Reading an encoded name\<close>

lemma wf_label_len_byte:
  assumes "wf_label l"
  shows "unat (of_nat (length l) :: byte) = length l"
    and "(of_nat (length l) :: byte) AND 0xC0 = 0"
    and "(of_nat (length l) :: byte) AND 0xC0 \<noteq> 0xC0"
  using assms top_bits_zero_iff [of "of_nat (length l)"] by (auto simp: wf_label_def)

lemma name_loop_label:
  assumes "has_at p cur (enc_label l)" "wf_label l"
    and "wl + (1 + length l) \<le> MAX_DOMAIN_NAME_WIRE_OCTETS"
  shows "name_loop p ls cur cs pf wl
    = name_loop p (ls @ [l]) (cur + (1 + length l)) cs pf (wl + (1 + length l))"
proof -
  have h: "cur < length p" "p ! cur = of_nat (length l)" "has_at p (cur + 1) l"
    using assms(1) by (auto simp: enc_label_def has_at_Cons)
  moreover have "subslice p (cur + 1) (length l) = l" using h(3) by (rule has_at_subslice)
  moreover have "cur + 1 + length l \<le> length p" using h(3) by (rule has_at_bound)
  ultimately show ?thesis
    using wf_label_len_byte [OF assms(2)] assms(2,3)
    by (subst name_loop.simps) (simp add: Let_def wf_label_def subslice_at_def)
qed

lemma name_loop_root:
  "has_at p cur [0] \<Longrightarrow>
   name_loop p ls cur cs pf wl = Ok (\<lparr>labels = ls\<rparr>, unwrap_or cs (cur + 1))"
  by (subst name_loop.simps) (auto simp: has_at_Cons Let_def)

lemma name_loop_enc:
  assumes "has_at p cur (concat (map enc_label ls) @ [0])" "list_all wf_label ls"
    and "wl + sum_list (map (\<lambda>l. 1 + length l) ls) \<le> MAX_DOMAIN_NAME_WIRE_OCTETS"
  shows "name_loop p acc cur cs pf wl = Ok (\<lparr>labels = acc @ ls\<rparr>,
     unwrap_or cs (cur + sum_list (map (\<lambda>l. 1 + length l) ls) + 1))"
  using assms
proof (induction ls arbitrary: acc cur wl)
  case Nil
  then show ?case by (simp add: name_loop_root)
next
  case (Cons l ls)
  then have "name_loop p acc cur cs pf wl
      = name_loop p (acc @ [l]) (cur + (1 + length l)) cs pf (wl + (1 + length l))"
    by (intro name_loop_label) auto
  also have "\<dots> = Ok (\<lparr>labels = (acc @ [l]) @ ls\<rparr>,
      unwrap_or cs (cur + (1 + length l) + sum_list (map (\<lambda>l. 1 + length l) ls) + 1))"
    using Cons.prems by (intro Cons.IH) (auto simp: wire_simps add.assoc)
  finally show ?case by (simp add: add.assoc)
qed

lemma name_from_wire_enc:
  assumes "has_at p off (enc_name n)" "wf_name n"
  shows "name_from_wire p off = Ok (n, off + name_wire_len n)"
  using assms name_loop_enc [of p off "labels n" 1 "[]" None 0]
  by (simp add: name_from_wire_def enc_name_def wf_name_def name_wire_len_def)

subsection \<open>Facts about every successful read\<close>

lemma name_loop_not_Panic [simp]: "name_loop p ls c cs pf wl \<noteq> Panic"
  by (induction p ls c cs pf wl rule: name_loop.induct)
    (subst name_loop.simps, auto simp: Let_def rbind_eq_Panic split: option.splits)

text \<open>
  One unfolding of a successful read, and the induction over its steps: a pointer is followed,
  the root label ends the name, or a label is taken.
\<close>

lemma name_loop_OkE:
  assumes "name_loop p ls c cs pf wl = Ok r"
  obtains (pointer) "c + 1 < length p" "p ! c AND 0xC0 = 0xC0" "pf < MAX_COMPRESSION_POINTERS"
      "pointer_target (p ! c) (p ! (c + 1)) < length p"
      "name_loop p ls (pointer_target (p ! c) (p ! (c + 1))) (Some (unwrap_or cs (c + 2)))
         (pf + 1) wl = Ok r"
    | (root) "c < length p" "p ! c = 0" "r = (\<lparr>labels = ls\<rparr>, unwrap_or cs (c + 1))"
    | (label) "c < length p" "p ! c AND 0xC0 = 0" "0 < unat (p ! c)" "unat (p ! c) < 64"
      "c + (1 + unat (p ! c)) \<le> length p"
      "wl + (1 + unat (p ! c)) \<le> MAX_DOMAIN_NAME_WIRE_OCTETS"
      "name_loop p (ls @ [subslice p (c + 1) (unat (p ! c))]) (c + (1 + unat (p ! c))) cs pf
         (wl + (1 + unat (p ! c))) = Ok r"
proof -
  have cs': "(if cs = None then Some (c + 2) else cs) = Some (unwrap_or cs (c + 2))"
    by (cases cs) auto
  note step = assms [unfolded name_loop.simps [of p ls c cs pf wl] Let_def cs']
  show thesis
  proof (cases "p ! c AND 0xC0 = 0xC0")
    case True
    with step show thesis by (intro pointer) (simp_all split: if_splits)
  next
    case not_ptr: False
    show thesis
    proof (cases "p ! c = 0")
      case True
      with not_ptr step show thesis by (intro root) (simp_all split: if_splits)
    next
      case False
      then have nz: "unat (p ! c) \<noteq> 0" by (metis unsigned_0 unsigned_word_eqI)
      then have "0 < unat (p ! c)" by (rule neq0_conv [THEN iffD1])
      with nz not_ptr step show thesis
        by (intro label) (simp_all del: unat_gt_0 unsigned_eq_0_iff add: top_bits_zero_iff add.assoc split: if_splits)
    qed
  qed
qed

lemma name_loop_Ok_induct [consumes 1, case_names pointer root label]:
  assumes "name_loop p ls c cs pf wl = Ok r"
    and "\<And>ls c cs pf wl. c + 1 < length p \<Longrightarrow> p ! c AND 0xC0 = 0xC0 \<Longrightarrow>
      P ls (pointer_target (p ! c) (p ! (c + 1))) (Some (unwrap_or cs (c + 2))) (pf + 1) wl \<Longrightarrow>
      P ls c cs pf wl"
    and "\<And>ls c cs pf wl. c < length p \<Longrightarrow> p ! c = 0 \<Longrightarrow>
      r = (\<lparr>labels = ls\<rparr>, unwrap_or cs (c + 1)) \<Longrightarrow> P ls c cs pf wl"
    and "\<And>ls c cs pf wl. c < length p \<Longrightarrow> p ! c AND 0xC0 = 0 \<Longrightarrow> 0 < unat (p ! c) \<Longrightarrow>
      unat (p ! c) < 64 \<Longrightarrow> c + (1 + unat (p ! c)) \<le> length p \<Longrightarrow>
      wl + (1 + unat (p ! c)) \<le> MAX_DOMAIN_NAME_WIRE_OCTETS \<Longrightarrow>
      P (ls @ [subslice p (c + 1) (unat (p ! c))]) (c + (1 + unat (p ! c))) cs pf
        (wl + (1 + unat (p ! c))) \<Longrightarrow> P ls c cs pf wl"
  shows "P ls c cs pf wl"
  using assms(1)
proof (induction "(129 - pf) * 257 + (256 - wl)" arbitrary: ls c cs pf wl rule: less_induct)
  case less
  from less.prems show ?case
  proof (cases rule: name_loop_OkE)
    case pointer
    have "(129 - (pf + 1)) * 257 + (256 - wl) < (129 - pf) * 257 + (256 - wl)"
      using pointer(3) by (simp add: MAX_COMPRESSION_POINTERS_def)
    from assms(2) [OF pointer(1,2) less.hyps [OF this pointer(5)]] show ?thesis .
  next
    case root
    then show ?thesis by (rule assms(3))
  next
    case label
    have "(129 - pf) * 257 + (256 - (wl + (1 + unat (p ! c)))) < (129 - pf) * 257 + (256 - wl)"
      using label(3,6) by (simp add: MAX_DOMAIN_NAME_WIRE_OCTETS_def)
    from assms(4) [OF label(1-6) less.hyps [OF this label(7)]] show ?thesis .
  qed
qed

lemma wf_label_subslice [simp]:
  "i + n \<le> length p \<Longrightarrow> 0 < n \<Longrightarrow> n < 64 \<Longrightarrow> wf_label (subslice p i n)"
  using length_subslice [of i n p] by (simp add: wf_label_def flip: length_greater_0_conv)

lemma name_loop_wf:
  assumes "name_loop p ls c cs pf wl = Ok r"
    and "list_all wf_label ls" "wl = 1 + sum_list (map (\<lambda>l. 1 + length l) ls)"
    and "wl \<le> MAX_DOMAIN_NAME_WIRE_OCTETS"
  shows "wf_name (fst r)"
  using assms by (induction rule: name_loop_Ok_induct)
    (auto simp: wf_name_def name_wire_len_def)

lemma name_loop_skip:
  assumes "name_loop p ls c cs pf wl = Ok r"
  shows "case cs of Some n \<Rightarrow> snd r = n | None \<Rightarrow> skip_wire_loop p c = Ok (snd r)"
  using assms
proof (induction rule: name_loop_Ok_induct)
  case (pointer ls c cs pf wl)
  then show ?case
    by (cases cs) (auto simp: skip_wire_loop.simps [of p c])
next
  case (root ls c cs pf wl)
  then show ?case by (cases cs) (auto simp: skip_wire_loop.simps [of p c])
next
  case (label ls c cs pf wl)
  then show ?case by (cases cs) (auto simp: skip_wire_loop.simps [of p c] Let_def)
qed

lemma name_from_wire_not_Panic [simp]: "name_from_wire p off \<noteq> Panic"
  by (simp add: name_from_wire_def)

lemma name_from_wire_wf: "name_from_wire p off = Ok (n, next) \<Longrightarrow> wf_name n"
  using name_loop_wf [of p "[]" off None 0 1 "(n, next)"]
  by (simp add: name_from_wire_def MAX_DOMAIN_NAME_WIRE_OCTETS_def)

lemma name_from_wire_skip:
  "name_from_wire p off = Ok (n, next) \<Longrightarrow> name_skip_wire p off = Ok next"
  using name_loop_skip [of p "[]" off None 0 1 "(n, next)"]
  by (simp add: name_from_wire_def name_skip_wire_def)

lemma skip_wire_loop_bounds: "skip_wire_loop p c = Ok r \<Longrightarrow> c < r \<and> r \<le> length p"
proof (induction p c rule: skip_wire_loop.induct)
  case (1 p c)
  from "1.prems" have c: "c < length p"
    by (subst (asm) skip_wire_loop.simps) (simp split: if_splits)
  show ?case
  proof (cases "p ! c AND 0xC0 = 0 \<and> unat (p ! c) \<noteq> 0")
    case True
    then have "(0::byte) \<noteq> 0xC0" "unat (p ! c) < 64" using top_bits_zero_iff by auto
    with True "1.prems" c have "c + (1 + unat (p ! c)) \<le> length p"
      "skip_wire_loop p (c + (1 + unat (p ! c))) = Ok r"
      by (simp_all add: skip_wire_loop.simps [of p c] Let_def split: if_splits)
    moreover from this have "c + (1 + unat (p ! c)) < r \<and> r \<le> length p"
      using True \<open>unat (p ! c) < 64\<close> c by (intro "1.IH") auto
    ultimately show ?thesis by simp
  next
    case False
    with "1.prems" c show ?thesis
      by (auto simp: skip_wire_loop.simps [of p c] Let_def split: if_splits)
  qed
qed

lemma name_skip_wire_bounds: "name_skip_wire p off = Ok r \<Longrightarrow> off < r \<and> r \<le> length p"
  by (simp add: name_skip_wire_def skip_wire_loop_bounds)

lemma name_from_wire_bounds:
  "name_from_wire p off = Ok (n, next) \<Longrightarrow> off < next \<and> next \<le> length p"
  using name_from_wire_skip name_skip_wire_bounds by blast

lemma skip_wire_loop_not_Panic [simp]: "skip_wire_loop p c \<noteq> Panic"
  by (induction p c rule: skip_wire_loop.induct)
    (subst skip_wire_loop.simps, auto simp: Let_def)

lemma name_skip_wire_not_Panic [simp]: "name_skip_wire p off \<noteq> Panic"
  by (simp add: name_skip_wire_def)

subsection \<open>Header bits\<close>

lemma and_push_bit_nonzero_iff: "(w :: u16) AND push_bit k 1 \<noteq> 0 \<longleftrightarrow> bit w k"
  by (simp add: bit_iff_and_push_bit_not_eq_0)

lemma low_nibble_mask: "(0x0f :: u16) = mask 4"
  by (simp add: mask_eq_exp_minus_1)

lemma bit_set_bit_if: "k < 16 \<Longrightarrow> bit (set_bit_if b k w) n \<longleftrightarrow> bit w n \<or> (b \<and> n = k)"
  by (auto simp: set_bit_if_def bit_simps)

lemma bit_header_to_wire_bits:
  "bit (header_to_wire_bits h) n \<longleftrightarrow>
     (11 \<le> n \<and> n < 15 \<and> bit (h_opcode h) (n - 11)) \<or> (h_response h \<and> n = 15)
     \<or> (h_authoritative h \<and> n = 10) \<or> (h_truncated h \<and> n = 9)
     \<or> (h_recursion_desired h \<and> n = 8) \<or> (h_recursion_available h \<and> n = 7)
     \<or> (h_zero h \<and> n = 6) \<or> (h_authenticated_data h \<and> n = 5)
     \<or> (h_checking_disabled h \<and> n = 4) \<or> (n < 4 \<and> bit (h_rcode h) n)"
proof -
  have "bit (push_bit 11 (ucast (h_opcode h) AND mask 4) :: u16) n
      \<longleftrightarrow> 11 \<le> n \<and> n < 15 \<and> bit (h_opcode h) (n - 11)"
    by (auto simp: bit_simps)
  moreover have "bit (ucast (h_rcode h) AND mask 4 :: u16) n \<longleftrightarrow> n < 4 \<and> bit (h_rcode h) n"
    by (auto simp: bit_simps)
  ultimately show ?thesis
    unfolding header_to_wire_bits_def Let_def low_nibble_mask
    by (simp add: bit_or_iff bit_set_bit_if disj_assoc del: bit_push_bit_iff)
qed

lemma bit_header_from_wire:
  "bit (h_opcode (header_from_wire i bits)) k \<longleftrightarrow> k < 4 \<and> bit bits (11 + k)"
  "bit (h_rcode (header_from_wire i bits)) k \<longleftrightarrow> k < 4 \<and> bit bits k"
  unfolding header_from_wire_def low_nibble_mask by (auto simp: bit_simps)

lemma header_from_wire_flags:
  "h_id (header_from_wire i bits) = i"
  "h_response (header_from_wire i bits) = bit bits 15"
  "h_authoritative (header_from_wire i bits) = bit bits 10"
  "h_truncated (header_from_wire i bits) = bit bits 9"
  "h_recursion_desired (header_from_wire i bits) = bit bits 8"
  "h_recursion_available (header_from_wire i bits) = bit bits 7"
  "h_zero (header_from_wire i bits) = bit bits 6"
  "h_authenticated_data (header_from_wire i bits) = bit bits 5"
  "h_checking_disabled (header_from_wire i bits) = bit bits 4"
  unfolding header_from_wire_def by (simp_all only: MsgHeader.simps and_push_bit_nonzero_iff)

lemma header_bits_roundtrip [simp]: "header_to_wire_bits (header_from_wire ident bits) = bits"
proof (rule bit_word_eqI)
  fix n assume n: "n < LENGTH(16)"
  then have cases: "n < 4 \<or> (11 \<le> n \<and> n < 15) \<or> n = 15 \<or> n = 10 \<or> n = 9 \<or> n = 7
      \<or> n = 8 \<or> n = 6 \<or> n = 4 \<or> n = 5" by simp arith
  show "bit (header_to_wire_bits (header_from_wire ident bits)) n = bit bits n"
    unfolding bit_header_to_wire_bits bit_header_from_wire header_from_wire_flags
    using cases by (elim disjE) auto
qed

lemma header_wire_roundtrip:
  assumes "wf_header h"
  shows "header_from_wire (h_id h) (header_to_wire_bits h) = h"
proof -
  have "h_opcode (header_from_wire (h_id h) (header_to_wire_bits h)) = h_opcode h"
    "h_rcode (header_from_wire (h_id h) (header_to_wire_bits h)) = h_rcode h"
    using assms
    by (auto intro!: bit_word_eqI simp: bit_header_from_wire bit_header_to_wire_bits
        wf_header_def byte_less_16_iff)
  then show ?thesis
    by (intro MsgHeader.equality) (simp_all add: header_from_wire_flags bit_header_to_wire_bits)
qed

lemma wf_header_from_wire [simp]: "wf_header (header_from_wire i bits)"
  by (auto simp: wf_header_def byte_less_16_iff bit_header_from_wire)

subsection \<open>Reading encoded sections\<close>

lemma enc_question_fields:
  assumes "has_at p off (enc_question q)"
  defines "nx \<equiv> off + name_wire_len (q_name q)"
  shows "has_at p off (enc_name (q_name q))" "nx + 4 \<le> length p"
    "get_u16 p nx = rr_to_u16 (q_qtype q)" "get_u16 p (nx + 2) = q_qclass q"
  using assms by (auto simp: enc_question_def wire_simps has_at_u16)

lemma enc_rr_fields:
  assumes "has_at p off (enc_rr r)"
  defines "nx \<equiv> off + name_wire_len (rr_name r)"
  shows "has_at p off (enc_name (rr_name r))" "nx + 10 + length (rr_rdata r) \<le> length p"
    "get_u16 p nx = rr_to_u16 (rr_rr_type r)" "get_u16 p (nx + 2) = rr_rr_class r"
    "get_u32 p (nx + 4) = rr_ttl r" "get_u16 p (nx + 8) = of_nat (length (rr_rdata r))"
    "subslice p (nx + 10) (length (rr_rdata r)) = rr_rdata r"
    "\<not> length p - nx < 10" "\<not> length p - (nx + 10) < length (rr_rdata r)"
proof -
  have h: "has_at p off (enc_name (rr_name r))" "has_at p nx (u16_be (rr_to_u16 (rr_rr_type r)))"
    "has_at p (nx + 2) (u16_be (rr_rr_class r))" "has_at p (nx + 4) (u32_be (rr_ttl r))"
    "has_at p (nx + 8) (u16_be (of_nat (length (rr_rdata r))))" "has_at p (nx + 10) (rr_rdata r)"
    using assms(1) by (simp_all add: nx_def enc_rr_def enc_rr_head_def wire_simps add.assoc)
  from h(1) show "has_at p off (enc_name (rr_name r))" .
  from has_at_bound [OF h(6)] show "nx + 10 + length (rr_rdata r) \<le> length p"
    "\<not> length p - nx < 10" "\<not> length p - (nx + 10) < length (rr_rdata r)" by simp_all
  from h(2,3,5) show "get_u16 p nx = rr_to_u16 (rr_rr_type r)" "get_u16 p (nx + 2) = rr_rr_class r"
    "get_u16 p (nx + 8) = of_nat (length (rr_rdata r))" by (simp_all add: has_at_u16)
  from has_at_u32 [OF h(4)] show "get_u32 p (nx + 4) = rr_ttl r" by simp
  from has_at_subslice [OF h(6)] show "subslice p (nx + 10) (length (rr_rdata r)) = rr_rdata r" .
qed

lemma wf_rr_rdlen [simp]: "wf_rr r \<Longrightarrow> unat (of_nat (length (rr_rdata r)) :: u16) = length (rr_rdata r)"
  by (simp add: wf_rr_def)

subsection \<open>Interfaces of the name readers\<close>

text \<open>
  The source has five readers of wire names. A client that only walks over names relies on where
  the reader stops; a client that decodes relies on the value too. The two interfaces state this
  for uncompressed names, and the lemmas give a walker the fields of the entry behind the name.
\<close>

locale name_skipper =
  fixes skip :: "packet \<Rightarrow> nat \<Rightarrow> ('e, nat) res"
  assumes skip_enc: "has_at p off (enc_name n) \<Longrightarrow> wf_name n \<Longrightarrow>
    off + name_wire_len n < length p \<Longrightarrow> skip p off = Ok (off + name_wire_len n)"
begin

lemma skip_question:
  assumes "has_at p off (enc_question q)" "wf_question q"
  shows "skip p off = Ok (off + name_wire_len (q_name q))"
  using assms enc_question_fields(1,2) [OF assms(1)]
  by (intro skip_enc) (auto simp: wf_question_def)

lemma skip_rr:
  assumes "has_at p off (enc_rr r)" "wf_rr r"
  shows "skip p off = Ok (off + name_wire_len (rr_name r))"
  using assms enc_rr_fields(1,2) [OF assms(1)] by (intro skip_enc) (auto simp: wf_rr_def)

end

locale name_reader =
  fixes rd :: "packet \<Rightarrow> nat \<Rightarrow> ('e, 'v \<times> nat) res"
    and view :: "Name \<Rightarrow> 'v"
  assumes rd_enc: "has_at p off (enc_name n) \<Longrightarrow> wf_name n \<Longrightarrow>
    rd p off = Ok (view n, off + name_wire_len n)"
begin

lemma rd_question:
  assumes "has_at p off (enc_question q)" "wf_question q"
  shows "rd p off = Ok (view (q_name q), off + name_wire_len (q_name q))"
  using assms enc_question_fields(1) [OF assms(1)] by (intro rd_enc) (auto simp: wf_question_def)

lemma rd_rr:
  assumes "has_at p off (enc_rr r)" "wf_rr r"
  shows "rd p off = Ok (view (rr_name r), off + name_wire_len (rr_name r))"
  using assms enc_rr_fields(1) [OF assms(1)] by (intro rd_enc) (auto simp: wf_rr_def)

end

sublocale name_reader \<subseteq> stop: name_skipper "\<lambda>p off. rbind (rd p off) (\<lambda>(v, next). Ok next)"
  by unfold_locales (simp add: rd_enc)

interpretation from_wire: name_reader name_from_wire "\<lambda>n. n"
  by unfold_locales (rule name_from_wire_enc)

interpretation skip_wire: name_skipper name_skip_wire
  by unfold_locales (blast intro: name_from_wire_skip name_from_wire_enc)

lemma unpack_questions_enc:
  "has_at p off (enc_questions qs) \<Longrightarrow> list_all wf_question qs \<Longrightarrow>
   unpack_questions p off (length qs) = Ok (qs, off + length (enc_questions qs))"
proof (induction qs arbitrary: off)
  case (Cons q qs)
  then have "unpack_questions p (off + length (enc_question q)) (length qs)
      = Ok (qs, off + length (enc_question q) + length (enc_questions qs))"
    by simp
  then show ?case
    using Cons.prems enc_question_fields [of p off q] from_wire.rd_question [of p off q]
    by (simp add: wf_question_def wire_simps add.assoc)
qed simp

lemma unpack_rr_section_enc:
  "has_at p off (enc_rrs rs) \<Longrightarrow> list_all wf_rr rs \<Longrightarrow>
   unpack_rr_section p off (length rs) = Ok (rs, off + length (enc_rrs rs))"
proof (induction rs arbitrary: off)
  case (Cons r rs)
  then have "unpack_rr_section p (off + length (enc_rr r)) (length rs)
      = Ok (rs, off + length (enc_rr r) + length (enc_rrs rs))"
    by simp
  then show ?case
    using Cons.prems enc_rr_fields [of p off r] from_wire.rd_rr [of p off r]
    by (simp add: wf_rr_def wire_simps add.assoc Let_def)
qed simp

subsection \<open>Packing produces the encoding\<close>

lemma pack_labels_enc:
  "list_all wf_label ls \<Longrightarrow> pack_labels ls out = Ok (out @ concat (map enc_label ls))"
  by (induction ls arbitrary: out) (auto simp: wf_label_def enc_label_def)

lemma name_pack_into_enc: "wf_name n \<Longrightarrow> name_pack_into n out = Ok (out @ enc_name n)"
  by (simp add: name_pack_into_def wf_name_def pack_labels_enc enc_name_def)

lemma pack_questions_enc:
  "list_all wf_question qs \<Longrightarrow> pack_questions qs out = Ok (out @ enc_questions qs)"
  by (induction qs arbitrary: out) (auto simp: wf_question_def name_pack_into_enc enc_question_def)

lemma pack_rrs_enc: "list_all wf_rr rs \<Longrightarrow> pack_rrs rs out = Ok (out @ enc_rrs rs)"
  by (induction rs arbitrary: out)
    (auto simp: wf_rr_def pack_rr_def name_pack_into_enc enc_rr_def enc_rr_head_def)

lemma msg_pack_enc:
  assumes "wf_msg m"
  shows "msg_pack m = Ok (enc_msg m)"
proof -
  have "overwrite (overwrite (overwrite (overwrite (overwrite (overwrite (replicate 12 0)
      0 (u16_be a)) 2 (u16_be b)) 4 (u16_be c)) 6 (u16_be d)) 8 (u16_be e)) 10 (u16_be f)
      = u16_be a @ u16_be b @ u16_be c @ u16_be d @ u16_be e @ u16_be f" for a b c d e f
    by (simp add: overwrite_def u16_be_def numeral_eq_Suc)
  then show ?thesis
    using assms
    by (simp add: msg_pack_def enc_msg_def enc_header_def wf_msg_def u16_try_from_def DNS_HEADER_SIZE_def
        pack_questions_enc pack_rrs_enc Let_def)
qed

lemma enc_msg_sections:
  assumes "wf_msg m"
  defines "p \<equiv> enc_msg m"
  defines "oa \<equiv> 12 + length (enc_questions (m_questions m))"
  defines "on \<equiv> oa + length (enc_rrs (m_answers m))"
  defines "od \<equiv> on + length (enc_rrs (m_authorities m))"
  shows "12 \<le> length p" "get_u16 p 0 = h_id (m_header m)"
    "get_u16 p 2 = header_to_wire_bits (m_header m)"
    "unat (get_u16 p 4) = length (m_questions m)" "unat (get_u16 p 6) = length (m_answers m)"
    "unat (get_u16 p 8) = length (m_authorities m)" "unat (get_u16 p 10) = length (m_additionals m)"
    "has_at p 12 (enc_questions (m_questions m))" "has_at p oa (enc_rrs (m_answers m))"
    "has_at p on (enc_rrs (m_authorities m))" "has_at p od (enc_rrs (m_additionals m))"
    "length p = od + length (enc_rrs (m_additionals m))"
proof -
  have "has_at p 0 p" by (simp add: has_at_def)
  then have h: "has_at p 0 (enc_msg m)" by (simp add: p_def)
  show "12 \<le> length p" by (simp add: p_def enc_msg_def wire_simps)
  from h show "get_u16 p 0 = h_id (m_header m)" "get_u16 p 2 = header_to_wire_bits (m_header m)"
    by (simp_all add: enc_msg_def enc_header_def has_at_u16)
  from h assms(1) show "unat (get_u16 p 4) = length (m_questions m)"
    "unat (get_u16 p 6) = length (m_answers m)" "unat (get_u16 p 8) = length (m_authorities m)"
    "unat (get_u16 p 10) = length (m_additionals m)"
    by (simp_all add: enc_msg_def enc_header_def has_at_u16 wf_msg_def)
  from h show "has_at p 12 (enc_questions (m_questions m))" "has_at p oa (enc_rrs (m_answers m))"
    "has_at p on (enc_rrs (m_authorities m))" "has_at p od (enc_rrs (m_additionals m))"
    by (simp_all add: enc_msg_def wire_simps oa_def on_def od_def)
  show "length p = od + length (enc_rrs (m_additionals m))"
    by (simp add: p_def enc_msg_def wire_simps oa_def on_def od_def)
qed

lemma msg_unpack_enc:
  assumes "wf_msg m"
  shows "msg_unpack (enc_msg m) = Ok (m\<lparr>m_compress := False\<rparr>)"
proof -
  note s = enc_msg_sections [OF assms]
  have "header_from_wire (h_id (m_header m)) (header_to_wire_bits (m_header m)) = m_header m"
    using assms by (simp add: wf_msg_def header_wire_roundtrip)
  then show ?thesis
    using assms s(1-7,12)
      unpack_questions_enc [OF s(8)] unpack_rr_section_enc [OF s(9)]
      unpack_rr_section_enc [OF s(10)] unpack_rr_section_enc [OF s(11)]
    by (simp add: msg_unpack_def DNS_HEADER_SIZE_def wf_msg_def)
qed

subsection \<open>Unpacking yields well-formed messages and never panics\<close>

lemma unpack_questions_wf:
  "unpack_questions p off n = Ok (qs, off') \<Longrightarrow> list_all wf_question qs \<and> length qs = n"
  by (induction p off n arbitrary: qs off' rule: unpack_questions.induct)
    (auto simp: wf_question_def dest: name_from_wire_wf split: prod.splits if_splits)

lemma rdata_length_bound [simp]: "length (subslice p i (unat (w :: u16))) \<le> 65535"
  using unat_u16_le [of w] by (auto simp: subslice_def min_def simp del: unat_u16_le)

lemma unpack_rr_section_wf:
  "unpack_rr_section p off n = Ok (rs, off') \<Longrightarrow> list_all wf_rr rs \<and> length rs = n"
  by (induction p off n arbitrary: rs off' rule: unpack_rr_section.induct)
    (auto simp: wf_rr_def Let_def intro: name_from_wire_wf split: prod.splits if_splits)

lemma unpack_questions_not_Panic [simp]: "unpack_questions p off n \<noteq> Panic"
  by (induction p off n rule: unpack_questions.induct)
    (auto simp: rbind_eq_Panic split: prod.splits)

lemma unpack_rr_section_not_Panic [simp]: "unpack_rr_section p off n \<noteq> Panic"
  by (induction p off n rule: unpack_rr_section.induct)
    (auto simp: rbind_eq_Panic Let_def split: prod.splits)

lemma msg_unpack_not_Panic: "msg_unpack p \<noteq> Panic"
  by (auto simp: msg_unpack_def rbind_eq_Panic DNS_HEADER_SIZE_def split: prod.splits if_splits)

lemma msg_unpack_wf:
  assumes "msg_unpack p = Ok m"
  shows "wf_msg m"
  using assms
  by (auto simp: msg_unpack_def wf_msg_def split: prod.splits if_splits
      dest!: unpack_questions_wf unpack_rr_section_wf)

subsection \<open>Address rewriting in place\<close>

lemma rewrite_skip_questions_enc:
  "has_at p off (enc_questions qs) \<Longrightarrow> list_all wf_question qs \<Longrightarrow>
   rewrite_skip_questions p off (length qs) = Ok (off + length (enc_questions qs))"
proof (induction qs arbitrary: off)
  case (Cons q qs)
  then have "rewrite_skip_questions p (off + length (enc_question q)) (length qs)
      = Ok (off + length (enc_question q) + length (enc_questions qs))"
    by simp
  then show ?case
    using Cons.prems enc_question_fields [of p off q] skip_wire.skip_question [of p off q]
    by (simp add: wf_question_def wire_simps add.assoc)
qed simp

lemma rewrite_skip_rrs_enc:
  "has_at p off (enc_rrs rs) \<Longrightarrow> list_all wf_rr rs \<Longrightarrow>
   rewrite_skip_rrs p off (length rs) = Ok (off + length (enc_rrs rs))"
proof (induction rs arbitrary: off)
  case (Cons r rs)
  then have "rewrite_skip_rrs p (off + length (enc_rr r)) (length rs)
      = Ok (off + length (enc_rr r) + length (enc_rrs rs))"
    by simp
  then show ?case
    using Cons.prems enc_rr_fields [of p off r] skip_wire.skip_rr [of p off r]
    by (simp add: wf_rr_def wire_simps add.assoc Let_def)
qed simp

lemma length_octets4_list [simp]: "length (octets4_list q) = 4"
  by (cases q) simp

lemma ip_octets_length: "(t, n) = ip_rr_shape ip \<Longrightarrow> length (ip_octets ip) = n"
  by (cases ip) auto

lemma wf_rr_rewrite_ip [simp]: "wf_rr r \<Longrightarrow> wf_rr (rr_rewrite_ip ip r)"
  by (auto simp: rr_rewrite_ip_def wf_rr_def dest: ip_octets_length)

lemma enc_rr_rewrite_ip:
  "enc_rr (rr_rewrite_ip ip r) = enc_name (rr_name r) @ enc_rr_head r @ rr_rdata (rr_rewrite_ip ip r)"
  "length (rr_rdata (rr_rewrite_ip ip r)) = length (rr_rdata r)"
  by (auto simp: rr_rewrite_ip_def enc_rr_def enc_rr_head_def dest: ip_octets_length)

lemma rewrite_answers_enc:
  "list_all wf_rr rs \<Longrightarrow>
   rewrite_answers (pre @ enc_rrs rs @ suf) (length pre) (length rs) ip
     = (pre @ enc_rrs (map (rr_rewrite_ip ip) rs) @ suf, Ok (length pre + length (enc_rrs rs)))"
proof (induction rs arbitrary: pre)
  case (Cons r rs)
  let ?p = "pre @ enc_rr r @ enc_rrs rs @ suf"
  let ?nx = "length pre + name_wire_len (rr_name r)"
  let ?r' = "rr_rewrite_ip ip r"
  have wf: "wf_rr r" "wf_name (rr_name r)" "rr_canonical (rr_rr_type r)"
    using Cons.prems by (auto simp: wf_rr_def)
  note f = enc_rr_fields [of ?p "length pre" r, simplified has_at_prefix]
  have sk: "name_skip_wire ?p (length pre) = Ok ?nx"
    using wf(1) by (intro skip_wire.skip_rr) simp_all
  have ov: "overwrite ?p (?nx + 10) bs
      = (pre @ enc_name (rr_name r) @ enc_rr_head r) @ bs @ enc_rrs rs @ suf"
    if "length bs = length (rr_rdata r)" for bs
    using that overwrite_append [of "pre @ enc_name (rr_name r) @ enc_rr_head r" "?nx + 10" "rr_rdata r" bs
      "enc_rrs rs @ suf"] by (simp add: enc_rr_def wire_simps)
  have rd: "rr_rdata ?r' = (if rr_rr_class r = DNS_CLASS_IN
      \<and> (rr_rr_type r, length (rr_rdata r)) = ip_rr_shape ip then ip_octets ip else rr_rdata r)"
    by (simp add: rr_rewrite_ip_def)
  have p': "(if rr_rr_class r = DNS_CLASS_IN \<and> (rr_rr_type r, length (rr_rdata r)) = ip_rr_shape ip
      then overwrite_at ?p (?nx + 10) (ip_octets ip) else Ok ?p)
      = Ok ((pre @ enc_rr ?r') @ enc_rrs rs @ suf)"
    using ov [of "ip_octets ip"] ip_octets_length [of "rr_rr_type r" "length (rr_rdata r)" ip]
    unfolding enc_rr_rewrite_ip(1) rd by (auto simp: enc_rr_def wire_simps)
  have len: "length (pre @ enc_rr ?r') = ?nx + 10 + length (rr_rdata r)"
    by (simp add: enc_rr_rewrite_ip wire_simps)
  have h: "answer_rr_head ?p (length pre) = Ok (rr_rr_type r, rr_rr_class r, length (rr_rdata r), ?nx + 10)"
    using sk f(2-9) wf by (simp add: Let_def answer_rr_head_def)
  have "rewrite_answers ?p (length pre) (Suc (length rs)) ip
      = rewrite_answers ((pre @ enc_rr ?r') @ enc_rrs rs @ suf) (length (pre @ enc_rr ?r')) (length rs) ip"
    unfolding len by (simp only: rewrite_answers.simps h res.case prod.case p')
  also have "\<dots> = ((pre @ enc_rr ?r') @ enc_rrs (map (rr_rewrite_ip ip) rs) @ suf,
      Ok (length (pre @ enc_rr ?r') + length (enc_rrs rs)))"
    using Cons by (intro Cons.IH) simp
  finally show ?case using len by (simp add: wire_simps)
qed simp

lemma enc_msg_rewrite:
  "enc_msg (msg_rewrite_answer_ips ip m) = enc_header (h_id (m_header m))
      (header_to_wire_bits (m_header m)) (length (m_questions m)) (length (m_answers m))
      (length (m_authorities m)) (length (m_additionals m))
    @ enc_questions (m_questions m) @ enc_rrs (map (rr_rewrite_ip ip) (m_answers m))
    @ enc_rrs (m_authorities m) @ enc_rrs (m_additionals m)"
  by (simp add: enc_msg_def msg_rewrite_answer_ips_def)

lemma length_enc_rrs_rewrite [simp]:
  "length (enc_rrs (map (rr_rewrite_ip ip) rs)) = length (enc_rrs rs)"
  by (induction rs) (simp_all add: enc_rr_rewrite_ip wire_simps)

lemma wf_msg_rewrite [simp]: "wf_msg m \<Longrightarrow> wf_msg (msg_rewrite_answer_ips ip m)"
  by (auto simp: wf_msg_def msg_rewrite_answer_ips_def list_all_iff)

lemma rewrite_answer_ips_enc:
  assumes "wf_msg m"
  shows "rewrite_answer_ips_in_packet (enc_msg m) ip
    = (enc_msg (msg_rewrite_answer_ips ip m), Ok ())"
proof -
  let ?m' = "msg_rewrite_answer_ips ip m"
  let ?pre = "enc_header (h_id (m_header m)) (header_to_wire_bits (m_header m))
      (length (m_questions m)) (length (m_answers m)) (length (m_authorities m))
      (length (m_additionals m)) @ enc_questions (m_questions m)"
  let ?suf = "enc_rrs (m_authorities m) @ enc_rrs (m_additionals m)"
  note s = enc_msg_sections [OF assms]
  note s' = enc_msg_sections [OF wf_msg_rewrite [OF assms], of ip]
  have wf: "list_all wf_question (m_questions m)" "list_all wf_rr (m_answers m)"
    "list_all wf_rr (m_authorities m @ m_additionals m)"
    using assms by (auto simp: wf_msg_def)
  have "rewrite_answers (?pre @ enc_rrs (m_answers m) @ ?suf) (length ?pre) (length (m_answers m)) ip
      = (?pre @ enc_rrs (map (rr_rewrite_ip ip) (m_answers m)) @ ?suf,
         Ok (length ?pre + length (enc_rrs (m_answers m))))"
    using wf(2) by (rule rewrite_answers_enc)
  then have ans: "rewrite_answers (enc_msg m) (12 + length (enc_questions (m_questions m)))
      (length (m_answers m)) ip = (enc_msg ?m', Ok (12 + length (enc_questions (m_questions m))
        + length (enc_rrs (m_answers m))))"
    by (simp add: enc_msg_def [of m] enc_msg_rewrite wire_simps)
  have rest: "rewrite_skip_rrs (enc_msg ?m') (12 + length (enc_questions (m_questions m))
        + length (enc_rrs (m_answers m))) (length (m_authorities m @ m_additionals m))
      = Ok (length (enc_msg ?m'))"
    using s'(10,11,12) wf(3)
    by (subst rewrite_skip_rrs_enc) (simp_all add: msg_rewrite_answer_ips_def add.assoc)
  show ?thesis
    using rewrite_skip_questions_enc [OF s(8) wf(1)] ans rest s(1,4-7)
    by (simp add: rewrite_answer_ips_in_packet_def DNS_HEADER_SIZE_def)
qed

subsection \<open>Addresses of records; safety of the rewriting loops\<close>

lemma wf_sample_msg: "wf_msg sample_msg"
  by (simp add: wf_msg_def sample_msg_def wf_question_def wf_rr_def wf_name_def sample_name_def
      wf_label_def name_wire_len_def MAX_DOMAIN_NAME_WIRE_OCTETS_def)

lemma rewrite_skip_not_Panic [simp]:
  "rewrite_skip_questions p off n \<noteq> Panic" "rewrite_skip_rrs p off n \<noteq> Panic"
proof -
  show "rewrite_skip_questions p off n \<noteq> Panic"
    by (induction p off n rule: rewrite_skip_questions.induct) (auto simp: rbind_eq_Panic)
  show "rewrite_skip_rrs p off n \<noteq> Panic"
    by (induction p off n rule: rewrite_skip_rrs.induct) (auto simp: rbind_eq_Panic Let_def)
qed

lemma octets4_list_conv: "octets4_list (octets4_of bs i) = [bs ! i, bs ! (i + 1), bs ! (i + 2), bs ! (i + 3)]"
  by (simp add: octets4_of_def)

lemma octets4_of_list:
  "length a = i \<Longrightarrow> octets4_of (a @ octets4_list q @ bs) i = q"
  by (cases q) (auto simp: octets4_of_def nth_append)

lemma list4_eq: "length bs = 4 \<Longrightarrow> bs = [bs ! 0, bs ! 1, bs ! 2, bs ! 3]"
  by (rule nth_equalityI) (auto simp: less_Suc_eq numeral_eq_Suc)

lemma list16_eq: "length bs = 16 \<Longrightarrow> bs = [bs ! 0, bs ! 1, bs ! 2, bs ! 3, bs ! 4, bs ! 5, bs ! 6, bs ! 7,
   bs ! 8, bs ! 9, bs ! 10, bs ! 11, bs ! 12, bs ! 13, bs ! 14, bs ! 15]"
  by (rule nth_equalityI) (auto simp: less_Suc_eq numeral_eq_Suc)

lemma ip_octets_of_A: "length bs = 4 \<Longrightarrow> ip_octets (V4 (octets4_of bs 0)) = bs"
  using list4_eq [of bs] by (simp add: octets4_list_conv)

lemma ip_octets_of_AAAA: "length bs = 16 \<Longrightarrow> ip_octets (V6 (octets4_of bs 0) (octets4_of bs 4)
    (octets4_of bs 8) (octets4_of bs 12)) = bs"
  using list16_eq [of bs] by (simp add: octets4_list_conv)

lemma octets4_of_ip_octets:
  "octets4_of (ip_octets (V4 q)) 0 = q"
  "octets4_of (ip_octets (V6 q r s t)) 0 = q" "octets4_of (ip_octets (V6 q r s t)) 4 = r"
  "octets4_of (ip_octets (V6 q r s t)) 8 = s" "octets4_of (ip_octets (V6 q r s t)) 12 = t"
  using octets4_of_list [of "[]" 0 q "[]"] octets4_of_list [of "[]" 0 q]
    octets4_of_list [of "octets4_list q" 4 r]
    octets4_of_list [of "octets4_list q @ octets4_list r" 8 s]
    octets4_of_list [of "octets4_list q @ octets4_list r @ octets4_list s" 12 t "[]"]
  by simp_all

lemma length_ip_octets: "length (ip_octets (V4 q)) = 4" "length (ip_octets (V6 q r s t)) = 16"
  by simp_all

lemma rr_ip_rewrite:
  "rr_ip (rr_rewrite_ip ip r) = map_option (\<lambda>x. if same_family x ip then ip else x) (rr_ip r)"
  by (cases ip) (auto simp: rr_ip_def rr_rewrite_ip_def octets4_of_ip_octets length_ip_octets
      simp del: ip_octets.simps)

lemma rr_matches_ip_iff: "rr_matches_ip ip r \<longleftrightarrow> rr_ip r = Some ip"
  by (cases ip) (auto simp: rr_ip_def ip_octets_of_A ip_octets_of_AAAA octets4_of_ip_octets simp del: ip_octets.simps)
lemma answer_rr_head_safe:
  "answer_rr_head p off \<noteq> Panic"
  "answer_rr_head p off = Ok (t, c, l, ro) \<Longrightarrow> ro + l \<le> length p"
  by (auto simp: answer_rr_head_def rbind_eq_Panic Let_def split: if_splits)

lemma rewrite_answers_safe:
  "snd (rewrite_answers p off n ip) \<noteq> Panic \<and> length (fst (rewrite_answers p off n ip)) = length p"
proof (induction p off n ip rule: rewrite_answers.induct)
  case (2 p off n ip)
  show ?case
  proof (cases "answer_rr_head p off")
    case (Ok x)
    obtain t c l ro where x: "x = (t, c, l, ro)" by (cases x) auto
    let ?p' = "if c = DNS_CLASS_IN \<and> (t, l) = ip_rr_shape ip then overwrite_at p ro (ip_octets ip) else Ok p :: (MsgError, packet) res"
    have "ro + length (ip_octets ip) \<le> length p" if "(t, l) = ip_rr_shape ip"
      using answer_rr_head_safe(2) [OF Ok [unfolded x]] ip_octets_length [OF that] by simp
    then have "\<exists>p'. ?p' = Ok p' \<and> length p' = length p" by (cases "c = DNS_CLASS_IN \<and> (t, l) = ip_rr_shape ip") simp_all
    then obtain p' where p': "?p' = Ok p'" "length p' = length p" by blast
    with "2.IH" [OF Ok x [symmetric] refl refl p'(1)] Ok x show ?thesis by simp
  next
    case Panic
    then show ?thesis using answer_rr_head_safe(1) by blast
  qed simp
qed simp

lemma unpack_questions_Suc:
  assumes "unpack_questions p off (Suc n) = Ok (qs, off')"
  obtains nm nx qs' where "name_from_wire p off = Ok (nm, nx)" "\<not> length p - nx < 4"
    "qs = \<lparr>q_name = nm, q_qtype = rr_from_u16 (get_u16 p nx), q_qclass = get_u16 p (nx + 2)\<rparr> # qs'"
  using assms by (auto split: prod.splits if_splits)

subsection \<open>Properties of the codec\<close>

text \<open>
  C10 (roundtrip): packing a well-formed message succeeds, and unpacking the packet gives the
  message back (unpacking always clears the compression flag, which is not on the wire).
\<close>

theorem pack_unpack_roundtrip:
  assumes "wf_msg m"
  shows "\<exists>p. msg_pack m = Ok p \<and> msg_unpack p = Ok (m\<lparr>m_compress := False\<rparr>)"
  using msg_pack_enc [OF assms] msg_unpack_enc [OF assms] by blast

theorem pack_unpack_roundtrip_witness:
  "wf_msg sample_msg \<and> (\<exists>p. msg_pack sample_msg = Ok p
     \<and> msg_unpack p = Ok (sample_msg\<lparr>m_compress := False\<rparr>))"
  using wf_sample_msg pack_unpack_roundtrip [OF wf_sample_msg] by simp

text \<open>
  C11 (type): whatever \<open>Msg::unpack\<close> accepts, compressed or not, is a well-formed
  message: label and name lengths are within the limits, types are canonical, and packing it
  again succeeds and decodes to the same message.
\<close>

theorem unpack_accepts_well_formed:
  assumes "msg_unpack p = Ok m"
  shows "wf_msg m \<and> (\<exists>q. msg_pack m = Ok q \<and> msg_unpack q = Ok m)"
proof -
  have "wf_msg m" using assms by (rule msg_unpack_wf)
  moreover have "m\<lparr>m_compress := False\<rparr> = m"
    using assms by (auto simp: msg_unpack_def split: prod.splits if_splits)
  ultimately show ?thesis using msg_pack_enc msg_unpack_enc by metis
qed

theorem unpack_accepts_well_formed_witness:
  "msg_unpack (enc_msg sample_msg) = Ok sample_msg \<and> wf_msg sample_msg"
proof -
  have "msg_unpack (enc_msg sample_msg) = Ok sample_msg"
    using msg_unpack_enc [OF wf_sample_msg] by (simp add: sample_msg_def)
  with unpack_accepts_well_formed [OF this] show ?thesis by simp
qed

lemma qtype_from_packet_not_Panic [simp]: "qtype_from_packet p \<noteq> Panic"
  by (auto simp: qtype_from_packet_def Let_def rbind_eq_Panic split: res.splits)

lemma rewrite_in_packet_safe:
  "snd (rewrite_answer_ips_in_packet p ip) \<noteq> Panic \<and> length (fst (rewrite_answer_ips_in_packet p ip)) = length p"
proof (cases "length p < 12 \<or> \<not> is_ok (rewrite_skip_questions p 12 (unat (get_u16 p 4)))")
  case True
  then show ?thesis
    by (cases "rewrite_skip_questions p 12 (unat (get_u16 p 4))")
      (auto simp: rewrite_answer_ips_in_packet_def DNS_HEADER_SIZE_def is_ok_def)
next
  case False
  then obtain off where off: "rewrite_skip_questions p 12 (unat (get_u16 p 4)) = Ok off" "12 \<le> length p"
    by (auto simp: is_ok_iff)
  obtain p' r where r: "rewrite_answers p off (unat (get_u16 p 6)) ip = (p', r)" by fastforce
  with rewrite_answers_safe [of p off "unat (get_u16 p 6)" ip] have "r \<noteq> Panic" "length p' = length p" by simp_all
  with off r show ?thesis
    by (cases r) (auto simp: rewrite_answer_ips_in_packet_def DNS_HEADER_SIZE_def rbind_eq_Panic)
qed

text \<open>
  C12 (safety): on every byte string, well-formed or not, unpacking, reading the type of the query
  and the in-place rewriting of addresses return without an out-of-range access, and the rewriting
  never changes the length of the packet. Every slice and index of the source that is not a \<open>get\<close> is
  a checked access of the model.
\<close>

theorem codec_never_panics:
  "msg_unpack p \<noteq> Panic \<and> qtype_from_packet p \<noteq> Panic \<and> snd (rewrite_answer_ips_in_packet p ip) \<noteq> Panic
   \<and> length (fst (rewrite_answer_ips_in_packet p ip)) = length p"
  using rewrite_in_packet_safe msg_unpack_not_Panic qtype_from_packet_not_Panic by simp

text \<open>
  C17 (refinement): on the packet of a well-formed message, rewriting the addresses in place
  succeeds and leaves the packet of the message with its addresses rewritten.
\<close>

theorem rewrite_in_packet_refines_rewrite:
  assumes "wf_msg m" "msg_pack m = Ok p"
  shows "\<exists>p'. rewrite_answer_ips_in_packet p ip = (p', Ok ())
    \<and> msg_pack (msg_rewrite_answer_ips ip m) = Ok p'"
  using assms rewrite_answer_ips_enc [OF assms(1), of ip] msg_pack_enc [OF assms(1)]
    msg_pack_enc [OF wf_msg_rewrite [OF assms(1)], of ip] by simp

theorem rewrite_in_packet_refines_rewrite_witness:
  "\<exists>p p'. msg_pack sample_msg = Ok p
    \<and> rewrite_answer_ips_in_packet p (V4 (Octets4 10 0 0 1)) = (p', Ok ())
    \<and> msg_pack (msg_rewrite_answer_ips (V4 (Octets4 10 0 0 1)) sample_msg) = Ok p'"
  using rewrite_in_packet_refines_rewrite [OF wf_sample_msg msg_pack_enc [OF wf_sample_msg]]
    msg_pack_enc [OF wf_sample_msg] by blast

text \<open>
  rewriting replaces exactly the addresses of the selected address's family by
  the selected address, in place and in order; addresses of the other family, and every record
  that carries no address, stay.
\<close>

lemma rewrite_replaces_family:
  "msg_answer_ips (msg_rewrite_answer_ips ip m)
     = map (\<lambda>x. if same_family x ip then ip else x) (msg_answer_ips m)"
proof -
  have "List.map_filter rr_ip (map (rr_rewrite_ip ip) rs)
      = map (\<lambda>x. if same_family x ip then ip else x) (List.map_filter rr_ip rs)" for rs
    by (induction rs) (auto simp: List.map_filter_simps rr_ip_rewrite split: option.splits)
  then show ?thesis by (simp add: msg_answer_ips_def msg_rewrite_answer_ips_def)
qed

text \<open>
  the test whether a packet's answers contain an address agrees with the list
  of addresses extracted from it.
\<close>

lemma contains_iff_extracted:
  "contains_answer_ip_in_packet p ip \<longleftrightarrow> ip \<in> set (extract_answer_ips_from_packet p)"
  by (auto simp: contains_answer_ip_in_packet_def extract_answer_ips_from_packet_def
      msg_contains_answer_ip_def msg_answer_ips_def list_ex_iff rr_matches_ip_iff
      List.map_filter_def split: res.splits) force

text \<open>
  the cheap reader of the query type agrees with full unpacking on every packet
  that unpacks.
\<close>

lemma qtype_from_packet_agrees:
  assumes "msg_unpack p = Ok m"
  shows "qtype_from_packet p = Ok (msg_qtype m)"
proof -
  from assms obtain qs off where q: "unpack_questions p 12 (unat (get_u16 p 4)) = Ok (qs, off)"
    "m_questions m = qs" "12 \<le> length p"
    by (auto simp: msg_unpack_def DNS_HEADER_SIZE_def split: prod.splits if_splits)
  show ?thesis
  proof (cases "unat (get_u16 p 4)")
    case 0
    with q show ?thesis by (simp add: qtype_from_packet_def msg_qtype_def)
  next
    case (Suc n)
    with q(1) obtain nm nx qs' where r: "name_from_wire p 12 = Ok (nm, nx)" "\<not> length p - nx < 4"
      "qs = \<lparr>q_name = nm, q_qtype = rr_from_u16 (get_u16 p nx), q_qclass = get_u16 p (nx + 2)\<rparr> # qs'"
      by (metis unpack_questions_Suc)
    with q Suc name_from_wire_skip [OF r(1)] show ?thesis
      by (simp add: qtype_from_packet_def msg_qtype_def DNS_HEADER_SIZE_def)
  qed
qed

text \<open>
  wherever the decoding reader accepts a name, following any compression
  pointers, the skipping reader stops at the same offset; the offset moves forward, stays in the
  packet, and the name respects the length limits.
\<close>

lemma skip_agrees_with_decode:
  assumes "name_from_wire p off = Ok (n, next)"
  shows "name_skip_wire p off = Ok next \<and> off < next \<and> next \<le> length p \<and> wf_name n"
  using assms name_from_wire_skip name_from_wire_bounds name_from_wire_wf by blast

text \<open>
  the sixteen header bits survive decoding and encoding, and a header whose
  opcode and response code fit in four bits survives encoding and decoding.
\<close>

lemma header_bits_inverse:
  "header_to_wire_bits (header_from_wire i bits) = bits
   \<and> (wf_header h \<longrightarrow> header_from_wire (h_id h) (header_to_wire_bits h) = h)"
  by (simp add: header_wire_roundtrip)

end
