(* ===== verification/Dns.thy ===== *)
theory Dns
  imports Msg
begin

text \<open>
  Operations on raw DNS packets (\<open>src/libdoh/src/dns.rs\<close>): header counters, the name
  skipper and the record traversals, the minimum time to live of a response, the EDNS payload
  size of a query and the EDNS padding of a response.

  The lemmas show that none of them panics on any packet, what each does on every error path that
  leaves a changed packet behind, how the time to live is computed from the records of an
  unpacked response, and that on the packet of a well-formed message the two EDNS operations are
  the corresponding changes of the message.
\<close>

subsection \<open>Constants and errors\<close>

definition DNS_OFFSET_FLAGS :: nat where "DNS_OFFSET_FLAGS = 2"
definition DNS_MAX_HOSTNAME_SIZE :: nat where "DNS_MAX_HOSTNAME_SIZE = 256"
definition DNS_MAX_PACKET_SIZE :: nat where "DNS_MAX_PACKET_SIZE = 4096"
definition DNS_OFFSET_QUESTION :: nat where "DNS_OFFSET_QUESTION = 12"
definition DNS_FLAGS_TC :: u16 where "DNS_FLAGS_TC = push_bit 9 1"
definition DNS_TYPE_OPT :: u16 where "DNS_TYPE_OPT = 41"
definition DNS_PTYPE_PADDING :: u16 where "DNS_PTYPE_PADDING = 12"
definition DNS_RCODE_SERVFAIL :: byte where "DNS_RCODE_SERVFAIL = 2"
definition DNS_RCODE_REFUSED :: byte where "DNS_RCODE_REFUSED = 5"

lemmas dns_consts = DNS_OFFSET_FLAGS_def DNS_MAX_HOSTNAME_SIZE_def DNS_MAX_PACKET_SIZE_def
  DNS_OFFSET_QUESTION_def DNS_TYPE_OPT_def DNS_PTYPE_PADDING_def DNS_HEADER_SIZE_def

text \<open>One constructor per message of the \<open>ensure!\<close> checks.\<close>

datatype dns_error =
    E_ShortPacket | E_IncompleteOffset | E_LongLabel | E_OutOfBoundsName | E_NameTooLong
  | E_RecordTooLong | E_LargePacket | E_NoQuestion | E_Garbage | E_TooManyAdditional
  | E_PacketWouldBeTooLarge | E_DuplicateOpt | E_OutOfRangeEdns | E_EdnsTooLarge
  | E_NoOpt | E_IncompleteRR

subsection \<open>Header fields\<close>

definition rcode :: "packet \<Rightarrow> (dns_error, byte) res" where
  "rcode p = rbind (byte_at p 3) (\<lambda>b. Ok (b AND 0x0f))"

definition qdcount :: "packet \<Rightarrow> (dns_error, u16) res" where
  "qdcount p = read_u16 p 4"

definition ancount :: "packet \<Rightarrow> (dns_error, u16) res" where
  "ancount p = read_u16 p 6"

definition nscount :: "packet \<Rightarrow> (dns_error, u16) res" where
  "nscount p = read_u16 p 8"

definition arcount :: "packet \<Rightarrow> (dns_error, u16) res" where
  "arcount p = read_u16 p 10"

definition arcount_inc :: "packet \<Rightarrow> (dns_error, packet) res" where
  "arcount_inc p =
    rbind (arcount p) (\<lambda>c.
    rbind (ensure (c < 0xffff) E_TooManyAdditional) (\<lambda>_.
    write_u16 p 10 (c + 1)))"

definition is_recoverable_error :: "packet \<Rightarrow> (dns_error, bool) res" where
  "is_recoverable_error p =
    rbind (rcode p) (\<lambda>rc. Ok (rc = DNS_RCODE_SERVFAIL \<or> rc = DNS_RCODE_REFUSED))"

definition is_truncated :: "packet \<Rightarrow> (dns_error, bool) res" where
  "is_truncated p =
    rbind (read_u16 p DNS_OFFSET_FLAGS) (\<lambda>w. Ok (w AND DNS_FLAGS_TC = DNS_FLAGS_TC))"

subsection \<open>Names and records\<close>

function skip_name_loop :: "packet \<Rightarrow> nat \<Rightarrow> nat \<Rightarrow> (dns_error, nat) res" where
  "skip_name_loop p offset qname_len =
    (if offset < length p then
       let label_len = unat (p ! offset) in
       if p ! offset AND 0xc0 = 0xc0 then
         rbind (ensure (length p - offset \<ge> 2) E_IncompleteOffset) (\<lambda>_. Ok (offset + 2))
       else if \<not> label_len < 0x40 then Err E_LongLabel
       else if \<not> length p - offset - 1 > label_len then Err E_OutOfBoundsName
       else
         let qname_len' = qname_len + (label_len + 1) in
         if \<not> qname_len' \<le> DNS_MAX_HOSTNAME_SIZE then Err E_NameTooLong
         else
           let offset' = offset + (label_len + 1) in
           if label_len = 0 then Ok offset' else skip_name_loop p offset' qname_len'
     else Panic)"
  by pat_completeness auto
termination
  by (relation "measure (\<lambda>(p, off, q). length p - off)") auto

declare skip_name_loop.simps [simp del]

definition skip_name :: "packet \<Rightarrow> nat \<Rightarrow> (dns_error, nat) res" where
  "skip_name p offset =
    rbind (usub (length p) 1) (\<lambda>last.
    rbind (ensure (offset < last) E_ShortPacket) (\<lambda>_.
    skip_name_loop p offset 0))"

text \<open>
  The traversals take a callback with captured state: it gets the offset behind the name and the
  state, and may fail. The mutable variant hands it the packet too.
\<close>

fun traverse_rrs ::
  "packet \<Rightarrow> nat \<Rightarrow> nat \<Rightarrow> (nat \<Rightarrow> 's \<Rightarrow> (dns_error, 's) res) \<Rightarrow> 's \<Rightarrow> (dns_error, nat \<times> 's) res"
where
  "traverse_rrs p offset 0 cb s = Ok (offset, s)"
| "traverse_rrs p offset (Suc n) cb s =
    rbind (skip_name p offset) (\<lambda>offset.
    rbind (usub (length p) offset) (\<lambda>left.
    rbind (ensure (left \<ge> 10) E_ShortPacket) (\<lambda>_.
    rbind (cb offset s) (\<lambda>s.
    rbind (read_u16 p (offset + 8)) (\<lambda>rdlen.
    rbind (usub (length p) (offset + 10)) (\<lambda>left.
    rbind (ensure (left \<ge> unat rdlen) E_RecordTooLong) (\<lambda>_.
    traverse_rrs p (offset + 10 + unat rdlen) n cb s)))))))"

fun traverse_rrs_mut ::
  "packet \<Rightarrow> nat \<Rightarrow> nat \<Rightarrow> (packet \<Rightarrow> nat \<Rightarrow> 's \<Rightarrow> packet \<times> (dns_error, 's) res) \<Rightarrow> 's
    \<Rightarrow> packet \<times> (dns_error, nat \<times> 's) res"
where
  "traverse_rrs_mut p offset 0 cb s = (p, Ok (offset, s))"
| "traverse_rrs_mut p offset (Suc n) cb s =
    (case rbind (skip_name p offset) (\<lambda>offset.
          rbind (usub (length p) offset) (\<lambda>left.
          rbind (ensure (left \<ge> 10) E_ShortPacket) (\<lambda>_. Ok offset))) of
       Err e \<Rightarrow> (p, Err e)
     | Panic \<Rightarrow> (p, Panic)
     | Ok offset \<Rightarrow>
         (case cb p offset s of
            (p', Err e) \<Rightarrow> (p', Err e)
          | (p', Panic) \<Rightarrow> (p', Panic)
          | (p', Ok s') \<Rightarrow>
              (case rbind (read_u16 p' (offset + 8)) (\<lambda>rdlen.
                    rbind (usub (length p') (offset + 10)) (\<lambda>left.
                    rbind (ensure (left \<ge> unat rdlen) E_RecordTooLong) (\<lambda>_. Ok (unat rdlen)))) of
                 Err e \<Rightarrow> (p', Err e)
               | Panic \<Rightarrow> (p', Panic)
               | Ok rdlen \<Rightarrow> traverse_rrs_mut p' (offset + 10 + rdlen) n cb s')))"

subsection \<open>The time to live of a response\<close>

text \<open>
  The checks that \<open>min_ttl\<close>, \<open>set_edns_max_payload_size\<close> and \<open>add_edns_padding\<close> start with,
  up to the end of the question's name.
\<close>

definition question_name_end :: "packet \<Rightarrow> (dns_error, nat) res" where
  "question_name_end p =
    rbind (ensure (length p > DNS_OFFSET_QUESTION) E_ShortPacket) (\<lambda>_.
    rbind (ensure (length p \<le> DNS_MAX_PACKET_SIZE) E_LargePacket) (\<lambda>_.
    rbind (qdcount p) (\<lambda>qd.
    rbind (ensure (qd = 1) E_NoQuestion) (\<lambda>_.
    rbind (skip_name p DNS_OFFSET_QUESTION) (\<lambda>offset.
    rbind (assert_that (offset > DNS_OFFSET_QUESTION)) (\<lambda>_. Ok offset))))))"

definition min_ttl_cb :: "packet \<Rightarrow> nat \<Rightarrow> u32 \<Rightarrow> (dns_error, u32) res" where
  "min_ttl_cb p offset found_min_ttl =
    rbind (read_u16 p offset) (\<lambda>qtype.
    rbind (read_u32 p (offset + 4)) (\<lambda>ttl.
    Ok (if qtype \<noteq> DNS_TYPE_OPT \<and> ttl < found_min_ttl then ttl else found_min_ttl)))"

definition min_ttl :: "packet \<Rightarrow> u32 \<Rightarrow> u32 \<Rightarrow> u32 \<Rightarrow> (dns_error, u32) res" where
  "min_ttl p min_ttl_arg max_ttl failure_ttl =
    rbind (question_name_end p) (\<lambda>offset.
    rbind (usub (length p) offset) (\<lambda>left.
    rbind (ensure (left > 4) E_ShortPacket) (\<lambda>_.
    rbind (ancount p) (\<lambda>an. rbind (nscount p) (\<lambda>ns. rbind (arcount p) (\<lambda>ar.
      let rrcount = unat an + unat ns + unat ar;
          found_min_ttl = (if rrcount > 0 then max_ttl else failure_ttl) in
      rbind (traverse_rrs p (offset + 4) rrcount (min_ttl_cb p) found_min_ttl)
        (\<lambda>(offset, found_min_ttl).
          let found_min_ttl = (if found_min_ttl < min_ttl_arg then min_ttl_arg else found_min_ttl) in
          rbind (ensure (length p = offset) E_Garbage) (\<lambda>_. Ok found_min_ttl))))))))"

subsection \<open>EDNS payload size and padding\<close>

definition opt_rr_bytes :: "u16 \<Rightarrow> packet" where
  "opt_rr_bytes max_payload_size =
     [0, ucast (drop_bit 8 DNS_TYPE_OPT), ucast DNS_TYPE_OPT, ucast (drop_bit 8 max_payload_size),
      ucast max_payload_size, 0, 0, 0, 0, 0, 0]"

definition add_edns_section :: "packet \<Rightarrow> u16 \<Rightarrow> packet \<times> (dns_error, unit) res" where
  "add_edns_section p max_payload_size =
    (let opt_rr = opt_rr_bytes max_payload_size in
     case rbind (usub DNS_MAX_PACKET_SIZE (length p)) (\<lambda>left.
          rbind (ensure (left \<ge> length opt_rr) E_PacketWouldBeTooLarge) (\<lambda>_. arcount_inc p)) of
       Ok p' \<Rightarrow> (p' @ opt_rr, Ok ())
     | Err e \<Rightarrow> (p, Err e)
     | Panic \<Rightarrow> (p, Panic))"

definition payload_cb :: "u16 \<Rightarrow> packet \<Rightarrow> nat \<Rightarrow> bool \<Rightarrow> packet \<times> (dns_error, bool) res" where
  "payload_cb max_payload_size p offset edns_payload_set =
    (case read_u16 p offset of
       Ok qtype \<Rightarrow>
         if qtype = DNS_TYPE_OPT then
           if edns_payload_set then (p, Err E_DuplicateOpt)
           else (case write_u16 p (offset + 2) max_payload_size of
                   Ok p' \<Rightarrow> (p', Ok True)
                 | Err e \<Rightarrow> (p, Err e)
                 | Panic \<Rightarrow> (p, Panic))
         else (p, Ok edns_payload_set)
     | Err e \<Rightarrow> (p, Err e)
     | Panic \<Rightarrow> (p, Panic))"

text \<open>Question, answers and authorities are walked over; what follows is the additional section.\<close>

definition additional_start :: "packet \<Rightarrow> (dns_error, nat \<times> nat) res" where
  "additional_start p =
    rbind (question_name_end p) (\<lambda>offset.
    rbind (usub (length p) offset) (\<lambda>left.
    rbind (ensure (left \<ge> 4) E_ShortPacket) (\<lambda>_.
    rbind (ancount p) (\<lambda>an. rbind (nscount p) (\<lambda>ns. rbind (arcount p) (\<lambda>ar.
    rbind (traverse_rrs p (offset + 4) (unat an + unat ns) (\<lambda>_ s. Ok s) ()) (\<lambda>(offset, _).
    Ok (offset, unat ar))))))))"

definition set_edns_max_payload_size :: "packet \<Rightarrow> u16 \<Rightarrow> packet \<times> (dns_error, unit) res" where
  "set_edns_max_payload_size p max_payload_size =
    (case additional_start p of
       Err e \<Rightarrow> (p, Err e)
     | Panic \<Rightarrow> (p, Panic)
     | Ok (offset, ar) \<Rightarrow>
         (case traverse_rrs_mut p offset ar (payload_cb max_payload_size) False of
            (p', Err e) \<Rightarrow> (p', Err e)
          | (p', Panic) \<Rightarrow> (p', Panic)
          | (p', Ok (_, edns_payload_set)) \<Rightarrow>
              if edns_payload_set then (p', Ok ())
              else add_edns_section p' max_payload_size))"

definition BOUNDARIES :: "nat list" where
  "BOUNDARIES =
     [64, 128, 192, 256, 320, 384, 512, 704, 768, 896, 960, 1024, 1088, 1152, 2688, 4080]"

definition padded_len :: "nat \<Rightarrow> nat" where
  "padded_len unpadded_len =
     unwrap_or (List.find (\<lambda>boundary. boundary \<ge> unpadded_len) BOUNDARIES) DNS_MAX_PACKET_SIZE"

definition edns_offset_cb :: "packet \<Rightarrow> nat \<Rightarrow> nat option \<Rightarrow> packet \<times> (dns_error, nat option) res" where
  "edns_offset_cb p offset edns_offset =
    (case read_u16 p offset of
       Ok qtype \<Rightarrow>
         if qtype = DNS_TYPE_OPT then
           (if edns_offset \<noteq> None then (p, Err E_DuplicateOpt) else (p, Ok (Some offset)))
         else (p, Ok edns_offset)
     | Err e \<Rightarrow> (p, Err e)
     | Panic \<Rightarrow> (p, Panic))"

text \<open>The padding option: code, length, and \<open>padding_len\<close> letters X.\<close>

definition edns_padding_prr :: "nat \<Rightarrow> packet" where
  "edns_padding_prr padding_len =
     u16_be DNS_PTYPE_PADDING @ u16_be (of_nat padding_len) @ replicate padding_len 0x58"

text \<open>The second half of \<open>add_edns_padding\<close>, once the offset of the OPT record is known.\<close>

definition pad_at_opt :: "packet \<Rightarrow> nat \<Rightarrow> packet \<times> (dns_error, unit) res" where
  "pad_at_opt p edns_offset =
    (let packet_len = length p in
     case rbind (usub (padded_len packet_len) packet_len) (\<lambda>padding_len.
       let prr = edns_padding_prr padding_len;
           edns_padding_prr_len = length prr;
           edns_rdlen_offset = edns_offset + 8 in
       rbind (usub packet_len edns_rdlen_offset) (\<lambda>left.
       rbind (ensure (left \<ge> 2) E_ShortPacket) (\<lambda>_.
       rbind (read_u16 p edns_rdlen_offset) (\<lambda>edns_rdlen.
       rbind (ensure (edns_offset + unat edns_rdlen \<le> packet_len) E_OutOfRangeEdns) (\<lambda>_.
       rbind (usub 0xffff (unat edns_rdlen)) (\<lambda>left.
       rbind (ensure (left \<ge> edns_padding_prr_len) E_EdnsTooLarge) (\<lambda>_.
       rbind (usub DNS_MAX_PACKET_SIZE packet_len) (\<lambda>left.
       rbind (ensure (left \<ge> edns_padding_prr_len) E_LargePacket) (\<lambda>_.
       rbind (write_u16 p edns_rdlen_offset (edns_rdlen + of_nat edns_padding_prr_len)) (\<lambda>p.
       Ok (p @ prr))))))))))) of
       Ok p' \<Rightarrow> (p', Ok ())
     | Err e \<Rightarrow> (p, Err e)
     | Panic \<Rightarrow> (p, Panic))"

definition add_edns_padding :: "packet \<Rightarrow> packet \<times> (dns_error, unit) res" where
  "add_edns_padding p =
    (case additional_start p of
       Err e \<Rightarrow> (p, Err e)
     | Panic \<Rightarrow> (p, Panic)
     | Ok (offset, ar) \<Rightarrow>
         (case traverse_rrs_mut p offset ar edns_offset_cb None of
            (p', Err e) \<Rightarrow> (p', Err e)
          | (p', Panic) \<Rightarrow> (p', Panic)
          | (p', Ok (_, Some edns_offset)) \<Rightarrow> pad_at_opt p' edns_offset
          | (p', Ok (_, None)) \<Rightarrow>
              (let edns_offset = length p' + 1 in
               case add_edns_section p' (of_nat DNS_MAX_PACKET_SIZE) of
                 (p'', Ok ()) \<Rightarrow> pad_at_opt p'' edns_offset
               | (p'', Err e) \<Rightarrow> (p'', Err e)
               | (p'', Panic) \<Rightarrow> (p'', Panic))))"

subsection \<open>What the operations mean on messages\<close>

text \<open>The contribution of one record to the minimum: OPT records have no time to live.\<close>

definition ttl_step :: "ResourceRecord \<Rightarrow> u32 \<Rightarrow> u32" where
  "ttl_step r s = (if rr_rr_type r \<noteq> RR_OPT \<and> rr_ttl r < s then rr_ttl r else s)"

text \<open>
  All records of a message; the OPT record that \<open>add_edns_section\<close> appends; the change of the
  payload size and the padding as changes of the message.
\<close>

definition msg_rrs :: "Msg \<Rightarrow> ResourceRecord list" where
  "msg_rrs m = m_answers m @ m_authorities m @ m_additionals m"

definition is_opt :: "ResourceRecord \<Rightarrow> bool" where
  "is_opt r \<longleftrightarrow> rr_rr_type r = RR_OPT"

definition opt_rr :: "u16 \<Rightarrow> packet \<Rightarrow> ResourceRecord" where
  "opt_rr sz options = \<lparr>rr_name = \<lparr>labels = []\<rparr>, rr_rr_type = RR_OPT, rr_rr_class = sz, rr_ttl = 0,
     rr_rdata = options\<rparr>"

definition rr_set_payload :: "u16 \<Rightarrow> ResourceRecord \<Rightarrow> ResourceRecord" where
  "rr_set_payload sz r = (if is_opt r then r\<lparr>rr_rr_class := sz\<rparr> else r)"

definition msg_set_payload :: "u16 \<Rightarrow> Msg \<Rightarrow> Msg" where
  "msg_set_payload sz m = m\<lparr>m_additionals :=
     (if list_ex is_opt (m_additionals m) then map (rr_set_payload sz) (m_additionals m)
      else m_additionals m @ [opt_rr sz []])\<rparr>"

text \<open>The encoding up to the additional section.\<close>

definition enc_prefix :: "Msg \<Rightarrow> nat \<Rightarrow> packet" where
  "enc_prefix m ar = enc_header (h_id (m_header m)) (header_to_wire_bits (m_header m))
      (length (m_questions m)) (length (m_answers m)) (length (m_authorities m)) ar
     @ enc_questions (m_questions m) @ enc_rrs (m_answers m) @ enc_rrs (m_authorities m)"

text \<open>The record with the padding option appended to its data.\<close>

definition rr_pad :: "nat \<Rightarrow> ResourceRecord \<Rightarrow> ResourceRecord" where
  "rr_pad n r = r\<lparr>rr_rdata := rr_rdata r @ edns_padding_prr n\<rparr>"

text \<open>Padding as a change of the message, for a message whose OPT record, if any, is the last one.\<close>

definition msg_pad :: "Msg \<Rightarrow> Msg" where
  "msg_pad m =
     (let ar = (if list_ex is_opt (m_additionals m) then m_additionals m
                else m_additionals m @ [opt_rr 4096 []]);
          len = length (enc_msg (m\<lparr>m_additionals := ar\<rparr>))
      in m\<lparr>m_additionals := butlast ar @ [rr_pad (padded_len len - len) (last ar)]\<rparr>)"

text \<open>A sample query: one question, no records; and a sample address record.\<close>

definition sample_query :: Msg where
  "sample_query = sample_msg\<lparr>m_answers := []\<rparr>"

definition sample_address :: ResourceRecord where
  "sample_address = \<lparr>rr_name = \<lparr>labels = []\<rparr>, rr_rr_type = RR_A, rr_rr_class = 1, rr_ttl = 60,
     rr_rdata = [192, 0, 2, 1]\<rparr>"

subsection \<open>The name skipper\<close>

lemma skip_name_loop_bounds:
  "skip_name_loop p off q = Ok r \<Longrightarrow> off < r \<and> r \<le> length p"
proof (induction p off q rule: skip_name_loop.induct)
  case (1 p off q)
  let ?l = "unat (p ! off)"
  from "1.prems" have off: "off < length p"
    by (subst (asm) skip_name_loop.simps) (simp split: if_splits)
  show ?case
  proof (cases "p ! off AND 0xc0 \<noteq> 0xc0 \<and> ?l \<noteq> 0")
    case True
    with "1.prems" off have g: "?l < 0x40" "length p - off - 1 > ?l"
      "q + (?l + 1) \<le> DNS_MAX_HOSTNAME_SIZE"
      "skip_name_loop p (off + (?l + 1)) (q + (?l + 1)) = Ok r"
      by (simp_all add: skip_name_loop.simps [of p off q] Let_def split: if_splits)
    then have "off + (?l + 1) < r \<and> r \<le> length p"
      using True off by (intro "1.IH") auto
    then show ?thesis by simp
  next
    case False
    with "1.prems" off show ?thesis
      by (auto simp: skip_name_loop.simps [of p off q] Let_def split: if_splits)
  qed
qed

lemma skip_name_loop_not_Panic: "off < length p \<Longrightarrow> skip_name_loop p off q \<noteq> Panic"
proof (induction p off q rule: skip_name_loop.induct)
  case (1 p off q)
  then show ?case
    by (subst skip_name_loop.simps) (auto simp: Let_def rbind_eq_Panic)
qed

lemma skip_name_bounds: "skip_name p off = Ok r \<Longrightarrow> off < r \<and> r \<le> length p"
  by (auto simp: skip_name_def dest: skip_name_loop_bounds)

lemma skip_name_not_Panic: "p \<noteq> [] \<Longrightarrow> skip_name p off \<noteq> Panic"
  using skip_name_loop_not_Panic [of off p 0] by (auto simp: skip_name_def rbind_eq_Panic Suc_le_eq)

text \<open>Wherever the decoder of the codec accepts a name and bytes follow it, so does the skipper.\<close>

lemma name_loop_skip_name:
  assumes "name_loop p ls c cs pf wl = Ok r"
  shows "case cs of Some n \<Rightarrow> snd r = n
    | None \<Rightarrow> (\<forall>q. q + 1 \<le> wl \<longrightarrow> wl \<le> 255 \<longrightarrow> snd r < length p \<longrightarrow> skip_name_loop p c q = Ok (snd r))"
  using assms
proof (induction rule: name_loop_Ok_induct)
  case (pointer ls c cs pf wl)
  then show ?case by (cases cs) (auto simp: skip_name_loop.simps [of p c])
next
  case (root ls c cs pf wl)
  then show ?case
    by (cases cs) (auto simp: skip_name_loop.simps [of p c] DNS_MAX_HOSTNAME_SIZE_def Let_def)
next
  case (label ls c cs pf wl)
  show ?case
  proof (cases cs)
    case None
    have "skip_name_loop p c q = Ok (snd r)" if "q + 1 \<le> wl" "wl \<le> 255" "snd r < length p" for q
    proof -
      have rec: "skip_name_loop p (c + (unat (p ! c) + 1)) (q + (unat (p ! c) + 1)) = Ok (snd r)"
        using label None that
        by (simp add: MAX_DOMAIN_NAME_WIRE_OCTETS_def add.commute add.left_commute)
      then have "c + (unat (p ! c) + 1) < length p"
        using that(3) skip_name_loop_bounds [OF rec] by simp
      with rec label that show ?thesis
        by (simp add: skip_name_loop.simps [of p c] DNS_MAX_HOSTNAME_SIZE_def
            MAX_DOMAIN_NAME_WIRE_OCTETS_def Let_def)
    qed
    with None show ?thesis by simp
  qed (use label in simp)
qed

lemma name_from_wire_skip_name:
  assumes "name_from_wire p off = Ok (n, nx)" "nx < length p"
  shows "skip_name p off = Ok nx"
  using assms name_loop_skip_name [of p "[]" off None 0 1 "(n, nx)"] name_from_wire_bounds [OF assms(1)]
  by (auto simp: name_from_wire_def skip_name_def)

interpretation dns_skip: name_skipper skip_name
  by unfold_locales (blast intro: name_from_wire_skip_name name_from_wire_enc)

subsection \<open>Traversals\<close>

lemma traverse_rrs_append:
  "traverse_rrs p off (m + n) cb s
     = rbind (traverse_rrs p off m cb s) (\<lambda>(off, s). traverse_rrs p off n cb s)"
  by (induction m arbitrary: off s) (simp_all add: rbind_assoc)

lemma traverse_rrs_Suc_Ok:
  assumes "traverse_rrs p off (Suc n) cb s = Ok (off', s')"
  obtains nx s1 where "skip_name p off = Ok nx" "nx + 10 + unat (get_u16 p (nx + 8)) \<le> length p"
    "cb nx s = Ok s1" "traverse_rrs p (nx + 10 + unat (get_u16 p (nx + 8))) n cb s1 = Ok (off', s')"
  using assms by auto

lemma traverse_rrs_bounds:
  "traverse_rrs p off n cb s = Ok (off', s') \<Longrightarrow> off \<le> length p \<Longrightarrow> off \<le> off' \<and> off' \<le> length p"
proof (induction n arbitrary: off s)
  case (Suc n)
  from Suc.prems(1) obtain nx s1 where nx: "skip_name p off = Ok nx"
      "nx + 10 + unat (get_u16 p (nx + 8)) \<le> length p"
      "traverse_rrs p (nx + 10 + unat (get_u16 p (nx + 8))) n cb s1 = Ok (off', s')"
    by (rule traverse_rrs_Suc_Ok)
  from Suc.IH [OF nx(3,2)] skip_name_bounds [OF nx(1)] show ?case by linarith
qed simp

lemma traverse_rrs_not_Panic:
  assumes "p \<noteq> []" and "\<And>off s. off + 10 \<le> length p \<Longrightarrow> cb off s \<noteq> Panic"
  shows "traverse_rrs p off n cb s \<noteq> Panic"
proof (induction n arbitrary: off s)
  case (Suc n)
  show ?case
  proof (cases "skip_name p off")
    case (Ok nx)
    with skip_name_bounds have nx: "nx \<le> length p" by blast
    show ?thesis
    proof (cases "nx + 10 \<le> length p")
      case True
      then have "cb nx s \<noteq> Panic" by (rule assms(2))
      with True nx Ok Suc show ?thesis by (simp add: rbind_eq_Panic)
    next
      case False
      then have "\<not> 10 \<le> length p - nx" by linarith
      with nx Ok show ?thesis by simp
    qed
  qed (use skip_name_not_Panic [OF assms(1)] in auto)
qed simp

subsection \<open>The time to live\<close>

lemma unpack_rr_section_Suc_Ok:
  assumes "unpack_rr_section p off (Suc n) = Ok (rs, off')"
  obtains nm nx rs' r where "name_from_wire p off = Ok (nm, nx)"
    "nx + 10 + unat (get_u16 p (nx + 8)) \<le> length p" "rs = r # rs'"
    "rr_rr_type r = rr_from_u16 (get_u16 p nx)" "rr_ttl r = get_u32 p (nx + 4)"
    "unpack_rr_section p (nx + 10 + unat (get_u16 p (nx + 8))) n = Ok (rs', off')"
  using assms by (auto simp: Let_def split: prod.splits if_splits)

lemma traverse_unit_unpack:
  "unpack_rr_section p off n = Ok (rs, off') \<Longrightarrow> traverse_rrs p off n (\<lambda>_ s. Ok s) s = Ok (off', s)"
proof (induction n arbitrary: off rs)
  case (Suc n)
  from Suc.prems obtain nm nx rs' where u: "name_from_wire p off = Ok (nm, nx)"
    "nx + 10 + unat (get_u16 p (nx + 8)) \<le> length p"
    "unpack_rr_section p (nx + 10 + unat (get_u16 p (nx + 8))) n = Ok (rs', off')"
    by (rule unpack_rr_section_Suc_Ok)
  have "skip_name p off = Ok nx" using u(1,2) by (intro name_from_wire_skip_name) auto
  moreover have "10 \<le> length p - nx" "unat (get_u16 p (nx + 8)) \<le> length p - (nx + 10)"
    using u(2) by linarith+
  ultimately show ?case using u(2) Suc.IH [OF u(3)] by simp
qed simp

lemma rr_from_u16_OPT_iff: "rr_from_u16 w = RR_OPT \<longleftrightarrow> w = DNS_TYPE_OPT"
  by (simp add: rr_from_u16_eq_iff DNS_TYPE_OPT_def)

lemma traverse_min_ttl_unpack:
  "unpack_rr_section p off n = Ok (rs, off') \<Longrightarrow>
   traverse_rrs p off n (min_ttl_cb p) s = Ok (off', fold ttl_step rs s)"
proof (induction n arbitrary: off rs s)
  case (Suc n)
  from Suc.prems obtain nm nx rs' r where u: "name_from_wire p off = Ok (nm, nx)"
    "nx + 10 + unat (get_u16 p (nx + 8)) \<le> length p" "rs = r # rs'"
    "rr_rr_type r = rr_from_u16 (get_u16 p nx)" "rr_ttl r = get_u32 p (nx + 4)"
    "unpack_rr_section p (nx + 10 + unat (get_u16 p (nx + 8))) n = Ok (rs', off')"
    by (rule unpack_rr_section_Suc_Ok)
  have "skip_name p off = Ok nx" using u(1,2) by (intro name_from_wire_skip_name) auto
  moreover have "min_ttl_cb p nx s = Ok (ttl_step r s)"
    using u(2,4,5) by (simp add: min_ttl_cb_def ttl_step_def rr_from_u16_OPT_iff)
  moreover have "10 \<le> length p - nx" "unat (get_u16 p (nx + 8)) \<le> length p - (nx + 10)"
    using u(2) by linarith+
  ultimately show ?case
    using u(2,3) Suc.IH [OF u(6), of "ttl_step r s"] by simp
qed simp

lemma Min_insert_insert:
  "finite A \<Longrightarrow> Min (insert a (insert b A)) = Min (insert (min a b) (A :: 'a :: linorder set))"
  by (cases "A = {}") (auto simp: min.assoc)

lemma fold_ttl_step:
  "fold ttl_step rs s = Min (insert s (rr_ttl ` {r \<in> set rs. rr_rr_type r \<noteq> RR_OPT}))"
proof (induction rs arbitrary: s)
  case (Cons r rs)
  let ?T = "rr_ttl ` {r \<in> set rs. rr_rr_type r \<noteq> RR_OPT}"
  have fin: "finite ?T" by simp
  show ?case
  proof (cases "rr_rr_type r = RR_OPT")
    case True
    then have "{x \<in> set (r # rs). rr_rr_type x \<noteq> RR_OPT} = {r \<in> set rs. rr_rr_type r \<noteq> RR_OPT}"
      by auto
    with True Cons show ?thesis by (simp add: ttl_step_def)
  next
    case False
    then have e: "{x \<in> set (r # rs). rr_rr_type x \<noteq> RR_OPT} = insert r {r \<in> set rs. rr_rr_type r \<noteq> RR_OPT}"
      by auto
    have "ttl_step r s = min s (rr_ttl r)" using False by (auto simp: ttl_step_def min_def)
    then show ?thesis
      using Cons unfolding e image_insert Min_insert_insert [OF fin, of s "rr_ttl r"] by simp
  qed
qed simp

lemma question_name_end_not_Panic [simp]: "question_name_end p \<noteq> Panic"
  using skip_name_not_Panic [of p 12] skip_name_bounds [of p 12]
  by (cases "p = []") (auto simp: question_name_end_def qdcount_def rbind_eq_Panic dns_consts)

lemma question_name_end_bounds:
  "question_name_end p = Ok off \<Longrightarrow> 12 < off \<and> off \<le> length p \<and> 12 < length p
     \<and> length p \<le> 4096 \<and> skip_name p 12 = Ok off \<and> get_u16 p 4 = 1"
  by (auto simp: question_name_end_def qdcount_def dns_consts dest: skip_name_bounds)

lemma min_ttl_cb_not_Panic: "off + 10 \<le> length p \<Longrightarrow> min_ttl_cb p off s \<noteq> Panic"
  by (auto simp: min_ttl_cb_def rbind_eq_Panic)

lemma min_ttl_not_Panic: "min_ttl p lo hi err \<noteq> Panic"
  using question_name_end_bounds [of p]
    traverse_rrs_not_Panic [of p "min_ttl_cb p", OF _ min_ttl_cb_not_Panic]
  by (cases "p = []") (auto simp: min_ttl_def rbind_eq_Panic ancount_def nscount_def arcount_def Let_def
      split: prod.splits)

lemma traverse_min_ttl_le:
  "traverse_rrs p off n (min_ttl_cb p) s = Ok (off', s') \<Longrightarrow> s' \<le> s"
proof (induction n arbitrary: off s)
  case (Suc n)
  from Suc.prems obtain nx s1 where nx: "min_ttl_cb p nx s = Ok s1"
    "traverse_rrs p (nx + 10 + unat (get_u16 p (nx + 8))) n (min_ttl_cb p) s1 = Ok (off', s')"
    by (rule traverse_rrs_Suc_Ok)
  have "s1 \<le> s" using nx(1) by (auto simp: min_ttl_cb_def split: if_splits)
  with Suc.IH [OF nx(2)] show ?case by simp
qed simp

subsection \<open>Unpacked responses\<close>

lemma unpack_rr_section_append:
  assumes "unpack_rr_section p off m = Ok (rs, off1)" "unpack_rr_section p off1 n = Ok (ts, off2)"
  shows "unpack_rr_section p off (m + n) = Ok (rs @ ts, off2)"
  using assms
proof (induction m arbitrary: off rs)
  case (Suc m)
  from Suc.prems(1) obtain nm nx rs' where u: "name_from_wire p off = Ok (nm, nx)"
    "\<not> length p - nx < 10" "\<not> length p - (nx + 10) < unat (get_u16 p (nx + 8))"
    "nx + 10 + unat (get_u16 p (nx + 8)) \<le> length p"
    "unpack_rr_section p (nx + 10 + unat (get_u16 p (nx + 8))) m = Ok (rs', off1)"
    "rs = \<lparr>rr_name = nm, rr_rr_type = rr_from_u16 (get_u16 p nx), rr_rr_class = get_u16 p (nx + 2),
        rr_ttl = get_u32 p (nx + 4), rr_rdata = subslice p (nx + 10) (unat (get_u16 p (nx + 8)))\<rparr> # rs'"
    by (auto simp: Let_def split: prod.splits if_splits)
  with Suc.IH [OF u(5) Suc.prems(2)] show ?case by (simp add: Let_def)
qed simp

text \<open>What a successful decoding says about the offsets of the sections.\<close>

lemma msg_unpack_OkE:
  assumes "msg_unpack p = Ok m"
  obtains off where "12 \<le> length p"
    "unat (get_u16 p 4) = length (m_questions m)" "unat (get_u16 p 6) = length (m_answers m)"
    "unat (get_u16 p 8) = length (m_authorities m)" "unat (get_u16 p 10) = length (m_additionals m)"
    "unpack_questions p 12 (length (m_questions m)) = Ok (m_questions m, off)"
    "unpack_rr_section p off (length (msg_rrs m)) = Ok (msg_rrs m, length p)"
proof -
  obtain qs as ns ar oq oa on where u: "12 \<le> length p"
    "unpack_questions p 12 (unat (get_u16 p 4)) = Ok (qs, oq)"
    "unpack_rr_section p oq (unat (get_u16 p 6)) = Ok (as, oa)"
    "unpack_rr_section p oa (unat (get_u16 p 8)) = Ok (ns, on)"
    "unpack_rr_section p on (unat (get_u16 p 10)) = Ok (ar, length p)"
    "m_questions m = qs" "m_answers m = as" "m_authorities m = ns" "m_additionals m = ar"
    using assms by (auto simp: msg_unpack_def DNS_HEADER_SIZE_def split: prod.splits if_splits)
  note l = unpack_questions_wf [OF u(2)] unpack_rr_section_wf [OF u(3)]
    unpack_rr_section_wf [OF u(4)] unpack_rr_section_wf [OF u(5)]
  show thesis
    using that [of oq] u l unpack_rr_section_append [OF u(3) unpack_rr_section_append [OF u(4,5)]]
    by (simp add: msg_rrs_def)
qed

lemma single_question_end:
  assumes "unpack_questions p 12 1 = Ok (qs, off)" "length p \<le> 4096" "unat (get_u16 p 4) = 1"
  obtains nx where "question_name_end p = Ok nx" "off = nx + 4" "off \<le> length p"
proof -
  obtain n nx where n: "name_from_wire p 12 = Ok (n, nx)" "nx + 4 \<le> length p" "off = nx + 4"
    using assms(1) by (auto simp: One_nat_def simp del: One_nat_def [symmetric] split: prod.splits if_splits)
  have sk: "skip_name p 12 = Ok nx" using n by (intro name_from_wire_skip_name) auto
  moreover have "get_u16 p 4 = 1" using assms(3) by (metis unsigned_1 unsigned_word_eqI)
  ultimately have "question_name_end p = Ok nx"
    using assms(2) skip_name_bounds [OF sk]
    by (simp add: question_name_end_def qdcount_def dns_consts)
  with n that show thesis by blast
qed

lemma unpack_rr_section_advances:
  "unpack_rr_section p off n = Ok (rs, off') \<Longrightarrow> off + 10 * n \<le> off'"
proof (induction n arbitrary: off rs)
  case (Suc n)
  from Suc.prems obtain nm nx rs' where u: "name_from_wire p off = Ok (nm, nx)"
    "unpack_rr_section p (nx + 10 + unat (get_u16 p (nx + 8))) n = Ok (rs', off')"
    by (rule unpack_rr_section_Suc_Ok)
  from Suc.IH [OF u(2)] name_from_wire_bounds [OF u(1)] show ?case by simp
qed simp

lemma max_word_conv: "(if s < lo then lo else s) = max lo (s :: u32)"
  by (auto simp: max_def)

lemma min_ttl_unpacked:
  assumes "msg_unpack p = Ok m" "length p \<le> 4096" "length (m_questions m) = 1"
  shows "min_ttl p lo hi err =
    (if msg_rrs m = [] then Err E_ShortPacket else Ok (max lo (fold ttl_step (msg_rrs m) hi)))"
proof -
  from assms(1) obtain off where v: "12 \<le> length p"
    "unat (get_u16 p 4) = length (m_questions m)" "unat (get_u16 p 6) = length (m_answers m)"
    "unat (get_u16 p 8) = length (m_authorities m)" "unat (get_u16 p 10) = length (m_additionals m)"
    "unpack_questions p 12 (length (m_questions m)) = Ok (m_questions m, off)"
    "unpack_rr_section p off (length (msg_rrs m)) = Ok (msg_rrs m, length p)"
    by (rule msg_unpack_OkE)
  have count: "unat (get_u16 p 6) + unat (get_u16 p 8) + unat (get_u16 p 10) = length (msg_rrs m)"
    using v(3-5) by (simp add: msg_rrs_def)
  note u = v(1) v(2) [unfolded assms(3)] count v(6) [unfolded assms(3)] v(7)
  obtain nx where nx: "question_name_end p = Ok nx" "off = nx + 4" "off \<le> length p"
    using single_question_end [OF u(4) assms(2) u(2)] by blast
  show ?thesis
  proof (cases "msg_rrs m = []")
    case True
    then have "length p - nx = 4" using u(5) nx by simp
    with True nx show ?thesis by (simp add: min_ttl_def)
  next
    case False
    then have "4 < length p - nx"
      using unpack_rr_section_advances [OF u(5)] nx by (cases "msg_rrs m") auto
    moreover have "traverse_rrs p (nx + 4) (length (msg_rrs m)) (min_ttl_cb p) hi
        = Ok (length p, fold ttl_step (msg_rrs m) hi)"
      using traverse_min_ttl_unpack [OF u(5)] nx by simp
    ultimately show ?thesis
      using False u(1,3) nx
      by (simp add: min_ttl_def ancount_def nscount_def arcount_def max_word_conv del: add_gr_0)
  qed
qed

lemma min_ttl_Ok_range:
  assumes "min_ttl p lo hi err = Ok t"
  shows "lo \<le> t \<and> t \<le> max lo hi
    \<and> 0 < unat (get_u16 p 6) + unat (get_u16 p 8) + unat (get_u16 p 10)"
proof -
  let ?n = "unat (get_u16 p 6) + unat (get_u16 p 8) + unat (get_u16 p 10)"
  from assms obtain nx s where m: "question_name_end p = Ok nx" "4 < length p - nx"
    "traverse_rrs p (nx + 4) ?n (min_ttl_cb p) (if 0 < ?n then hi else err) = Ok (length p, s)"
    "t = max lo s"
    by (auto simp: min_ttl_def ancount_def nscount_def arcount_def Let_def max_word_conv
        simp del: add_gr_0 split: prod.splits)
  have "0 < ?n"
  proof (rule ccontr)
    assume "\<not> 0 < ?n"
    with m(2,3) show False by auto
  qed
  moreover from this have "s \<le> hi" using traverse_min_ttl_le [OF m(3)] by simp
  ultimately show ?thesis using m(4) by (auto simp: max_def)
qed

subsection \<open>Callbacks that keep the packet's length\<close>

text \<open>
  The contract between the mutable traversal and its callback: on the fixed part of a record
  inside the packet the callback does not panic, keeps the length of the packet and keeps an
  invariant between that length and the captured state.
\<close>

locale rr_callback =
  fixes cb :: "packet \<Rightarrow> nat \<Rightarrow> 's \<Rightarrow> packet \<times> (dns_error, 's) res"
    and I :: "nat \<Rightarrow> 's \<Rightarrow> bool"
  assumes cb_length: "off + 10 \<le> length p \<Longrightarrow> length (fst (cb p off s)) = length p"
    and cb_not_Panic: "off + 10 \<le> length p \<Longrightarrow> snd (cb p off s) \<noteq> Panic"
    and cb_inv: "off + 10 \<le> length p \<Longrightarrow> I (length p) s \<Longrightarrow> snd (cb p off s) = Ok s' \<Longrightarrow>
      I (length p) s'"
begin

lemma traverse_safe:
  assumes "p \<noteq> []" "I (length p) s"
  shows "length (fst (traverse_rrs_mut p off n cb s)) = length p
    \<and> snd (traverse_rrs_mut p off n cb s) \<noteq> Panic
    \<and> (\<forall>off' s'. snd (traverse_rrs_mut p off n cb s) = Ok (off', s') \<longrightarrow> I (length p) s')"
  using assms
proof (induction n arbitrary: p off s)
  case (Suc n)
  show ?case
  proof (cases "\<exists>nx. skip_name p off = Ok nx \<and> nx + 10 \<le> length p")
    case False
    then have "rbind (skip_name p off) (\<lambda>offset. rbind (usub (length p) offset) (\<lambda>left.
        rbind (ensure (left \<ge> 10) E_ShortPacket) (\<lambda>_. Ok offset))) \<in> range Err"
      using skip_name_not_Panic [OF Suc.prems(1), of off] skip_name_bounds [of p off]
      by (cases "skip_name p off") (auto simp: ensure_def)
    then show ?thesis by auto
  next
    case True
    then obtain nx where nx: "skip_name p off = Ok nx" "nx + 10 \<le> length p" by blast
    obtain p' r where cb: "cb p nx s = (p', r)" by fastforce
    have l: "length p' = length p" "r \<noteq> Panic" "\<And>s'. r = Ok s' \<Longrightarrow> I (length p) s'"
      using cb_length [OF nx(2), of s] cb_not_Panic [OF nx(2), of s] cb_inv [OF nx(2) Suc.prems(2)] cb
      by auto
    have ne: "p' \<noteq> []" using l(1) Suc.prems(1) by auto
    have nx2: "10 \<le> length p - nx" using nx(2) by linarith
    show ?thesis
    proof (cases r)
      case (Ok s')
      then show ?thesis
        using nx nx2 cb l ne Suc.IH [of p' s' "nx + 10 + unat (get_u16 p' (nx + 8))"]
        by (cases "unat (get_u16 p' (nx + 8)) \<le> length p' - (nx + 10)") simp_all
    qed (use nx nx2 cb l in auto)
  qed
qed simp

end

interpretation payload: rr_callback "payload_cb sz" "\<lambda>_ _. True"
  by unfold_locales (auto simp: payload_cb_def)

interpretation edns_offset: rr_callback edns_offset_cb
  "\<lambda>n s. case s of None \<Rightarrow> True | Some off \<Rightarrow> off + 10 \<le> n"
  by unfold_locales (auto simp: edns_offset_cb_def split: if_splits option.splits)

subsection \<open>The EDNS operations never panic\<close>

lemma additional_start_not_Panic [simp]: "additional_start p \<noteq> Panic"
proof (cases "question_name_end p")
  case (Ok nx)
  with question_name_end_bounds have "12 < length p" "nx \<le> length p" by blast+
  moreover from this have "traverse_rrs p off n (\<lambda>_ s. Ok s) () \<noteq> Panic" for off n
    by (intro traverse_rrs_not_Panic) auto
  ultimately show ?thesis
    using Ok by (auto simp: additional_start_def ancount_def nscount_def arcount_def rbind_eq_Panic
        split: prod.splits)
qed (auto simp: additional_start_def)

lemma additional_start_bounds:
  "additional_start p = Ok (off, n) \<Longrightarrow> 12 < length p \<and> length p \<le> 4096 \<and> n = unat (get_u16 p 10)"
  by (auto simp: additional_start_def arcount_def dest: question_name_end_bounds)

lemma add_edns_section_safe:
  assumes "12 \<le> length p" "length p \<le> 4096"
  shows "snd (add_edns_section p sz) \<noteq> Panic"
    and "add_edns_section p sz = (p', Ok ()) \<Longrightarrow> length p' = length p + 11 \<and> length p' \<le> 4096"
  using assms
  by (auto simp: add_edns_section_def arcount_inc_def arcount_def opt_rr_bytes_def dns_consts Let_def
      rbind_eq_Panic split: res.splits)

lemma padded_len_cases:
  "n \<le> 4096 \<Longrightarrow> n \<le> padded_len n \<and> (padded_len n \<in> set BOUNDARIES \<or> padded_len n = 4096)"
  by (auto simp: padded_len_def BOUNDARIES_def DNS_MAX_PACKET_SIZE_def)

lemma length_edns_padding_prr [simp]: "length (edns_padding_prr n) = 4 + n"
  by (simp add: edns_padding_prr_def)

lemma pad_at_opt_safe:
  assumes "length p \<le> 4096" "off + 10 \<le> length p"
  shows "snd (pad_at_opt p off) \<noteq> Panic"
    and "pad_at_opt p off = (p', Ok ()) \<Longrightarrow>
      length p' = padded_len (length p) + 4 \<and> length p' \<le> 4096
      \<and> p' = overwrite p (off + 8) (u16_be (get_u16 p (off + 8) + of_nat (4 + (padded_len (length p) - length p))))
          @ edns_padding_prr (padded_len (length p) - length p)"
  using assms padded_len_cases [OF assms(1)]
  by (auto simp: pad_at_opt_def dns_consts Let_def rbind_eq_Panic simp del: of_nat_diff of_nat_add
      split: res.splits)

lemma set_edns_not_Panic: "snd (set_edns_max_payload_size p sz) \<noteq> Panic"
proof (cases "additional_start p")
  case (Ok a)
  then obtain off n where a: "additional_start p = Ok (off, n)" by (cases a) auto
  note b = additional_start_bounds [OF a]
  obtain p' r where t: "traverse_rrs_mut p off n (payload_cb sz) False = (p', r)" by fastforce
  have "p \<noteq> []" using b by auto
  then have "length p' = length p" "r \<noteq> Panic"
    using payload.traverse_safe [where p = p and s = False and off = off and n = n and sz = sz] t by auto
  then show ?thesis
    using a b t add_edns_section_safe(1) [of p' sz]
    by (cases r) (auto simp: set_edns_max_payload_size_def split: if_splits)
qed (auto simp: set_edns_max_payload_size_def)

lemma add_edns_padding_cases:
  assumes "additional_start p = Ok (off, n)"
  obtains (failed) p' e where "add_edns_padding p = (p', Err e)"
    | (pad) q off' where "add_edns_padding p = pad_at_opt q off'" "length q \<le> 4096"
      "off' + 10 \<le> length q" "length p \<le> length q"
proof -
  note b = additional_start_bounds [OF assms]
  obtain p' r where t: "traverse_rrs_mut p off n edns_offset_cb None = (p', r)" by fastforce
  have "p \<noteq> []" using b by auto
  then have l: "length p' = length p" "r \<noteq> Panic"
    "\<And>o1 o2. r = Ok (o1, Some o2) \<Longrightarrow> o2 + 10 \<le> length p"
    using edns_offset.traverse_safe [of p None off n] t by auto
  show thesis
  proof (cases r)
    case (Ok s0)
    then obtain o1 s where Ok: "r = Ok (o1, s)" by (cases s0) auto
    show thesis
    proof (cases s)
      case (Some o2)
      with Ok l b t assms show thesis
        by (intro pad [of p' o2]) (auto simp: add_edns_padding_def)
    next
      case None
      let ?a = "add_edns_section p' (of_nat DNS_MAX_PACKET_SIZE)"
      obtain p'' r'' where a: "?a = (p'', r'')" by fastforce
      with Ok None t assms have e: "add_edns_padding p = (case r'' of Ok _ \<Rightarrow> pad_at_opt p'' (length p' + 1)
          | Err e \<Rightarrow> (p'', Err e) | Panic \<Rightarrow> (p'', Panic))"
        by (cases r'') (simp_all add: add_edns_padding_def case_unit_Unity)
      have b': "12 \<le> length p'" "length p' \<le> 4096" using b l by auto
      note safe = add_edns_section_safe [OF b', of "of_nat DNS_MAX_PACKET_SIZE"]
      show thesis
      proof (cases r'')
        case (Ok u)
        with e a safe(2) [of p''] l(1) show thesis
          by (intro pad [of p'' "length p' + 1"]) simp_all
      next
        case (Err x)
        with e show thesis by (intro failed [of p'' x]) simp
      qed (use safe(1) a in simp)
    qed
  next
    case (Err e)
    with t assms show thesis by (intro failed [of p' e]) (simp add: add_edns_padding_def)
  qed (use l in simp)
qed

lemma add_edns_padding_not_Panic: "snd (add_edns_padding p) \<noteq> Panic"
proof (cases "additional_start p")
  case (Ok a)
  then have "additional_start p = Ok (fst a, snd a)" by simp
  then show ?thesis
    by (cases rule: add_edns_padding_cases) (auto simp: pad_at_opt_safe(1))
qed (auto simp: add_edns_padding_def)

lemma add_edns_padding_length:
  assumes "add_edns_padding p = (p', Ok ())"
  shows "\<exists>b \<in> set BOUNDARIES. length p' = b + 4 \<and> length p \<le> b"
proof -
  from assms obtain a where "additional_start p = Ok a"
    by (auto simp: add_edns_padding_def split: res.splits)
  then have "additional_start p = Ok (fst a, snd a)" by simp
  then show ?thesis
  proof (cases rule: add_edns_padding_cases)
    case (pad q off')
    with assms have p': "pad_at_opt q off' = (p', Ok ())" by simp
    from pad_at_opt_safe(2) [OF pad(2,3) p'] padded_len_cases [OF pad(2)] pad(4) show ?thesis
      by (intro bexI [of _ "padded_len (length q)"]) auto
  qed (use assms in simp)
qed

subsection \<open>The EDNS operations on encoded messages\<close>

lemma traverse_rrs_enc:
  "has_at p off (enc_rrs rs) \<Longrightarrow> list_all wf_rr rs \<Longrightarrow>
   traverse_rrs p off (length rs) (\<lambda>_ s. Ok s) s = Ok (off + length (enc_rrs rs), s)"
proof (induction rs arbitrary: off)
  case (Cons r rs)
  then have "traverse_rrs p (off + length (enc_rr r)) (length rs) (\<lambda>_ s. Ok s) s
      = Ok (off + length (enc_rr r) + length (enc_rrs rs), s)"
    by simp
  then show ?case
    using Cons.prems enc_rr_fields [of p off r] dns_skip.skip_rr [of p off r]
    by (simp add: wire_simps add.assoc not_less)
qed simp

lemma additional_start_enc:
  assumes "wf_msg m" "length (m_questions m) = 1" "length (enc_msg m) \<le> 4096"
  shows "additional_start (enc_msg m) = Ok (12 + length (enc_questions (m_questions m))
    + length (enc_rrs (m_answers m)) + length (enc_rrs (m_authorities m)), length (m_additionals m))"
proof -
  note s = enc_msg_sections [OF assms(1)]
  obtain q where q: "m_questions m = [q]" using assms(2) by (cases "m_questions m") auto
  have wf: "wf_question q" "list_all wf_rr (m_answers m @ m_authorities m)"
    using assms(1) q by (auto simp: wf_msg_def)
  have hq: "has_at (enc_msg m) 12 (enc_question q)" using s(8) q by simp
  have l: "12 + name_wire_len (q_name q) + 4 \<le> length (enc_msg m)"
    using enc_question_fields(2) [OF hq] .
  have "get_u16 (enc_msg m) 4 = 1" using s(4) assms(2) by (metis unsigned_1 unsigned_word_eqI)
  then have qe: "question_name_end (enc_msg m) = Ok (12 + name_wire_len (q_name q))"
    using dns_skip.skip_question [OF hq wf(1)] l assms(3)
    by (simp add: question_name_end_def qdcount_def dns_consts)
  have "traverse_rrs (enc_msg m) (12 + length (enc_question q)) (length (m_answers m @ m_authorities m))
      (\<lambda>_ s. Ok s) () = Ok (12 + length (enc_question q) + length (enc_rrs (m_answers m @ m_authorities m)), ())"
    using s(9,10) q wf(2) by (intro traverse_rrs_enc) simp_all
  then show ?thesis
    using qe l s(1,5-7) q
    by (simp add: additional_start_def ancount_def nscount_def arcount_def wire_simps add.assoc)
qed

text \<open>One step of the mutable traversal over an encoded record.\<close>

lemma traverse_rrs_mut_step:
  assumes "has_at p off (enc_rr r)" "wf_rr r"
    and "cb p (off + name_wire_len (rr_name r)) s = (p', Ok s')"
    and "has_at p' off (enc_rr r')" "wf_rr r'" "rr_name r' = rr_name r"
    and "length (rr_rdata r') = length (rr_rdata r)"
  shows "traverse_rrs_mut p off (Suc n) cb s
    = traverse_rrs_mut p' (off + length (enc_rr r)) n cb s'"
proof -
  note f = enc_rr_fields [OF assms(1)] and f' = enc_rr_fields [OF assms(4)]
  show ?thesis
    using dns_skip.skip_rr [OF assms(1,2)] f(2,8) f'(2,6,9) assms(2-)
    by (simp add: wire_simps add.assoc not_less)
qed

lemma get_type_enc:
  assumes "has_at p off (enc_rr r)" "wf_rr r"
  shows "get_u16 p (off + name_wire_len (rr_name r)) = DNS_TYPE_OPT \<longleftrightarrow> is_opt r"
    and "off + name_wire_len (rr_name r) + 10 \<le> length p"
proof -
  have "rr_from_u16 (rr_to_u16 (rr_rr_type r)) = rr_rr_type r"
    using assms(2) by (simp add: wf_rr_def rr_from_to_u16)
  then show "get_u16 p (off + name_wire_len (rr_name r)) = DNS_TYPE_OPT \<longleftrightarrow> is_opt r"
    using enc_rr_fields(3) [OF assms(1)] rr_from_u16_OPT_iff [of "rr_to_u16 (rr_rr_type r)"]
    by (simp add: is_opt_def)
  show "off + name_wire_len (rr_name r) + 10 \<le> length p" using enc_rr_fields(2) [OF assms(1)] by simp
qed

lemma rr_set_payload_simps [simp]:
  "rr_name (rr_set_payload sz r) = rr_name r" "rr_rdata (rr_set_payload sz r) = rr_rdata r"
  "wf_rr (rr_set_payload sz r) = wf_rr r" "\<not> is_opt r \<Longrightarrow> rr_set_payload sz r = r"
  "length (enc_rr (rr_set_payload sz r)) = length (enc_rr r)"
  by (auto simp: rr_set_payload_def wf_rr_def wire_simps)

lemma payload_cb_enc:
  assumes "wf_rr r" "is_opt r \<Longrightarrow> \<not> b"
  shows "payload_cb sz (pre @ enc_rr r @ suf) (length pre + name_wire_len (rr_name r)) b
    = (pre @ enc_rr (rr_set_payload sz r) @ suf, Ok (b \<or> is_opt r))"
proof -
  let ?p = "pre @ enc_rr r @ suf" and ?nx = "length pre + name_wire_len (rr_name r)"
  have h: "has_at ?p (length pre) (enc_rr r)" by simp
  note t = get_type_enc [OF h assms(1)]
  have "overwrite ?p (?nx + 2) (u16_be sz) = pre @ enc_rr (rr_set_payload sz r) @ suf" if "is_opt r"
    using that overwrite_append [of "pre @ enc_name (rr_name r) @ u16_be (rr_to_u16 (rr_rr_type r))" "?nx + 2"
      "u16_be (rr_rr_class r)" "u16_be sz" "u32_be (rr_ttl r) @ u16_be (of_nat (length (rr_rdata r))) @ rr_rdata r @ suf"]
    by (simp add: enc_rr_def enc_rr_head_def wire_simps rr_set_payload_def)
  then show ?thesis using t assms(2) by (auto simp: payload_cb_def)
qed

lemma traverse_payload_enc:
  assumes "list_all wf_rr rs" "length (filter is_opt rs) + (if b then 1 else 0) \<le> 1"
  shows "traverse_rrs_mut (pre @ enc_rrs rs @ suf) (length pre) (length rs) (payload_cb sz) b
    = (pre @ enc_rrs (map (rr_set_payload sz) rs) @ suf,
       Ok (length pre + length (enc_rrs rs), b \<or> list_ex is_opt rs))"
  using assms
proof (induction rs arbitrary: pre b)
  case (Cons r rs)
  let ?r' = "rr_set_payload sz r"
  have wf: "wf_rr r" and b: "is_opt r \<Longrightarrow> \<not> b" using Cons.prems by (auto split: if_splits)
  have "traverse_rrs_mut (pre @ enc_rr r @ enc_rrs rs @ suf) (length pre) (Suc (length rs)) (payload_cb sz) b
      = traverse_rrs_mut (pre @ enc_rr ?r' @ enc_rrs rs @ suf) (length pre + length (enc_rr r)) (length rs)
         (payload_cb sz) (b \<or> is_opt r)"
    using wf by (intro traverse_rrs_mut_step [where r = r and r' = ?r'] payload_cb_enc b) simp_all
  also have "\<dots> = traverse_rrs_mut ((pre @ enc_rr ?r') @ enc_rrs rs @ suf) (length (pre @ enc_rr ?r'))
      (length rs) (payload_cb sz) (b \<or> is_opt r)"
    by simp
  also have "\<dots> = ((pre @ enc_rr ?r') @ enc_rrs (map (rr_set_payload sz) rs) @ suf,
      Ok (length (pre @ enc_rr ?r') + length (enc_rrs rs), (b \<or> is_opt r) \<or> list_ex is_opt rs))"
    using Cons.prems by (intro Cons.IH) (auto split: if_splits)
  finally show ?case by (simp add: add.assoc disj_assoc)
qed simp

lemma enc_rr_opt:
  "enc_rr (opt_rr sz []) = opt_rr_bytes sz"
  by (simp add: enc_rr_def enc_rr_head_def opt_rr_def opt_rr_bytes_def enc_name_def u16_be_def u32_be_def
      DNS_TYPE_OPT_def)

lemma wf_opt_rr [simp]: "length options \<le> 65535 \<Longrightarrow> wf_rr (opt_rr sz options)"
  by (simp add: wf_rr_def opt_rr_def wf_name_def name_wire_len_def MAX_DOMAIN_NAME_WIRE_OCTETS_def)

lemma enc_msg_additionals:
  "enc_msg (m\<lparr>m_additionals := ar\<rparr>) = enc_prefix m (length ar) @ enc_rrs ar"
  "enc_msg m = enc_prefix m (length (m_additionals m)) @ enc_rrs (m_additionals m)"
  by (simp_all add: enc_msg_def enc_prefix_def)

lemma enc_prefix_update [simp]: "enc_prefix (m\<lparr>m_additionals := ar\<rparr>) n = enc_prefix m n"
  by (simp add: enc_prefix_def)

lemma length_enc_prefix: "length (enc_prefix m ar) = 12 + length (enc_questions (m_questions m))
    + length (enc_rrs (m_answers m)) + length (enc_rrs (m_authorities m))"
  by (simp add: enc_prefix_def wire_simps)

lemma add_edns_section_enc:
  assumes "length ar < 65535" "length (enc_prefix m (length ar) @ enc_rrs ar) + 11 \<le> 4096"
  shows "add_edns_section (enc_prefix m (length ar) @ enc_rrs ar) sz
    = (enc_prefix m (length ar + 1) @ enc_rrs (ar @ [opt_rr sz []]), Ok ())"
proof -
  let ?p = "enc_prefix m (length ar) @ enc_rrs ar"
  let ?h = "u16_be (h_id (m_header m)) @ u16_be (header_to_wire_bits (m_header m))
     @ u16_be (of_nat (length (m_questions m))) @ u16_be (of_nat (length (m_answers m)))
     @ u16_be (of_nat (length (m_authorities m)))"
  let ?t = "enc_questions (m_questions m) @ enc_rrs (m_answers m) @ enc_rrs (m_authorities m)"
  have p: "enc_prefix m n @ rest = ?h @ u16_be (of_nat n) @ ?t @ rest" for n rest
    by (simp add: enc_prefix_def enc_header_def)
  have g: "get_u16 ?p 10 = of_nat (length ar)"
    unfolding p by (rule get_u16_append) simp
  have w: "overwrite ?p 10 (u16_be (of_nat (length ar) + 1)) = enc_prefix m (length ar + 1) @ enc_rrs ar"
    unfolding p by (subst overwrite_append) (simp_all add: add.commute)
  have c: "(of_nat (length ar) :: u16) < 0xffff" using assms(1) by (simp add: word_less_nat_alt)
  have l: "12 \<le> length ?p" by (simp add: length_enc_prefix)
  have lo: "length (opt_rr_bytes sz) = 11" by (simp add: opt_rr_bytes_def)
  have "arcount_inc ?p = Ok (enc_prefix m (length ar + 1) @ enc_rrs ar)"
    using g w c l by (simp add: arcount_inc_def arcount_def)
  moreover have "11 \<le> 4096 - length ?p" using assms(2) by linarith
  ultimately show ?thesis
    using assms(2) lo by (simp add: add_edns_section_def DNS_MAX_PACKET_SIZE_def enc_rr_opt)
qed

lemma set_edns_enc:
  assumes "wf_msg m" "length (m_questions m) = 1" "length (enc_msg m) \<le> 4096"
    and "length (filter is_opt (m_additionals m)) \<le> 1"
    and "list_ex is_opt (m_additionals m) \<or>
      (length (m_additionals m) < 65535 \<and> length (enc_msg m) + 11 \<le> 4096)"
  shows "set_edns_max_payload_size (enc_msg m) sz = (enc_msg (msg_set_payload sz m), Ok ())"
proof -
  let ?ar = "m_additionals m" and ?pre = "enc_prefix m (length (m_additionals m))"
  have start: "additional_start (enc_msg m) = Ok (length ?pre, length ?ar)"
    using additional_start_enc [OF assms(1-3)] by (simp add: length_enc_prefix)
  have wf: "list_all wf_rr ?ar" using assms(1) by (simp add: wf_msg_def)
  have tr: "traverse_rrs_mut (enc_msg m) (length ?pre) (length ?ar) (payload_cb sz) False
      = (?pre @ enc_rrs (map (rr_set_payload sz) ?ar), Ok (length ?pre + length (enc_rrs ?ar), list_ex is_opt ?ar))"
    using traverse_payload_enc [of ?ar False ?pre "[]" sz] wf assms(4)
    by (simp add: enc_msg_additionals(2))
  show ?thesis
  proof (cases "list_ex is_opt ?ar")
    case True
    then show ?thesis
      using start tr
      by (simp add: set_edns_max_payload_size_def msg_set_payload_def enc_msg_additionals(1))
  next
    case False
    then have "map (rr_set_payload sz) ?ar = ?ar"
      by (intro map_idI) (auto simp: list_ex_iff)
    moreover have "add_edns_section (?pre @ enc_rrs ?ar) sz = (enc_msg (msg_set_payload sz m), Ok ())"
      using False assms(5)
      by (subst add_edns_section_enc)
        (simp_all add: msg_set_payload_def enc_msg_additionals)
    ultimately show ?thesis
      using False start tr by (simp add: set_edns_max_payload_size_def)
  qed
qed

lemma wf_msg_set_payload:
  "wf_msg m \<Longrightarrow> length (m_additionals m) < 65535 \<Longrightarrow> wf_msg (msg_set_payload sz m)"
  by (auto simp: wf_msg_def msg_set_payload_def list_all_iff)

subsection \<open>Padding an encoded message\<close>

lemma edns_offset_cb_enc:
  assumes "wf_rr r" "has_at p off (enc_rr r)" "is_opt r \<Longrightarrow> s = None"
  shows "edns_offset_cb p (off + name_wire_len (rr_name r)) s
    = (p, Ok (if is_opt r then Some (off + name_wire_len (rr_name r)) else s))"
  using get_type_enc [OF assms(2,1)] assms(3) by (auto simp: edns_offset_cb_def)

lemma traverse_edns_offset_enc:
  "has_at p off (enc_rrs rs) \<Longrightarrow> list_all wf_rr rs \<Longrightarrow> \<not> list_ex is_opt rs \<Longrightarrow>
   traverse_rrs_mut p off (length rs + n) edns_offset_cb s
     = traverse_rrs_mut p (off + length (enc_rrs rs)) n edns_offset_cb s"
proof (induction rs arbitrary: off)
  case (Cons r rs)
  have wf: "wf_rr r" "\<not> is_opt r" "has_at p off (enc_rr r)" using Cons.prems by auto
  have "traverse_rrs_mut p off (Suc (length rs + n)) edns_offset_cb s
      = traverse_rrs_mut p (off + length (enc_rr r)) (length rs + n) edns_offset_cb s"
    using edns_offset_cb_enc [OF wf(1,3), of s] wf
    by (intro traverse_rrs_mut_step [where r = r and r' = r]) simp_all
  also have "\<dots> = traverse_rrs_mut p (off + length (enc_rr r) + length (enc_rrs rs)) n edns_offset_cb s"
    using Cons.prems by (intro Cons.IH) simp_all
  finally show ?case by (simp add: add.assoc)
qed simp

lemma enc_rr_pad:
  assumes "wf_rr r" "length (rr_rdata r) + 4 + n \<le> 65535"
  shows "enc_rr (rr_pad n r) = enc_name (rr_name r)
    @ (u16_be (rr_to_u16 (rr_rr_type r)) @ u16_be (rr_rr_class r) @ u32_be (rr_ttl r)
    @ u16_be (of_nat (length (rr_rdata r)) + of_nat (4 + n))) @ rr_rdata r @ edns_padding_prr n"
  by (simp add: enc_rr_def enc_rr_head_def rr_pad_def algebra_simps)

lemma padded_len_ge: "padded_len n < 4096 \<Longrightarrow> n \<le> padded_len n"
  by (auto simp: padded_len_def BOUNDARIES_def DNS_MAX_PACKET_SIZE_def split: if_splits)

lemma pad_at_opt_mid:
  assumes "wf_rr r" "length (pre @ enc_rr r @ suf) = len" "padded_len len + 4 \<le> 4096"
  shows "pad_at_opt (pre @ enc_rr r @ suf) (length pre + name_wire_len (rr_name r))
    = ((pre @ enc_name (rr_name r)) @ (u16_be (rr_to_u16 (rr_rr_type r)) @ u16_be (rr_rr_class r) @ u32_be (rr_ttl r)
    @ u16_be (of_nat (length (rr_rdata r)) + of_nat (4 + (padded_len len - len)))) @ rr_rdata r @ suf
    @ edns_padding_prr (padded_len len - len), Ok ())"
proof -
  let ?p = "pre @ enc_rr r @ suf" and ?off = "length pre + name_wire_len (rr_name r)"
  let ?n = "padded_len len - len"
  have h: "has_at ?p (length pre) (enc_rr r)" by (rule has_at_prefix) simp
  note f = enc_rr_fields [OF h]
  have len: "len \<le> padded_len len" "?off + 10 + length (rr_rdata r) \<le> len"
    using assms padded_len_ge [of len] by (auto simp: wire_simps)
  have ov: "overwrite ?p (?off + 8) (u16_be w) = (pre @ enc_name (rr_name r))
      @ (u16_be (rr_to_u16 (rr_rr_type r)) @ u16_be (rr_rr_class r) @ u32_be (rr_ttl r) @ u16_be w) @ rr_rdata r @ suf" for w
    using overwrite_append [of "pre @ enc_name (rr_name r) @ u16_be (rr_to_u16 (rr_rr_type r))
        @ u16_be (rr_rr_class r) @ u32_be (rr_ttl r)" "?off + 8"
      "u16_be (of_nat (length (rr_rdata r)))" "u16_be w" "rr_rdata r @ suf"]
    by (simp add: enc_rr_def enc_rr_head_def wire_simps)
  have le: "2 \<le> len - (?off + 8)" "?off + length (rr_rdata r) \<le> len" "4 + ?n \<le> 4096 - len"
    "4 + ?n \<le> 65535 - length (rr_rdata r)" "len \<le> 4096" "?off + 8 + 2 \<le> len"
    using len assms(3) by linarith+
  show ?thesis
    using len le f(6) ov assms(1,2)
    by (simp add: pad_at_opt_def Let_def dns_consts del: of_nat_diff of_nat_add length_append)
qed

lemma pad_at_opt_enc:
  assumes "wf_rr r" "length (pre @ enc_rr r) = len" "padded_len len + 4 \<le> 4096"
  shows "pad_at_opt (pre @ enc_rr r) (length pre + name_wire_len (rr_name r))
    = (pre @ enc_rr (rr_pad (padded_len len - len) r), Ok ())"
proof -
  have "length (rr_rdata r) + 4 + (padded_len len - len) \<le> 65535"
    using assms(2,3) padded_len_ge [of len] by (simp add: wire_simps del: of_nat_diff)
  from enc_rr_pad [OF assms(1) this] pad_at_opt_mid [of r pre "[]" len] assms show ?thesis
    by (simp del: of_nat_diff of_nat_add)
qed

text \<open>Records behind the OPT record: the padding ends up behind them.\<close>

lemma add_edns_padding_mid_opt:
  assumes m: "wf_msg m" "length (m_questions m) = 1" "padded_len (length (enc_msg m)) + 4 \<le> 4096"
    and ar: "m_additionals m = rs @ r # ts" "\<not> list_ex is_opt rs" "is_opt r" "\<not> list_ex is_opt ts"
  defines "n \<equiv> padded_len (length (enc_msg m)) - length (enc_msg m)"
  shows "add_edns_padding (enc_msg m) = ((enc_prefix m (length (m_additionals m)) @ enc_rrs rs @ enc_name (rr_name r))
    @ (u16_be (rr_to_u16 (rr_rr_type r)) @ u16_be (rr_rr_class r) @ u32_be (rr_ttl r)
      @ u16_be (of_nat (length (rr_rdata r)) + of_nat (4 + n)))
    @ rr_rdata r @ enc_rrs ts @ edns_padding_prr n, Ok ())"
proof -
  let ?len = "length (enc_msg m)" and ?k = "length (m_additionals m)"
  let ?pre = "enc_prefix m ?k @ enc_rrs rs"
  have p: "enc_msg m = ?pre @ enc_rr r @ enc_rrs ts" by (simp add: enc_msg_additionals(2) ar(1))
  have wf: "list_all wf_rr rs" "wf_rr r" "list_all wf_rr ts" using m(1) ar(1) by (auto simp: wf_msg_def)
  have le: "?len \<le> 4096" using padded_len_ge [of ?len] m(3) by linarith
  have h: "has_at (enc_msg m) (length (enc_prefix m ?k)) (enc_rrs rs)"
    "has_at (enc_msg m) (length ?pre) (enc_rr r)" "has_at (enc_msg m) (length ?pre + length (enc_rr r)) (enc_rrs ts)"
    using has_at_prefix [of "enc_prefix m ?k" _ "enc_rrs rs" "enc_rr r @ enc_rrs ts"]
      has_at_prefix [of ?pre _ "enc_rr r" "enc_rrs ts"]
      has_at_prefix [of "?pre @ enc_rr r" _ "enc_rrs ts" "[]"] p by (simp_all add: add.assoc)
  let ?o = "length ?pre + name_wire_len (rr_name r)"
  have start: "additional_start (enc_msg m) = Ok (length (enc_prefix m ?k), ?k)"
    using additional_start_enc [OF m(1,2) le] by (simp add: length_enc_prefix)
  have k: "?k = length rs + Suc (length ts)" using ar(1) by simp
  have "traverse_rrs_mut (enc_msg m) (length (enc_prefix m ?k)) ?k edns_offset_cb None
      = traverse_rrs_mut (enc_msg m) (length ?pre) (Suc (length ts)) edns_offset_cb None"
    using traverse_edns_offset_enc [OF h(1) wf(1) ar(2), of "Suc (length ts)" None]
    by (simp only: length_append k)
  also have "\<dots> = traverse_rrs_mut (enc_msg m) (length ?pre + length (enc_rr r)) (length ts) edns_offset_cb (Some ?o)"
    using edns_offset_cb_enc [OF wf(2) h(2), of None] wf(2) h(2) ar(3)
    by (intro traverse_rrs_mut_step [where r = r and r' = r]) simp_all
  also have "\<dots> = (enc_msg m, Ok (?len, Some ?o))"
    using traverse_edns_offset_enc [OF h(3) wf(3) ar(4), of 0 "Some ?o"] p by simp
  finally have "add_edns_padding (enc_msg m) = pad_at_opt (enc_msg m) ?o"
    using start by (simp add: add_edns_padding_def)
  also have "\<dots> = ((?pre @ enc_name (rr_name r))
    @ (u16_be (rr_to_u16 (rr_rr_type r)) @ u16_be (rr_rr_class r) @ u32_be (rr_ttl r)
      @ u16_be (of_nat (length (rr_rdata r)) + of_nat (4 + n)))
    @ rr_rdata r @ enc_rrs ts @ edns_padding_prr n, Ok ())"
    using pad_at_opt_mid [OF wf(2) _ m(3), of ?pre "enc_rrs ts"] unfolding p [symmetric] n_def by simp
  finally show ?thesis by simp
qed

lemma add_edns_padding_last_opt:
  assumes m: "wf_msg m" "length (m_questions m) = 1" "padded_len (length (enc_msg m)) + 4 \<le> 4096"
    and ar: "m_additionals m = rs @ [r]" "\<not> list_ex is_opt rs" "is_opt r"
  shows "add_edns_padding (enc_msg m) = (enc_msg (msg_pad m), Ok ())"
proof -
  let ?n = "padded_len (length (enc_msg m)) - length (enc_msg m)"
  have wf: "wf_rr r" using m(1) ar(1) by (simp add: wf_msg_def)
  have "enc_msg m = (enc_prefix m (length rs + 1) @ enc_rrs rs) @ enc_rr r"
    by (simp add: enc_msg_additionals(2) ar(1))
  then have "length (rr_rdata r) \<le> length (enc_msg m)" by (simp add: wire_simps)
  then have "length (rr_rdata r) + 4 + ?n \<le> 65535"
    using m(3) padded_len_ge [of "length (enc_msg m)"] by linarith
  note e = enc_rr_pad [OF wf this]
  have same: "m\<lparr>m_additionals := rs @ [r]\<rparr> = m" unfolding ar(1) [symmetric] by simp
  have "msg_pad m = m\<lparr>m_additionals := rs @ [rr_pad ?n r]\<rparr>"
    using ar by (simp add: msg_pad_def Let_def same)
  with e add_edns_padding_mid_opt [OF m, of rs r "[]"] ar show ?thesis
    by (simp add: enc_msg_additionals(1) del: of_nat_diff of_nat_add)
qed

lemma add_edns_padding_no_opt:
  assumes m: "wf_msg m" "length (m_questions m) = 1" "length (m_additionals m) < 65535"
    "padded_len (length (enc_msg m) + 11) + 4 \<le> 4096"
    and ar: "\<not> list_ex is_opt (m_additionals m)"
  shows "add_edns_padding (enc_msg m) = (enc_msg (msg_pad m), Ok ())"
proof -
  let ?ar = "m_additionals m" and ?o = "opt_rr 4096 []"
  let ?pre = "enc_prefix m (length ?ar + 1) @ enc_rrs ?ar"
  let ?len = "length (enc_msg m) + 11"
  have le: "?len \<le> 4096" using padded_len_ge [of ?len] m(4) by linarith
  have wf: "list_all wf_rr ?ar" using m(1) by (simp add: wf_msg_def)
  have p: "enc_msg m = enc_prefix m (length ?ar) @ enc_rrs ?ar" by (rule enc_msg_additionals(2))
  have h: "has_at (enc_msg m) (length (enc_prefix m (length ?ar))) (enc_rrs ?ar)"
    using has_at_prefix [of "enc_prefix m (length ?ar)" _ "enc_rrs ?ar" "[]"] p by simp
  have start: "additional_start (enc_msg m) = Ok (length (enc_prefix m (length ?ar)), length ?ar)"
    using additional_start_enc [OF m(1,2)] le by (simp add: length_enc_prefix)
  have tr: "traverse_rrs_mut (enc_msg m) (length (enc_prefix m (length ?ar))) (length ?ar) edns_offset_cb None
      = (enc_msg m, Ok (length (enc_msg m), None))"
    using traverse_edns_offset_enc [OF h wf ar, of 0 None] p by simp
  have sec: "add_edns_section (enc_msg m) 4096 = (?pre @ enc_rr ?o, Ok ())"
    using add_edns_section_enc [OF m(3), of m 4096] le p by simp
  have len: "length (?pre @ enc_rr ?o) = ?len" "length ?pre = length (enc_msg m)"
    using p by (simp_all add: length_enc_prefix enc_rr_opt opt_rr_bytes_def)
  have name: "name_wire_len (rr_name ?o) = 1" by (simp add: opt_rr_def name_wire_len_def)
  have "add_edns_padding (enc_msg m) = pad_at_opt (?pre @ enc_rr ?o) (length (enc_msg m) + 1)"
    using start tr sec by (simp add: add_edns_padding_def DNS_MAX_PACKET_SIZE_def case_unit_Unity)
  also have "\<dots> = pad_at_opt (?pre @ enc_rr ?o) (length ?pre + name_wire_len (rr_name ?o))"
    unfolding len(2) name ..
  also have "\<dots> = (?pre @ enc_rr (rr_pad (padded_len ?len - ?len) ?o), Ok ())"
    using len(1) m(4) by (intro pad_at_opt_enc) simp_all
  also have "?pre @ enc_rr (rr_pad (padded_len ?len - ?len) ?o) = enc_msg (msg_pad m)"
    using ar len(1) by (simp add: msg_pad_def enc_msg_additionals(1) Let_def)
  finally show ?thesis .
qed

lemma unpack_rr_section_split:
  "unpack_rr_section p off (m + n) = Ok (rs, off') \<Longrightarrow>
   \<exists>rs1 off1 rs2. unpack_rr_section p off m = Ok (rs1, off1) \<and> unpack_rr_section p off1 n = Ok (rs2, off')"
proof (induction m arbitrary: off rs)
  case (Suc m)
  have "unpack_rr_section p off (Suc (m + n)) = Ok (rs, off')" using Suc.prems by simp
  then obtain nm nx rs' where u: "name_from_wire p off = Ok (nm, nx)"
    "nx + 10 + unat (get_u16 p (nx + 8)) \<le> length p"
    "unpack_rr_section p (nx + 10 + unat (get_u16 p (nx + 8))) (m + n) = Ok (rs', off')"
    by (rule unpack_rr_section_Suc_Ok)
  have "\<not> length p - nx < 10" "\<not> length p - (nx + 10) < unat (get_u16 p (nx + 8))" using u(2) by linarith+
  with Suc.IH [OF u(3)] u(1,2) show ?case by (auto simp: Let_def)
qed simp

lemma name_from_wire_letter_X: "p ! off = 0x58 \<Longrightarrow> name_from_wire p off \<noteq> Ok v"
  unfolding name_from_wire_def by (subst name_loop.simps) simp

lemma padding_letter:
  assumes "0 < length b" "length b < n" "length a = k"
  shows "(a @ b @ edns_padding_prr n) ! (k + (4 + n)) = 0x58"
proof -
  have "\<not> 4 + n < length b" "\<not> 4 + n - length b < 2" "\<not> 4 + n - length b - 2 < 2"
    "4 + n - length b - 2 - 2 < n" using assms by linarith+
  then show ?thesis using assms(3) by (simp add: edns_padding_prr_def nth_append)
qed

lemma padding_behind_records_undecodable:
  assumes m: "wf_msg m" "length (m_questions m) = 1" "padded_len (length (enc_msg m)) + 4 \<le> 4096"
    and ar: "m_additionals m = rs @ r # ts" "\<not> list_ex is_opt rs" "is_opt r" "\<not> list_ex is_opt ts"
    and ts: "ts \<noteq> []" "length (enc_rrs ts) < padded_len (length (enc_msg m)) - length (enc_msg m)"
  shows "\<exists>p'. add_edns_padding (enc_msg m) = (p', Ok ()) \<and> msg_unpack p' \<noteq> Ok m'"
proof -
  let ?n = "padded_len (length (enc_msg m)) - length (enc_msg m)"
  let ?k = "length (m_additionals m)"
  let ?w = "of_nat (length (rr_rdata r)) + of_nat (4 + ?n) :: u16"
  let ?head = "u16_be (rr_to_u16 (rr_rr_type r)) @ u16_be (rr_rr_class r) @ u32_be (rr_ttl r) @ u16_be ?w"
  let ?pre = "enc_prefix m ?k @ enc_rrs rs"
  let ?p' = "(?pre @ enc_name (rr_name r)) @ ?head @ rr_rdata r @ enc_rrs ts @ edns_padding_prr ?n"
  have pad: "add_edns_padding (enc_msg m) = (?p', Ok ())"
    using add_edns_padding_mid_opt [OF m ar] by simp
  let ?hd = "enc_header (h_id (m_header m)) (header_to_wire_bits (m_header m))
      (length (m_questions m)) (length (m_answers m)) (length (m_authorities m)) ?k"
  let ?body = "enc_rrs (m_answers m @ m_authorities m @ rs)"
  let ?tail = "enc_name (rr_name r) @ ?head @ rr_rdata r @ enc_rrs ts @ edns_padding_prr ?n"
  have "has_at ?p' 0 ?p'" by (simp add: has_at_def)
  then have h: "has_at ?p' 0 (?hd @ enc_questions (m_questions m) @ ?body @ ?tail)"
    by (simp add: enc_prefix_def)
  let ?oq = "12 + length (enc_questions (m_questions m))"
  let ?o = "?oq + length ?body" and ?nx = "?oq + length ?body + name_wire_len (rr_name r)"
  let ?x = "?nx + 10 + length (rr_rdata r) + (4 + ?n)"
  have wf: "list_all wf_question (m_questions m)" "list_all wf_rr (m_answers m @ m_authorities m @ rs)"
    "wf_name (rr_name r)" using m(1) ar(1) by (auto simp: wf_msg_def wf_rr_def)
  have cnt: "unat (get_u16 ?p' 4) = length (m_questions m)" "unat (get_u16 ?p' 6) = length (m_answers m)"
    "unat (get_u16 ?p' 8) = length (m_authorities m)" "unat (get_u16 ?p' 10) = ?k"
    using h m(1) by (simp_all add: enc_header_def has_at_u16 wf_msg_def)
  have at: "has_at ?p' 12 (enc_questions (m_questions m))" "has_at ?p' ?oq ?body"
    "has_at ?p' ?o (enc_name (rr_name r))" "has_at ?p' (?nx + 8) (u16_be ?w)"
    using h by (simp_all add: wire_simps add.assoc)
  have rd: "length (rr_rdata r) + (4 + ?n) \<le> 65535"
    using m(3) padded_len_ge [of "length (enc_msg m)"]
    by (simp add: enc_msg_additionals(2) ar(1) wire_simps del: of_nat_diff)
  then have w: "unat (get_u16 ?p' (?nx + 8)) = length (rr_rdata r) + (4 + ?n)"
    using at(4) by (simp add: has_at_u16 flip: of_nat_add del: of_nat_diff)
  let ?A = "(?pre @ enc_name (rr_name r)) @ ?head @ rr_rdata r"
  have A: "length ?A = ?nx + 10 + length (rr_rdata r)"
    by (simp add: length_enc_prefix wire_simps del: of_nat_diff of_nat_add)
  have "0 < length (enc_rrs ts)" using ts(1) by (cases ts) (simp_all add: wire_simps)
  then have X: "?p' ! ?x = 0x58"
    using padding_letter [OF _ _ A, of "enc_rrs ts" ?n] ts(2) by (simp del: of_nat_diff of_nat_add)
  have "msg_unpack ?p' \<noteq> Ok m'"
  proof
    assume "msg_unpack ?p' = Ok m'"
    then obtain off where u: "unat (get_u16 ?p' 4) = length (m_questions m')"
      "unat (get_u16 ?p' 6) = length (m_answers m')" "unat (get_u16 ?p' 8) = length (m_authorities m')"
      "unat (get_u16 ?p' 10) = length (m_additionals m')"
      "unpack_questions ?p' 12 (length (m_questions m')) = Ok (m_questions m', off)"
      "unpack_rr_section ?p' off (length (msg_rrs m')) = Ok (msg_rrs m', length ?p')"
      by (rule msg_unpack_OkE)
    have q: "off = ?oq" using u(1,5) cnt(1) unpack_questions_enc [OF at(1) wf(1)] by auto
    have "length (msg_rrs m') = length (m_answers m @ m_authorities m @ rs) + Suc (length ts)"
      using u(2-4) cnt(2-4) ar(1) by (simp add: msg_rrs_def)
    with u(6) q obtain rs1 o1 rs2 where "unpack_rr_section ?p' ?oq (length (m_answers m @ m_authorities m @ rs)) = Ok (rs1, o1)"
      "unpack_rr_section ?p' o1 (Suc (length ts)) = Ok (rs2, length ?p')"
      using unpack_rr_section_split by metis
    then have "unpack_rr_section ?p' ?o (Suc (length ts)) = Ok (rs2, length ?p')"
      using unpack_rr_section_enc [OF at(2) wf(2)] by simp
    then obtain nm nx rs' where s: "name_from_wire ?p' ?o = Ok (nm, nx)"
      "unpack_rr_section ?p' (nx + 10 + unat (get_u16 ?p' (nx + 8))) (length ts) = Ok (rs', length ?p')"
      by (rule unpack_rr_section_Suc_Ok)
    have "nx = ?nx" using s(1) from_wire.rd_enc [OF at(3) wf(3)] by simp
    with s(2) w have "unpack_rr_section ?p' ?x (Suc (length ts - 1)) = Ok (rs', length ?p')"
      using ts(1) by (simp add: add.assoc)
    then show False
      by (rule unpack_rr_section_Suc_Ok) (use name_from_wire_letter_X [OF X] in blast)
  qed
  with pad show ?thesis by blast
qed

lemma wf_sample_query: "wf_msg sample_query"
  using wf_sample_msg by (simp add: wf_msg_def sample_query_def sample_msg_def)

subsection \<open>Concrete messages\<close>

lemma enc_sample_query_length: "length (enc_msg sample_query) = 22"
  by (simp add: enc_msg_def sample_query_def sample_msg_def wire_simps sample_name_def name_wire_len_def)

lemma wf_sample_additionals:
  "list_all wf_rr ar \<Longrightarrow> length ar \<le> 65535 \<Longrightarrow> wf_msg (sample_query\<lparr>m_additionals := ar\<rparr>)"
  using wf_sample_query by (simp add: wf_msg_def)

lemma length_sample_additionals:
  "length (enc_msg (sample_query\<lparr>m_additionals := ar\<rparr>)) = 22 + length (enc_rrs ar)"
  by (simp add: enc_msg_def sample_query_def sample_msg_def wire_simps sample_name_def name_wire_len_def)

lemma sample_query_one_question: "length (m_questions sample_query) = 1"
  "m_additionals sample_query = []"
  by (simp_all add: sample_query_def sample_msg_def)

lemma sample_address: "wf_rr sample_address" "\<not> is_opt sample_address" "length (enc_rr sample_address) = 15"
  by (simp_all add: sample_address_def wf_rr_def wf_name_def name_wire_len_def is_opt_def wire_simps
      MAX_DOMAIN_NAME_WIRE_OCTETS_def)

lemma sample_opt: "is_opt (opt_rr sz [])" "length (enc_rr (opt_rr sz [])) = 11"
  by (simp_all add: is_opt_def enc_rr_opt opt_rr_bytes_def) (simp add: opt_rr_def)

subsection \<open>Properties of the packet operations\<close>

text \<open>
  C23 (functional): for every packet of at most 4096 bytes that the codec accepts, with one
  question, \<open>min_ttl\<close> returns the smallest time to live of the answer, authority and additional
  records that are not OPT records, capped by \<open>max_ttl\<close> and then raised to \<open>min_ttl\<close>; when the
  response has no records at all it fails with "Short packet" (so that the failure time to live,
  the fourth argument, is never returned).
\<close>

theorem min_ttl_of_response:
  assumes "msg_unpack p = Ok m" "length p \<le> 4096" "length (m_questions m) = 1"
  shows "min_ttl p lo hi failure_ttl =
    (if msg_rrs m = [] then Err E_ShortPacket
     else Ok (max lo (Min (insert hi (rr_ttl ` {r \<in> set (msg_rrs m). rr_rr_type r \<noteq> RR_OPT})))))"
  using min_ttl_unpacked [OF assms] by (simp add: fold_ttl_step)

theorem min_ttl_of_response_witness:
  "msg_unpack (enc_msg sample_msg) = Ok sample_msg \<and> min_ttl (enc_msg sample_msg) 10 600 2 = Ok 300"
proof -
  have u: "msg_unpack (enc_msg sample_msg) = Ok sample_msg"
    using msg_unpack_enc [OF wf_sample_msg] by (simp add: sample_msg_def)
  have "length (enc_msg sample_msg) \<le> 4096" "length (m_questions sample_msg) = 1"
    by (simp_all add: enc_msg_def sample_msg_def wire_simps sample_name_def name_wire_len_def)
  from min_ttl_of_response [OF u this, of 10 600 2] have "min_ttl (enc_msg sample_msg) 10 600 2 = Ok 300"
    by (simp add: sample_msg_def msg_rrs_def)
  with u show ?thesis by blast
qed

text \<open>
  whatever packet the upstream sends, a time to live that \<open>min_ttl\<close> returns is at
  least the configured minimum and at most the configured maximum (or the minimum, when that is
  larger), and the packet announces at least one record.
\<close>

lemma min_ttl_in_range:
  assumes "min_ttl p lo hi failure_ttl = Ok t"
  shows "lo \<le> t \<and> t \<le> max lo hi \<and> 0 < unat (get_u16 p 6) + unat (get_u16 p 8) + unat (get_u16 p 10)"
  using assms by (rule min_ttl_Ok_range)

text \<open>
  on every byte string the time-to-live scan, the payload-size rewriting and the
  padding return without an out-of-range access, an integer underflow or a failed assertion.
\<close>

lemma packet_operations_never_panic:
  "min_ttl p lo hi failure_ttl \<noteq> Panic \<and> snd (set_edns_max_payload_size p sz) \<noteq> Panic
   \<and> snd (add_edns_padding p) \<noteq> Panic"
  by (simp add: min_ttl_not_Panic set_edns_not_Panic add_edns_padding_not_Panic)

text \<open>
  C19 (refinement): on the packet of a well-formed one-question message with at most one OPT
  record, \<open>set_edns_max_payload_size\<close> yields exactly the packet of the message whose OPT record
  advertises the new size, or to which an OPT record was added when there was none (and the
  packet and the additional count have room for it).
\<close>

theorem set_edns_refines_message_change:
  assumes "wf_msg m" "length (m_questions m) = 1" "length (enc_msg m) \<le> 4096"
    and "length (filter is_opt (m_additionals m)) \<le> 1"
    and "list_ex is_opt (m_additionals m) \<or>
      (length (m_additionals m) < 65535 \<and> length (enc_msg m) + 11 \<le> 4096)"
  shows "set_edns_max_payload_size (enc_msg m) sz = (enc_msg (msg_set_payload sz m), Ok ())"
  using assms by (rule set_edns_enc)

theorem set_edns_refines_message_change_witness:
  "set_edns_max_payload_size (enc_msg sample_query) 4096
     = (enc_msg (sample_query\<lparr>m_additionals := [opt_rr 4096 []]\<rparr>), Ok ())
   \<and> set_edns_max_payload_size (enc_msg (sample_query\<lparr>m_additionals := [opt_rr 512 []]\<rparr>)) 4096
     = (enc_msg (sample_query\<lparr>m_additionals := [opt_rr 4096 []]\<rparr>), Ok ())"
proof (rule conjI)
  show "set_edns_max_payload_size (enc_msg sample_query) 4096
     = (enc_msg (sample_query\<lparr>m_additionals := [opt_rr 4096 []]\<rparr>), Ok ())"
    using wf_sample_query enc_sample_query_length sample_query_one_question
    by (subst set_edns_refines_message_change) (simp_all add: msg_set_payload_def)
  show "set_edns_max_payload_size (enc_msg (sample_query\<lparr>m_additionals := [opt_rr 512 []]\<rparr>)) 4096
     = (enc_msg (sample_query\<lparr>m_additionals := [opt_rr 4096 []]\<rparr>), Ok ())"
    using sample_query_one_question
    by (subst set_edns_refines_message_change)
      (simp_all add: wf_sample_additionals length_sample_additionals sample_opt msg_set_payload_def
        rr_set_payload_def, simp add: opt_rr_def)
qed

text \<open>
  the length of every padded response is 4 more than one of the sixteen block
  sizes, whatever the packet was, so that it reveals only which block the answer fell into.
\<close>

lemma padded_length_is_blocked:
  assumes "add_edns_padding p = (p', Ok ())"
  shows "\<exists>b \<in> set BOUNDARIES. length p' = b + 4 \<and> length p \<le> b"
  using assms by (rule add_edns_padding_length)

text \<open>
  C21 (refinement): on the packet of a well-formed one-question message whose OPT record is absent
  or the last additional record, and whose padded form fits, padding yields the packet of the
  message with the padding option at the end of the OPT record (which is added, with size 4096,
  when it was absent).
\<close>

theorem padding_refines_message_change:
  assumes "wf_msg m" "length (m_questions m) = 1" "length (m_additionals m) < 65535"
    and "padded_len (length (enc_msg m) + (if list_ex is_opt (m_additionals m) then 0 else 11)) + 4 \<le> 4096"
    and "\<not> list_ex is_opt (butlast (m_additionals m))"
  shows "add_edns_padding (enc_msg m) = (enc_msg (msg_pad m), Ok ())"
proof (cases "list_ex is_opt (m_additionals m)")
  case False
  then show ?thesis using assms by (intro add_edns_padding_no_opt) simp_all
next
  case True
  then have "m_additionals m \<noteq> []" by auto
  then have split: "m_additionals m = butlast (m_additionals m) @ [last (m_additionals m)]" by simp
  moreover have "is_opt (last (m_additionals m))"
    using True assms(5) by (subst (asm) split) (simp del: append_butlast_last_id)
  ultimately show ?thesis using assms True by (intro add_edns_padding_last_opt) simp_all
qed

theorem padding_refines_message_change_witness:
  "wf_msg sample_query
   \<and> add_edns_padding (enc_msg sample_query) = (enc_msg (msg_pad sample_query), Ok ())
   \<and> m_additionals (msg_pad sample_query) = [rr_pad 31 (opt_rr 4096 [])]"
proof -
  have "padded_len 33 = 64" by (simp add: padded_len_def BOUNDARIES_def)
  then have "padded_len (length (enc_msg sample_query) + 11) + 4 \<le> 4096"
    "m_additionals (msg_pad sample_query) = [rr_pad 31 (opt_rr 4096 [])]"
    by (simp_all add: msg_pad_def enc_sample_query_length length_sample_additionals sample_opt
        sample_query_one_question Let_def)
  then show ?thesis
    using wf_sample_query sample_query_one_question
    by (simp add: padding_refines_message_change)
qed

text \<open>
  C22 (error): when records follow the OPT record and are shorter than the padding, \<open>add_edns_padding\<close>
  reports success but writes the padding behind those records while it extends the length of
  the OPT record, and the packet it leaves cannot be decoded.
\<close>

theorem padding_behind_records_breaks_packet:
  assumes "wf_msg m" "length (m_questions m) = 1" "padded_len (length (enc_msg m)) + 4 \<le> 4096"
    and "m_additionals m = rs @ r # ts" "is_opt r" "\<not> list_ex is_opt (rs @ ts)" "ts \<noteq> []"
    and "length (enc_rrs ts) < padded_len (length (enc_msg m)) - length (enc_msg m)"
  shows "\<exists>p'. add_edns_padding (enc_msg m) = (p', Ok ()) \<and> msg_unpack p' \<noteq> Ok m'"
  using assms by (intro padding_behind_records_undecodable) auto

theorem padding_behind_records_breaks_packet_witness:
  "\<exists>m. wf_msg m \<and> m_additionals m = [opt_rr 1232 [], sample_address]
    \<and> (\<exists>p'. add_edns_padding (enc_msg m) = (p', Ok ()) \<and> msg_unpack p' \<noteq> Ok m)"
proof -
  let ?m = "sample_query\<lparr>m_additionals := [opt_rr 1232 [], sample_address]\<rparr>"
  have wf: "wf_msg ?m" by (rule wf_sample_additionals) (simp_all add: sample_address)
  have "\<exists>p'. add_edns_padding (enc_msg ?m) = (p', Ok ()) \<and> msg_unpack p' \<noteq> Ok ?m"
    using sample_query_one_question
    by (intro padding_behind_records_breaks_packet [OF wf, where rs = "[]" and r = "opt_rr 1232 []" and ts = "[sample_address]"])
      (simp_all add: length_sample_additionals sample_opt sample_address padded_len_def BOUNDARIES_def)
  with wf show ?thesis by (intro exI [of _ ?m]) simp
qed

end
