(* ===== verification/Edns_Ecs.thy ===== *)
theory Edns_Ecs
  imports Dns
begin

text \<open>
  EDNS Client Subnet (\<open>src/libdoh/src/edns_ecs.rs\<close>): the client subnet option and its insertion
  into the OPT record of a query.

  The lemmas show that on the packet of a well-formed message the insertion appends the option to
  the OPT record (and leaves a client's own option alone), that it cannot panic on a packet the
  codec accepts, that it does panic on a packet the codec would have rejected, and what of the
  client's address the option reveals.
\<close>

subsection \<open>Definitions\<close>

definition EDNS_CLIENT_SUBNET :: u16 where "EDNS_CLIENT_SUBNET = 8"
definition FAMILY_IPV4 :: u16 where "FAMILY_IPV4 = 1"
definition FAMILY_IPV6 :: u16 where "FAMILY_IPV6 = 2"

text \<open>\<open>u8::div_ceil(8)\<close>.\<close>

definition div_ceil8 :: "byte \<Rightarrow> nat" where
  "div_ceil8 prefix = (unat prefix + 7) div 8"

fun build_ecs_option :: "ip_addr \<Rightarrow> byte \<Rightarrow> byte \<Rightarrow> packet" where
  "build_ecs_option (V4 addr) prefix_v4 prefix_v6 =
     u16_be FAMILY_IPV4 @ [prefix_v4] @ [0]
       @ take (min (div_ceil8 prefix_v4) 4) (ip_octets (V4 addr))"
| "build_ecs_option (V6 a b c d) prefix_v4 prefix_v6 =
     u16_be FAMILY_IPV6 @ [prefix_v6] @ [0]
       @ take (min (div_ceil8 prefix_v6) 16) (ip_octets (V6 a b c d))"

text \<open>The search of the additional section for the OPT record: its start, the offset of its length field
  and its length.\<close>

fun find_opt_record :: "packet \<Rightarrow> nat \<Rightarrow> nat \<Rightarrow> (dns_error, (nat \<times> nat \<times> nat) option) res" where
  "find_opt_record p offset 0 = Ok None"
| "find_opt_record p offset (Suc n) =
    rbind (if offset < length p \<and> p ! offset = 0 then
             rbind (read_u16 p (offset + 1)) (\<lambda>rtype.
               if rtype = DNS_TYPE_OPT then
                 let rdlength_offset = offset + 9 in
                 rbind (read_u16 p rdlength_offset) (\<lambda>rdlength.
                   Ok (Some (offset, rdlength_offset, unat rdlength)))
               else Ok None)
           else Ok None) (\<lambda>found.
      if found \<noteq> None then Ok found
      else
        rbind (skip_name p offset) (\<lambda>offset.
        rbind (ensure (offset + 10 \<le> length p) E_IncompleteRR) (\<lambda>_.
        rbind (read_u16 p (offset + 8)) (\<lambda>rdlen.
        find_opt_record p (offset + (10 + unat rdlen)) n))))"

text \<open>The search of the options for a client subnet option.\<close>

function has_ecs_loop :: "packet \<Rightarrow> nat \<Rightarrow> nat \<Rightarrow> nat \<Rightarrow> (dns_error, bool) res" where
  "has_ecs_loop p rdata_start rdlength rdata_offset =
    (if rdata_offset < rdlength then
       if rdata_start + rdata_offset + 4 > length p then Ok False
       else
         rbind (read_u16 p (rdata_start + rdata_offset)) (\<lambda>opt_code.
         rbind (read_u16 p (rdata_start + rdata_offset + 2)) (\<lambda>opt_len.
           if rdata_start + rdata_offset + 4 + unat opt_len > length p then Ok False
           else if opt_code = EDNS_CLIENT_SUBNET then Ok True
           else has_ecs_loop p rdata_start rdlength (rdata_offset + (4 + unat opt_len))))
     else Ok False)"
  by pat_completeness auto
termination
  by (relation "measure (\<lambda>(p, st, len, off). len - off)") auto

declare has_ecs_loop.simps [simp del]

definition ecs_option_bytes :: "ip_addr \<Rightarrow> byte \<Rightarrow> byte \<Rightarrow> packet" where
  "ecs_option_bytes client_ip prefix_v4 prefix_v6 =
    (let ecs_data = build_ecs_option client_ip prefix_v4 prefix_v6 in
     u16_be EDNS_CLIENT_SUBNET @ u16_be (of_nat (length ecs_data)) @ ecs_data)"

text \<open>The offset behind the answers and authorities and the additional count.\<close>

definition ecs_additional_start :: "packet \<Rightarrow> (dns_error, nat \<times> nat) res" where
  "ecs_additional_start p =
    rbind (ensure (length p \<ge> 12) E_ShortPacket) (\<lambda>_.
    rbind (ensure (length p \<le> 4096) E_LargePacket) (\<lambda>_.
    rbind (qdcount p) (\<lambda>qd.
    rbind (ensure (qd = 1) E_NoQuestion) (\<lambda>_.
    rbind (skip_name p 12) (\<lambda>offset.
    rbind (usub (length p) offset) (\<lambda>left.
    rbind (ensure (left \<ge> 4) E_ShortPacket) (\<lambda>_.
    rbind (ancount p) (\<lambda>an. rbind (nscount p) (\<lambda>ns. rbind (arcount p) (\<lambda>ar.
    rbind (ensure (ar > 0) E_NoOpt) (\<lambda>_.
    rbind (traverse_rrs p (offset + 4) (unat an + unat ns) (\<lambda>_ s. Ok s) ()) (\<lambda>(offset, _).
    Ok (offset, unat ar)))))))))))))"

definition add_ecs_to_packet ::
  "packet \<Rightarrow> ip_addr \<Rightarrow> byte \<Rightarrow> byte \<Rightarrow> packet \<times> (dns_error, unit) res" where
  "add_ecs_to_packet p client_ip prefix_v4 prefix_v6 =
    (case rbind (ecs_additional_start p) (\<lambda>(offset, ar).
          rbind (find_opt_record p offset ar) (\<lambda>info.
          case info of
            None \<Rightarrow> Err E_NoOpt
          | Some (_, rdlength_offset, rdlength) \<Rightarrow>
              let rdata_start = rdlength_offset + 2 in
              rbind (has_ecs_loop p rdata_start rdlength 0) (\<lambda>has_ecs.
              if has_ecs then Ok p
              else
                let ecs_option = ecs_option_bytes client_ip prefix_v4 prefix_v6;
                    new_rdlength = rdlength + length ecs_option in
                rbind (write_u16 p rdlength_offset (of_nat new_rdlength)) (\<lambda>p.
                let old_rdata_end = rdata_start + rdlength in
                Ok (take old_rdata_end p @ ecs_option @ drop old_rdata_end p))))) of
       Ok p' \<Rightarrow> (p', Ok ())
     | Err e \<Rightarrow> (p, Err e)
     | Panic \<Rightarrow> (p, Panic))"

subsection \<open>What the insertion means on messages\<close>

text \<open>The options of an OPT record and their encoding.\<close>

type_synonym edns_option = "u16 \<times> packet"

definition enc_option :: "edns_option \<Rightarrow> packet" where
  "enc_option opt = u16_be (fst opt) @ u16_be (of_nat (length (snd opt))) @ snd opt"

definition enc_options :: "edns_option list \<Rightarrow> packet" where
  "enc_options opts = concat (map enc_option opts)"

definition wf_option :: "edns_option \<Rightarrow> bool" where
  "wf_option opt \<longleftrightarrow> length (snd opt) \<le> 65535"

text \<open>The part of the address that an option of the given prefix may depend on.\<close>

fun prefix_length :: "ip_addr \<Rightarrow> byte \<Rightarrow> byte \<Rightarrow> nat" where
  "prefix_length (V4 _) prefix_v4 prefix_v6 = unat prefix_v4"
| "prefix_length (V6 _ _ _ _) prefix_v4 prefix_v6 = unat prefix_v6"

text \<open>A query whose additional section is one root byte, although one record is announced.\<close>

definition cut_off_query :: packet where
  "cut_off_query = [0x12, 0x34, 1, 0, 0, 1, 0, 0, 0, 0, 0, 1,  1, 0x61, 0, 0, 1, 0, 1,  0]"

text \<open>An OPT record as clients send it: the root name. The decoder does not require it.\<close>

definition is_root_opt :: "ResourceRecord \<Rightarrow> bool" where
  "is_root_opt r \<longleftrightarrow> is_opt r \<and> labels (rr_name r) = []"

text \<open>The insertion as a change of the message.\<close>

definition rr_add_option :: "edns_option \<Rightarrow> ResourceRecord \<Rightarrow> ResourceRecord" where
  "rr_add_option opt r = r\<lparr>rr_rdata := rr_rdata r @ enc_option opt\<rparr>"

lemma enc_options_simps [simp]:
  "enc_options [] = []" "enc_options (opt # opts) = enc_option opt @ enc_options opts"
  "enc_options (xs @ ys) = enc_options xs @ enc_options ys"
  by (simp_all add: enc_options_def)

lemma length_enc_option [wire_simps]: "length (enc_option opt) = 4 + length (snd opt)"
  by (simp add: enc_option_def)

lemma build_ecs_option_length: "length (build_ecs_option ip p4 p6) \<le> 20"
  by (cases ip) (auto simp del: ip_octets.simps)

lemma length_ecs_option_bytes:
  "length (ecs_option_bytes ip p4 p6) = 4 + length (build_ecs_option ip p4 p6)"
  by (simp add: ecs_option_bytes_def Let_def)

lemma ecs_option_bytes_enc:
  "ecs_option_bytes ip p4 p6 = enc_option (EDNS_CLIENT_SUBNET, build_ecs_option ip p4 p6)"
  by (simp add: ecs_option_bytes_def enc_option_def Let_def)

subsection \<open>The option search\<close>

lemma has_ecs_loop_not_Panic [simp]: "has_ecs_loop p st len off \<noteq> Panic"
proof (induction p st len off rule: has_ecs_loop.induct)
  case (1 p st len off)
  then show ?case by (subst has_ecs_loop.simps) (auto simp: rbind_eq_Panic)
qed

lemma has_ecs_loop_enc:
  assumes "has_at p (st + off) (enc_options opts)" "list_all wf_option opts"
    and "off + length (enc_options opts) = len"
  shows "has_ecs_loop p st len off = Ok (EDNS_CLIENT_SUBNET \<in> fst ` set opts)"
  using assms
proof (induction opts arbitrary: off)
  case Nil
  then show ?case by (subst has_ecs_loop.simps) simp
next
  case (Cons opt opts)
  let ?o = "st + off"
  have h: "has_at p ?o (u16_be (fst opt))" "has_at p (?o + 2) (u16_be (of_nat (length (snd opt))))"
    "has_at p (?o + 4) (snd opt)" "has_at p (st + (off + (4 + length (snd opt)))) (enc_options opts)"
    using Cons.prems(1) by (simp_all add: enc_option_def add.assoc)
  have g: "get_u16 p ?o = fst opt" "unat (get_u16 p (?o + 2)) = length (snd opt)"
    "?o + 4 + length (snd opt) \<le> length p"
    using h(1,2) has_at_bound [OF h(3)] Cons.prems(2) by (auto simp: has_at_u16 wf_option_def)
  have "has_ecs_loop p st len (off + (4 + length (snd opt)))
      = Ok (EDNS_CLIENT_SUBNET \<in> fst ` set opts)"
    using Cons.prems h(4) by (intro Cons.IH) (auto simp: wire_simps)
  then show ?case
    using g Cons.prems(3) by (subst has_ecs_loop.simps) (auto simp: wire_simps)
qed

subsection \<open>The record search\<close>

lemma enc_name_root_iff: "wf_name n \<Longrightarrow> has_at p off (enc_name n) \<Longrightarrow> off < length p \<and> (p ! off = 0 \<longleftrightarrow> labels n = [])"
  by (cases "labels n")
    (auto simp: enc_name_def has_at_Cons enc_label_def wf_name_def wf_label_def
      dest!: arg_cong [where f = unat])

lemma wire_len_root: "labels n = [] \<Longrightarrow> name_wire_len n = 1"
  by (simp add: name_wire_len_def)

lemma find_opt_record_skip:
  assumes "has_at p off (enc_rr r)" "wf_rr r" "\<not> is_root_opt r"
  shows "find_opt_record p off (Suc n) = find_opt_record p (off + length (enc_rr r)) n"
proof -
  note f = enc_rr_fields [OF assms(1)] and t = get_type_enc [OF assms(1,2)]
  have root: "off < length p" "p ! off = 0 \<longleftrightarrow> labels (rr_name r) = []"
    using enc_name_root_iff [of "rr_name r" p off] f(1) assms(2) by (auto simp: wf_rr_def)
  have sk: "skip_name p off = Ok (off + name_wire_len (rr_name r))"
    by (rule dns_skip.skip_rr [OF assms(1,2)])
  show ?thesis
  proof (cases "labels (rr_name r) = []")
    case True
    with wire_len_root [OF True] assms(3) t root f(2,6) sk assms(2) show ?thesis
      by (auto simp: is_root_opt_def wire_simps ac_simps)
  next
    case False
    with root f(2,6) sk assms(2) show ?thesis by (auto simp: wire_simps ac_simps)
  qed
qed

lemma find_opt_record_enc:
  assumes "has_at p off (enc_rrs (rs @ [r]))" "list_all wf_rr (rs @ [r])"
    and "list_all (\<lambda>x. \<not> is_root_opt x) rs" "is_root_opt r"
  shows "find_opt_record p off (length rs + Suc n) =
    Ok (Some (off + length (enc_rrs rs), off + length (enc_rrs rs) + 9, length (rr_rdata r)))"
  using assms
proof (induction rs arbitrary: off)
  case Nil
  then have h: "has_at p off (enc_rr r)" and wf: "wf_rr r" by simp_all
  note f = enc_rr_fields [OF h] and t = get_type_enc [OF h wf]
  have root: "labels (rr_name r) = []" "name_wire_len (rr_name r) = 1" "is_opt r"
    using Nil.prems(4) wire_len_root by (auto simp: is_root_opt_def)
  have "off < length p" "p ! off = 0"
    using enc_name_root_iff [of "rr_name r" p off] f(1) wf root(1) by (auto simp: wf_rr_def)
  then show ?case using t root f(2,6) wf by (simp add: Let_def ac_simps)
next
  case (Cons x rs)
  have "find_opt_record p off (Suc (length rs + Suc n))
      = find_opt_record p (off + length (enc_rr x)) (length rs + Suc n)"
    using Cons.prems by (intro find_opt_record_skip) simp_all
  also have "\<dots> = Ok (Some (off + length (enc_rr x) + length (enc_rrs rs),
      off + length (enc_rr x) + length (enc_rrs rs) + 9, length (rr_rdata r)))"
    using Cons.prems by (intro Cons.IH) simp_all
  finally show ?case by (simp add: add.assoc)
qed

lemma ecs_additional_start_enc:
  assumes "wf_msg m" "length (m_questions m) = 1" "length (enc_msg m) \<le> 4096" "m_additionals m \<noteq> []"
  shows "ecs_additional_start (enc_msg m)
    = Ok (length (enc_prefix m (length (m_additionals m))), length (m_additionals m))"
proof -
  note s = enc_msg_sections [OF assms(1)]
  have "additional_start (enc_msg m)
      = Ok (length (enc_prefix m (length (m_additionals m))), length (m_additionals m))"
    using additional_start_enc [OF assms(1-3)] by (simp add: length_enc_prefix)
  then obtain nx where nx: "question_name_end (enc_msg m) = Ok nx" "4 \<le> length (enc_msg m) - nx"
    "traverse_rrs (enc_msg m) (nx + 4) (length (m_answers m) + length (m_authorities m)) (\<lambda>_ s. Ok s) ()
       = Ok (length (enc_prefix m (length (m_additionals m))), ())"
    using s(1,5-7) by (auto simp: additional_start_def ancount_def nscount_def arcount_def)
  note b = question_name_end_bounds [OF nx(1)]
  have "unat (get_u16 (enc_msg m) 10) \<noteq> 0" using s(7) assms(4) by simp
  then have "0 < get_u16 (enc_msg m) 10" by (simp add: word_less_nat_alt)
  then show ?thesis
    using b nx(2,3) s(1,5-7) assms(3)
    by (simp add: ecs_additional_start_def qdcount_def ancount_def nscount_def arcount_def)
qed

text \<open>What the insertion writes, once the record was found.\<close>

lemma add_ecs_to_packet_found:
  assumes "ecs_additional_start p = Ok (off, k)" "find_opt_record p off k = Ok (Some (st, length a, length d))"
    and "has_ecs_loop p (length a + 2) (length d) 0 = Ok b"
    and "p = a @ w0 @ d @ suf" "length w0 = 2"
  shows "add_ecs_to_packet p ip p4 p6 =
    (if b then p
     else a @ u16_be (of_nat (length d + length (ecs_option_bytes ip p4 p6))) @ d
       @ ecs_option_bytes ip p4 p6 @ suf, Ok ())"
proof -
  let ?w = "of_nat (length d + length (ecs_option_bytes ip p4 p6)) :: u16"
  have "overwrite p (length a) (u16_be ?w) = a @ u16_be ?w @ d @ suf"
    using assms(4,5) by simp
  moreover have "length a + 2 \<le> length p" using assms(4,5) by simp
  moreover have "take (length a + 2 + length d) (a @ u16_be ?w @ d @ suf) = a @ u16_be ?w @ d"
    "drop (length a + 2 + length d) (a @ u16_be ?w @ d @ suf) = suf" by simp_all
  ultimately show ?thesis
    using assms(1-3) by (simp add: add_ecs_to_packet_def Let_def del: of_nat_add)
qed

lemma add_ecs_enc:
  assumes m: "wf_msg m" "length (m_questions m) = 1" "length (enc_msg m) \<le> 4096"
    and ar: "m_additionals m = rs @ r # ts" "list_all (\<lambda>x. \<not> is_root_opt x) rs" "is_root_opt r"
    and opts: "rr_rdata r = enc_options opts" "list_all wf_option opts"
  shows "add_ecs_to_packet (enc_msg m) ip p4 p6 =
    (if EDNS_CLIENT_SUBNET \<in> fst ` set opts then enc_msg m
     else enc_msg (m\<lparr>m_additionals :=
       rs @ rr_add_option (EDNS_CLIENT_SUBNET, build_ecs_option ip p4 p6) r # ts\<rparr>), Ok ())"
proof -
  let ?k = "length (m_additionals m)"
  let ?pre = "enc_prefix m ?k @ enc_rrs rs" and ?suf = "enc_rrs ts"
  let ?opt = "(EDNS_CLIENT_SUBNET, build_ecs_option ip p4 p6)"
  let ?a = "?pre @ enc_name (rr_name r) @ u16_be (rr_to_u16 (rr_rr_type r)) @ u16_be (rr_rr_class r)
      @ u32_be (rr_ttl r)"
  have p: "enc_msg m = ?pre @ enc_rr r @ ?suf" by (simp add: enc_msg_additionals(2) ar(1))
  then have p': "enc_msg m = ?a @ u16_be (of_nat (length (rr_rdata r))) @ rr_rdata r @ ?suf"
    by (simp add: enc_rr_def enc_rr_head_def)
  have wf: "list_all wf_rr (rs @ [r])" "wf_rr r" using m(1) ar(1) by (auto simp: wf_msg_def)
  have name: "labels (rr_name r) = []" "length (enc_name (rr_name r)) = 1"
    using ar(3) by (simp_all add: is_root_opt_def wire_simps wire_len_root)
  then have a: "length ?a = length ?pre + 9" by simp
  have h: "has_at (enc_msg m) (length (enc_prefix m ?k)) (enc_rrs (rs @ [r]))"
    using has_at_prefix [of "enc_prefix m ?k" _ "enc_rrs (rs @ [r])" ?suf] p by simp
  have start: "ecs_additional_start (enc_msg m) = Ok (length (enc_prefix m ?k), ?k)"
    using m ar(1) by (intro ecs_additional_start_enc) simp_all
  have k: "?k = length rs + Suc (length ts)" using ar(1) by simp
  have find: "find_opt_record (enc_msg m) (length (enc_prefix m ?k)) ?k
      = Ok (Some (length ?pre, length ?a, length (rr_rdata r)))"
    unfolding a using find_opt_record_enc [OF h wf(1) ar(2,3)] k by (simp add: add.assoc)
  have "has_at (?a @ u16_be (of_nat (length (rr_rdata r))) @ rr_rdata r @ ?suf) (length ?a + 2) (rr_rdata r)"
    using has_at_prefix [of "?a @ u16_be (of_nat (length (rr_rdata r)))" "length ?a + 2" "rr_rdata r" ?suf]
    by simp
  then have "has_at (enc_msg m) (length ?a + 2 + 0) (enc_options opts)"
    unfolding p' [symmetric] opts(1) [symmetric] by (simp only: add_0_right)
  then have has: "has_ecs_loop (enc_msg m) (length ?a + 2) (length (rr_rdata r)) 0
      = Ok (EDNS_CLIENT_SUBNET \<in> fst ` set opts)"
    using opts by (intro has_ecs_loop_enc) simp_all
  have "?a @ u16_be (of_nat (length (rr_rdata r) + length (enc_option ?opt))) @ rr_rdata r @ enc_option ?opt @ ?suf
      = enc_msg (m\<lparr>m_additionals := rs @ rr_add_option ?opt r # ts\<rparr>)"
    by (simp add: enc_msg_additionals(1) ar(1) rr_add_option_def enc_rr_def enc_rr_head_def)
  then show ?thesis
    unfolding add_ecs_to_packet_found [OF start find has p' length_u16_be] ecs_option_bytes_enc by simp
qed

subsection \<open>Panics\<close>

lemma name_from_wire_zero: "name_from_wire p off = Ok (n, nx) \<Longrightarrow> p ! off = 0 \<Longrightarrow> nx = off + 1"
  unfolding name_from_wire_def by (subst (asm) name_loop.simps) (auto split: if_splits)

lemma find_opt_record_safe:
  "unpack_rr_section p off n = Ok (rs, off') \<Longrightarrow>
   find_opt_record p off n \<noteq> Panic
   \<and> (\<forall>st i l. find_opt_record p off n = Ok (Some (st, i, l)) \<longrightarrow> i + 2 \<le> length p)"
proof (induction n arbitrary: off rs)
  case (Suc n)
  from Suc.prems obtain nm nx rs' where u: "name_from_wire p off = Ok (nm, nx)"
    "nx + 10 + unat (get_u16 p (nx + 8)) \<le> length p"
    "unpack_rr_section p (nx + 10 + unat (get_u16 p (nx + 8))) n = Ok (rs', off')"
    by (rule unpack_rr_section_Suc_Ok)
  have sk: "skip_name p off = Ok nx" using u(1,2) by (intro name_from_wire_skip_name) simp_all
  have z: "off + 11 \<le> length p" if "p ! off = 0" using name_from_wire_zero [OF u(1) that] u(2) by simp
  note ih = Suc.IH [OF u(3)]
  show ?case
    using sk u(2) z ih
    by (auto simp: rbind_eq_Panic Let_def add.assoc split: if_splits)
qed simp

lemma ecs_additional_start_cases:
  assumes "msg_unpack p = Ok m"
  shows "ecs_additional_start p \<noteq> Panic
    \<and> (\<forall>off n. ecs_additional_start p = Ok (off, n) \<longrightarrow>
          unpack_rr_section p off n = Ok (m_additionals m, length p))"
proof -
  from assms obtain off where v: "12 \<le> length p"
    "unat (get_u16 p 4) = length (m_questions m)" "unat (get_u16 p 6) = length (m_answers m)"
    "unat (get_u16 p 8) = length (m_authorities m)" "unat (get_u16 p 10) = length (m_additionals m)"
    "unpack_questions p 12 (length (m_questions m)) = Ok (m_questions m, off)"
    "unpack_rr_section p off (length (msg_rrs m)) = Ok (msg_rrs m, length p)"
    by (rule msg_unpack_OkE)
  have ne: "p \<noteq> []" using v(1) by auto
  have tr: "traverse_rrs p o1 n (\<lambda>_ s. Ok s) () \<noteq> Panic" for o1 n
    using ne by (rule traverse_rrs_not_Panic) simp
  have np: "ecs_additional_start p \<noteq> Panic"
    using v(1) skip_name_not_Panic [OF ne, of 12] skip_name_bounds [of p 12] tr
    by (auto simp: ecs_additional_start_def qdcount_def ancount_def nscount_def arcount_def rbind_eq_Panic
        split: prod.splits)
  have "unpack_rr_section p o2 n = Ok (m_additionals m, length p)" if a: "ecs_additional_start p = Ok (o2, n)" for o2 n
  proof -
    from a obtain nx where q: "length p \<le> 4096" "get_u16 p 4 = 1" "skip_name p 12 = Ok nx" "n = unat (get_u16 p 10)"
      "traverse_rrs p (nx + 4) (unat (get_u16 p 6) + unat (get_u16 p 8)) (\<lambda>_ s. Ok s) () = Ok (o2, ())"
      by (auto simp: ecs_additional_start_def qdcount_def ancount_def nscount_def arcount_def)
    have one: "length (m_questions m) = 1" using v(2) q(2) by simp
    obtain nx' where e: "question_name_end p = Ok nx'" "off = nx' + 4"
      using single_question_end [of p "m_questions m" off] v(2,6) one q(1) by metis
    then have off: "off = nx + 4" using question_name_end_bounds [OF e(1)] q(3) by simp
    have len: "length (msg_rrs m) = (unat (get_u16 p 6) + unat (get_u16 p 8)) + n"
      using v(3-5) q(4) by (simp add: msg_rrs_def)
    with v(7) obtain rs1 o1 rs2 where s: "unpack_rr_section p off (unat (get_u16 p 6) + unat (get_u16 p 8)) = Ok (rs1, o1)"
      "unpack_rr_section p o1 n = Ok (rs2, length p)"
      using unpack_rr_section_split by metis
    have "traverse_rrs p off (unat (get_u16 p 6) + unat (get_u16 p 8)) (\<lambda>_ s. Ok s) () = Ok (o1, ())"
      using s(1) by (rule traverse_unit_unpack)
    then have "o1 = o2" using q(5) off by simp
    moreover have "(m_answers m @ m_authorities m) @ m_additionals m = rs1 @ rs2"
      using unpack_rr_section_append [OF s] v(7) len by (simp add: msg_rrs_def)
    then have "m_additionals m = rs2"
      using unpack_rr_section_wf [OF s(2)] q(4) v(5) by (subst (asm) append_eq_append_conv) auto
    ultimately show ?thesis using s(2) by simp
  qed
  with np show ?thesis by blast
qed

lemma add_ecs_not_Panic:
  assumes "msg_unpack p = Ok m"
  shows "snd (add_ecs_to_packet p ip p4 p6) \<noteq> Panic"
proof (cases "ecs_additional_start p")
  case (Ok a)
  then obtain off n where a: "ecs_additional_start p = Ok (off, n)" by (cases a) auto
  with ecs_additional_start_cases [OF assms] have "unpack_rr_section p off n = Ok (m_additionals m, length p)"
    by blast
  from find_opt_record_safe [OF this] show ?thesis
    using a by (auto simp: add_ecs_to_packet_def Let_def rbind_eq_Panic split: res.splits option.splits)
next
  case Panic
  with ecs_additional_start_cases [OF assms] show ?thesis by blast
qed (simp add: add_ecs_to_packet_def)

lemma add_ecs_cut_off: "snd (add_ecs_to_packet cut_off_query (V4 (Octets4 192 0 2 1)) 24 56) = Panic"
  by code_simp

subsection \<open>Properties of the client subnet\<close>

lemma sample_options: "rr_rdata (opt_rr sz []) = enc_options []" "is_root_opt (opt_rr sz opts)"
  by (simp_all add: opt_rr_def is_root_opt_def is_opt_def)

text \<open>
  C20 (refinement): on the packet of a well-formed one-question message with an OPT record for the
  root name among the additional records, whose data is a list of options, \<open>add_ecs_to_packet\<close>
  yields the packet of the message with the client subnet option appended to that record, and
  leaves the packet alone when the client sent a client subnet option itself.
\<close>

theorem add_ecs_refines_message_change:
  assumes "wf_msg m" "length (m_questions m) = 1" "length (enc_msg m) \<le> 4096"
    and "m_additionals m = rs @ r # ts" "list_all (\<lambda>x. \<not> is_root_opt x) rs" "is_root_opt r"
    and "rr_rdata r = enc_options opts" "list_all wf_option opts"
  shows "add_ecs_to_packet (enc_msg m) ip p4 p6 =
    (if EDNS_CLIENT_SUBNET \<in> fst ` set opts then enc_msg m
     else enc_msg (m\<lparr>m_additionals :=
       rs @ rr_add_option (EDNS_CLIENT_SUBNET, build_ecs_option ip p4 p6) r # ts\<rparr>), Ok ())"
  using assms by (rule add_ecs_enc)

theorem add_ecs_refines_message_change_witness:
  "add_ecs_to_packet (enc_msg (sample_query\<lparr>m_additionals := [opt_rr 4096 []]\<rparr>))
     (V4 (Octets4 192 0 2 1)) 24 56
   = (enc_msg (sample_query\<lparr>m_additionals := [opt_rr 4096 [0, 8, 0, 7, 0, 1, 24, 0, 192, 0, 2]]\<rparr>), Ok ())"
proof -
  let ?m = "sample_query\<lparr>m_additionals := [opt_rr 4096 []]\<rparr>"
  have "add_ecs_to_packet (enc_msg ?m) (V4 (Octets4 192 0 2 1)) 24 56 =
    (if EDNS_CLIENT_SUBNET \<in> fst ` set ([] :: edns_option list) then enc_msg ?m
     else enc_msg (?m\<lparr>m_additionals := [] @ rr_add_option (EDNS_CLIENT_SUBNET,
       build_ecs_option (V4 (Octets4 192 0 2 1)) 24 56) (opt_rr 4096 []) # []\<rparr>), Ok ())"
    using sample_query_one_question sample_options
    by (intro add_ecs_refines_message_change)
      (simp_all add: wf_sample_additionals length_sample_additionals sample_opt)
  then show ?thesis
    by (simp add: rr_add_option_def opt_rr_def enc_option_def EDNS_CLIENT_SUBNET_def FAMILY_IPV4_def
        u16_be_def div_ceil8_def)
qed

text \<open>
  on a packet that \<open>Msg::unpack\<close> accepts, the insertion of the client subnet never
  reads or writes out of range, whatever the address and the prefixes.
\<close>

lemma add_ecs_safe_on_decodable:
  assumes "msg_unpack p = Ok m"
  shows "snd (add_ecs_to_packet p client_ip prefix_v4 prefix_v6) \<noteq> Panic"
  using assms by (rule add_ecs_not_Panic)

lemma take_eq_iff_nth:
  "m \<le> length xs \<Longrightarrow> m \<le> length ys \<Longrightarrow> take m xs = take m ys \<longleftrightarrow> (\<forall>i < m. xs ! i = ys ! i)"
  by (auto simp: list_eq_iff_nth_eq)

lemma all_less_Suc4: "(\<forall>i < Suc (Suc (Suc (Suc 0))). P i) \<longleftrightarrow> P 0 \<and> P 1 \<and> P 2 \<and> P (3 :: nat)"
  by (auto simp: less_Suc_eq numeral_eq_Suc)

text \<open>
  C24 (equivalence): what the client subnet option tells of an address. Two clients of one family send
  the same option exactly when their addresses agree on every octet that holds a bit of the prefix:
  all octets in which the prefix ends or reaches are sent whole, with the bits behind the prefix, and
  no other octet is. A prefix as long as the address sends the whole address.
\<close>

theorem ecs_option_tells_whole_octets:
  assumes "same_family ip ip'"
  shows "build_ecs_option ip prefix_v4 prefix_v6 = build_ecs_option ip' prefix_v4 prefix_v6 \<longleftrightarrow>
    (\<forall>i < length (ip_octets ip). 8 * i < prefix_length ip prefix_v4 prefix_v6 \<longrightarrow> ip_octets ip ! i = ip_octets ip' ! i)"
proof -
  have "take (min (div_ceil8 k) n) xs = take (min (div_ceil8 k) n) ys \<longleftrightarrow> (\<forall>i < n. 8 * i < unat k \<longrightarrow> xs ! i = ys ! i)"
    if "length xs = n" "length ys = n" for k n and xs ys :: packet
  proof -
    have "i < min (div_ceil8 k) n \<longleftrightarrow> i < n \<and> 8 * i < unat k" for i
      by (auto simp: div_ceil8_def)
    moreover have "take (min (div_ceil8 k) n) xs = take (min (div_ceil8 k) n) ys \<longleftrightarrow>
        (\<forall>i < min (div_ceil8 k) n. xs ! i = ys ! i)"
      using that by (intro take_eq_iff_nth) simp_all
    ultimately show ?thesis by auto
  qed
  then show ?thesis using assms length_ip_octets
    by (cases ip; cases ip') (simp_all del: ip_octets.simps)
qed

theorem ecs_option_tells_whole_octets_witness:
  "build_ecs_option (V4 (Octets4 192 0 2 1)) 24 56 = build_ecs_option (V4 (Octets4 192 0 2 99)) 24 56
   \<and> build_ecs_option (V4 (Octets4 192 0 16 1)) 20 56 \<noteq> build_ecs_option (V4 (Octets4 192 0 17 1)) 20 56"
  using ecs_option_tells_whole_octets [of "V4 (Octets4 192 0 2 1)" "V4 (Octets4 192 0 2 99)" 24 56]
    ecs_option_tells_whole_octets [of "V4 (Octets4 192 0 16 1)" "V4 (Octets4 192 0 17 1)" 20 56]
  by (simp add: all_less_Suc4)

end
