(* ===== verification/Fast_Ip_Cache.thy ===== *)
theory Fast_Ip_Cache
  imports Msg "HOL-Library.AList"
begin

text \<open>
  The cache of address probes (\<open>FastestIpCache\<close> of \<open>src/libdoh/src/globals.rs\<close>): a hash map whose
  nodes are linked into a list from the most to the least recently used address by the keys of
  their neighbours. The hash map is an association list with distinct keys; a missing key is the
  \<open>None\<close> of \<open>map_of\<close>, as \<open>HashMap::get\<close> gives it.

  The specification is a plain list of addresses and entries, most recent first. The lemmas show
  that the linked structure implements it: after every sequence of operations the links describe
  that list, the eviction loop ends, and the map never holds more than \<open>max_size\<close> addresses.
\<close>

subsection \<open>The cache\<close>

datatype FastIpCacheStatus = Success | Failure

record FastIpCacheEntry =
  e_status :: FastIpCacheStatus
  e_latency_ms :: u32
  e_expire_at_ms :: u64

definition FASTEST_IP_CACHE_MAX_SIZE :: nat where
  "FASTEST_IP_CACHE_MAX_SIZE = 64 * 1024"

record FastIpCacheNode =
  n_entry :: FastIpCacheEntry
  n_prev :: "ip_addr option"
  n_next :: "ip_addr option"

record FastestIpCache =
  c_max_size :: nat
  c_head :: "ip_addr option"
  c_tail :: "ip_addr option"
  c_entries :: "(ip_addr \<times> FastIpCacheNode) list"

definition with_max_size :: "nat \<Rightarrow> FastestIpCache" where
  "with_max_size n = \<lparr>c_max_size = max n 1, c_head = None, c_tail = None, c_entries = []\<rparr>"

text \<open>\<open>entries.get\<close>, and \<open>entries.get_mut\<close> followed by an update of the node.\<close>

definition cache_node :: "FastestIpCache \<Rightarrow> ip_addr \<Rightarrow> FastIpCacheNode option" where
  "cache_node c k = map_of (c_entries c) k"

definition cache_modify ::
  "ip_addr \<Rightarrow> (FastIpCacheNode \<Rightarrow> FastIpCacheNode) \<Rightarrow> FastestIpCache \<Rightarrow> FastestIpCache" where
  "cache_modify k f c = c\<lparr>c_entries := AList.map_entry k f (c_entries c)\<rparr>"

definition cache_detach ::
  "FastestIpCache \<Rightarrow> ip_addr \<Rightarrow> ip_addr option \<Rightarrow> ip_addr option \<Rightarrow> FastestIpCache" where
  "cache_detach c k prev nxt =
    (let c = (case prev of
                Some p \<Rightarrow> cache_modify p (\<lambda>n. n\<lparr>n_next := nxt\<rparr>) c
              | None \<Rightarrow> c\<lparr>c_head := nxt\<rparr>);
         c = (case nxt of
                Some n \<Rightarrow> cache_modify n (\<lambda>m. m\<lparr>n_prev := prev\<rparr>) c
              | None \<Rightarrow> c\<lparr>c_tail := prev\<rparr>)
     in cache_modify k (\<lambda>n. n\<lparr>n_prev := None, n_next := None\<rparr>) c)"

definition cache_move_to_front :: "FastestIpCache \<Rightarrow> ip_addr \<Rightarrow> FastestIpCache" where
  "cache_move_to_front c k =
    (if c_head c = Some k then c
     else case cache_node c k of
       None \<Rightarrow> c
     | Some node \<Rightarrow>
         let c = cache_detach c k (n_prev node) (n_next node);
             old_head = c_head c;
             c = cache_modify k (\<lambda>n. n\<lparr>n_prev := None, n_next := old_head\<rparr>) c;
             c = (case old_head of
                    Some h \<Rightarrow> cache_modify h (\<lambda>n. n\<lparr>n_prev := Some k\<rparr>) c
                  | None \<Rightarrow> c\<lparr>c_tail := Some k\<rparr>)
         in c\<lparr>c_head := Some k\<rparr>)"

definition cache_remove :: "FastestIpCache \<Rightarrow> ip_addr \<Rightarrow> FastestIpCache \<times> FastIpCacheEntry option" where
  "cache_remove c k =
    (case cache_node c k of
       None \<Rightarrow> (c, None)
     | Some node \<Rightarrow>
         let c = cache_detach c k (n_prev node) (n_next node) in
         (c\<lparr>c_entries := AList.delete k (c_entries c)\<rparr>, map_option n_entry (cache_node c k)))"

text \<open>The eviction loop; \<^term>\<open>None\<close> would mean that it does not end.\<close>

partial_function (option) cache_evict_if_needed :: "FastestIpCache \<Rightarrow> FastestIpCache option" where
  "cache_evict_if_needed c =
    (if length (c_entries c) > c_max_size c then
       (case c_tail c of
          None \<Rightarrow> Some c
        | Some t \<Rightarrow> cache_evict_if_needed (fst (cache_remove c t)))
     else Some c)"

definition cache_get :: "FastestIpCache \<Rightarrow> ip_addr \<Rightarrow> u64 \<Rightarrow> FastestIpCache \<times> FastIpCacheEntry option" where
  "cache_get c k now_ms =
    (case cache_node c k of
       None \<Rightarrow> (c, None)
     | Some node \<Rightarrow>
         if e_expire_at_ms (n_entry node) \<le> now_ms then (fst (cache_remove c k), None)
         else (cache_move_to_front c k, Some (n_entry node)))"

definition cache_upsert :: "FastestIpCache \<Rightarrow> ip_addr \<Rightarrow> FastIpCacheEntry \<Rightarrow> FastestIpCache option" where
  "cache_upsert c k entry =
    (case cache_node c k of
       Some _ \<Rightarrow> Some (cache_move_to_front (cache_modify k (\<lambda>n. n\<lparr>n_entry := entry\<rparr>) c) k)
     | None \<Rightarrow>
         let old_head = c_head c;
             c = c\<lparr>c_entries :=
               AList.update k \<lparr>n_entry = entry, n_prev = None, n_next = old_head\<rparr> (c_entries c)\<rparr>;
             c = (case old_head of
                    Some h \<Rightarrow> cache_modify h (\<lambda>n. n\<lparr>n_prev := Some k\<rparr>) c
                  | None \<Rightarrow> c\<lparr>c_tail := Some k\<rparr>)
         in cache_evict_if_needed (c\<lparr>c_head := Some k\<rparr>))"

subsection \<open>The specification: a list, most recent first\<close>

type_synonym lru = "(ip_addr \<times> FastIpCacheEntry) list"

definition lru_remove :: "lru \<Rightarrow> ip_addr \<Rightarrow> lru \<times> FastIpCacheEntry option" where
  "lru_remove xs k = (AList.delete k xs, map_of xs k)"

definition lru_get :: "lru \<Rightarrow> ip_addr \<Rightarrow> u64 \<Rightarrow> lru \<times> FastIpCacheEntry option" where
  "lru_get xs k now =
    (case map_of xs k of
       None \<Rightarrow> (xs, None)
     | Some e \<Rightarrow> if e_expire_at_ms e \<le> now then (AList.delete k xs, None)
                else ((k, e) # AList.delete k xs, Some e))"

definition lru_upsert :: "nat \<Rightarrow> lru \<Rightarrow> ip_addr \<Rightarrow> FastIpCacheEntry \<Rightarrow> lru" where
  "lru_upsert n xs k e =
    (if map_of xs k = None then take n ((k, e) # xs) else (k, e) # AList.delete k xs)"

text \<open>Operations as data, and runs of the cache and of the specification.\<close>

datatype cache_op = OpGet ip_addr u64 | OpUpsert ip_addr FastIpCacheEntry | OpRemove ip_addr

fun cache_step :: "cache_op \<Rightarrow> FastestIpCache \<Rightarrow> (FastestIpCache \<times> FastIpCacheEntry option) option" where
  "cache_step (OpGet k now) c = Some (cache_get c k now)"
| "cache_step (OpUpsert k e) c = map_option (\<lambda>c. (c, None)) (cache_upsert c k e)"
| "cache_step (OpRemove k) c = Some (cache_remove c k)"

fun lru_step :: "nat \<Rightarrow> cache_op \<Rightarrow> lru \<Rightarrow> lru \<times> FastIpCacheEntry option" where
  "lru_step n (OpGet k now) xs = lru_get xs k now"
| "lru_step n (OpUpsert k e) xs = (lru_upsert n xs k e, None)"
| "lru_step n (OpRemove k) xs = lru_remove xs k"

fun cache_run :: "cache_op list \<Rightarrow> FastestIpCache \<Rightarrow> (FastestIpCache \<times> FastIpCacheEntry option list) option" where
  "cache_run [] c = Some (c, [])"
| "cache_run (op # ops) c =
    (case cache_step op c of
       None \<Rightarrow> None
     | Some (c', r) \<Rightarrow> map_option (\<lambda>(c'', rs). (c'', r # rs)) (cache_run ops c'))"

fun lru_run :: "nat \<Rightarrow> cache_op list \<Rightarrow> lru \<Rightarrow> lru \<times> FastIpCacheEntry option list" where
  "lru_run n [] xs = (xs, [])"
| "lru_run n (op # ops) xs =
    (let (xs', r) = lru_step n op xs; (xs'', rs) = lru_run n ops xs' in (xs'', r # rs))"

subsection \<open>When the links describe a list\<close>

definition firstk :: "lru \<Rightarrow> ip_addr option \<Rightarrow> ip_addr option" where
  "firstk xs n = (case xs of [] \<Rightarrow> n | (k, _) # _ \<Rightarrow> Some k)"

definition lastk :: "ip_addr option \<Rightarrow> lru \<Rightarrow> ip_addr option" where
  "lastk p xs = (if xs = [] then p else Some (fst (last xs)))"

fun chain :: "ip_addr option \<Rightarrow> lru \<Rightarrow> ip_addr option \<Rightarrow> (ip_addr \<Rightarrow> FastIpCacheNode option) \<Rightarrow> bool" where
  "chain p [] n m = True"
| "chain p ((k, e) # xs) n m \<longleftrightarrow>
    m k = Some \<lparr>n_entry = e, n_prev = p, n_next = firstk xs n\<rparr> \<and> chain (Some k) xs n m"

definition linked :: "FastestIpCache \<Rightarrow> lru \<Rightarrow> bool" where
  "linked c xs \<longleftrightarrow> distinct (map fst xs) \<and> c_head c = firstk xs None \<and> c_tail c = lastk None xs
     \<and> chain None xs None (cache_node c)"

text \<open>The cache represents the list: the links describe it and the map has no other keys.\<close>

definition represents :: "FastestIpCache \<Rightarrow> lru \<Rightarrow> bool" where
  "represents c xs \<longleftrightarrow> linked c xs \<and> distinct (map fst (c_entries c))
     \<and> fst ` set (c_entries c) = fst ` set xs \<and> 0 < c_max_size c"

text \<open>Changing the link of the last node, or of the first.\<close>

definition relink :: "ip_addr option \<Rightarrow> (FastIpCacheNode \<Rightarrow> FastIpCacheNode) \<Rightarrow>
    (ip_addr \<Rightarrow> FastIpCacheNode option) \<Rightarrow> ip_addr \<Rightarrow> FastIpCacheNode option" where
  "relink k f m = (case k of None \<Rightarrow> m | Some k \<Rightarrow> m(k := map_option f (m k)))"

text \<open>The address is in the list and every address before it is among the given ones.\<close>

definition only_behind :: "ip_addr set \<Rightarrow> ip_addr \<Rightarrow> FastIpCacheEntry \<Rightarrow> lru \<Rightarrow> bool" where
  "only_behind T k e xs \<longleftrightarrow> (\<exists>as bs. xs = as @ (k, e) # bs \<and> fst ` set as \<subseteq> T \<and> distinct (map fst xs))"

text \<open>Pushing a node that is in the map but in no link to the front.\<close>

definition cache_push :: "FastestIpCache \<Rightarrow> ip_addr \<Rightarrow> FastestIpCache" where
  "cache_push c k =
    (let old_head = c_head c;
         c = (case old_head of
                Some h \<Rightarrow> cache_modify h (\<lambda>n. n\<lparr>n_prev := Some k\<rparr>) c
              | None \<Rightarrow> c\<lparr>c_tail := Some k\<rparr>)
     in c\<lparr>c_head := Some k\<rparr>)"

lemma firstk_simps [simp]:
  "firstk [] n = n" "firstk ((k, e) # xs) n = Some k" "firstk (xs @ ys) n = firstk xs (firstk ys n)"
  by (auto simp: firstk_def split: list.splits)

lemma lastk_simps [simp]:
  "lastk p [] = p" "lastk p ((k, e) # xs) = lastk (Some k) xs" "lastk p (xs @ ys) = lastk (lastk p xs) ys"
  by (auto simp: lastk_def)

lemma firstk_Some: "firstk xs n = Some k \<Longrightarrow> n = Some k \<or> k \<in> fst ` set xs"
  by (cases xs) auto

lemma lastk_Some: "lastk p xs = Some k \<Longrightarrow> p = Some k \<or> k \<in> fst ` set xs"
  by (auto simp: lastk_def split: if_splits)

lemma chain_append:
  "chain p (xs @ ys) n m \<longleftrightarrow> chain p xs (firstk ys n) m \<and> chain (lastk p xs) ys n m"
  by (induction xs arbitrary: p) auto

lemma chain_cong: "(\<And>k. k \<in> fst ` set xs \<Longrightarrow> m k = m' k) \<Longrightarrow> chain p xs n m = chain p xs n m'"
  by (induction xs arbitrary: p) auto

lemma chain_map_of: "chain p xs n m \<Longrightarrow> distinct (map fst xs) \<Longrightarrow> k \<in> fst ` set xs \<Longrightarrow>
    map_option n_entry (m k) = map_of xs k"
proof (induction xs arbitrary: p)
  case (Cons x xs)
  then show ?case by (cases x; cases "k = fst x") auto
qed simp

lemma relink_other: "k \<noteq> Some j \<Longrightarrow> relink k f m j = m j"
  by (auto simp: relink_def split: option.splits)

lemma relink_same: "relink (Some k) f m k = map_option f (m k)"
  by (simp add: relink_def)

lemma chain_relink_last:
  "chain p xs n m \<Longrightarrow> distinct (map fst xs) \<Longrightarrow>
   chain p xs n' (relink (lastk None xs) (\<lambda>x. x\<lparr>n_next := n'\<rparr>) m)"
proof (induction xs rule: rev_induct)
  case (snoc x xs)
  obtain k e where x: "x = (k, e)" by (cases x)
  have "chain p xs (Some k) m" using snoc.prems(1) x by (simp add: chain_append)
  moreover have "relink (Some k) (\<lambda>x. x\<lparr>n_next := n'\<rparr>) m j = m j" if "j \<in> fst ` set xs" for j
    using snoc.prems(2) x that by (intro relink_other) auto
  ultimately have "chain p xs (Some k) (relink (Some k) (\<lambda>x. x\<lparr>n_next := n'\<rparr>) m)"
    by (subst chain_cong [where m' = m]) simp_all
  then show ?case using snoc.prems(1) x by (simp add: chain_append relink_same)
qed simp

lemma chain_relink_first:
  assumes "chain p xs n m" "distinct (map fst xs)"
  shows "chain p' xs n (relink (firstk xs None) (\<lambda>x. x\<lparr>n_prev := p'\<rparr>) m)"
proof (cases xs)
  case (Cons x ys)
  obtain k e where x: "x = (k, e)" by (cases x)
  have "relink (Some k) (\<lambda>x. x\<lparr>n_prev := p'\<rparr>) m j = m j" if "j \<in> fst ` set ys" for j
    using assms(2) Cons x that by (intro relink_other) auto
  then have "chain (Some k) ys n (relink (Some k) (\<lambda>x. x\<lparr>n_prev := p'\<rparr>) m)"
    using assms(1) Cons x by (subst chain_cong [where m' = m]) simp_all
  then show ?thesis using assms(1) Cons x by (simp add: relink_same)
qed simp

lemma chain_relink_other:
  "(\<And>j. k = Some j \<Longrightarrow> j \<notin> fst ` set xs) \<Longrightarrow> chain p xs n (relink k f m) = chain p xs n m"
  by (rule chain_cong) (metis relink_other)

subsection \<open>Unlinking and pushing a node\<close>

lemma map_fst_map_entry [simp]: "map fst (AList.map_entry k f xs) = map fst xs"
  by (induction k f xs rule: AList.map_entry.induct) auto

lemma cache_modify_simps [simp]:
  "cache_node (cache_modify k f c) = relink (Some k) f (cache_node c)"
  "c_head (cache_modify k f c) = c_head c" "c_tail (cache_modify k f c) = c_tail c"
  "c_max_size (cache_modify k f c) = c_max_size c"
  "map fst (c_entries (cache_modify k f c)) = map fst (c_entries c)"
  by (auto simp: cache_modify_def cache_node_def relink_def map_of_map_entry fun_eq_iff
      split: option.splits)

lemma cache_node_updates [simp]:
  "cache_node (c\<lparr>c_head := h\<rparr>) = cache_node c" "cache_node (c\<lparr>c_tail := t\<rparr>) = cache_node c"
  by (simp_all add: cache_node_def fun_eq_iff)

lemma cache_detach_simps [simp]:
  "cache_node (cache_detach c k p n) = relink (Some k) (\<lambda>x. x\<lparr>n_prev := None, n_next := None\<rparr>)
     (relink n (\<lambda>x. x\<lparr>n_prev := p\<rparr>) (relink p (\<lambda>x. x\<lparr>n_next := n\<rparr>) (cache_node c)))"
  "c_head (cache_detach c k p n) = (if p = None then n else c_head c)"
  "c_tail (cache_detach c k p n) = (if n = None then p else c_tail c)"
  "c_max_size (cache_detach c k p n) = c_max_size c"
  "map fst (c_entries (cache_detach c k p n)) = map fst (c_entries c)"
  by (cases p; cases n; simp add: cache_detach_def Let_def relink_def)+

lemma linked_nth:
  assumes "linked c (as @ (k, e) # bs)"
  shows "cache_node c k = Some \<lparr>n_entry = e, n_prev = lastk None as, n_next = firstk bs None\<rparr>"
  using assms by (simp add: linked_def chain_append)

lemma linked_detach:
  assumes "linked c (as @ (k, e) # bs)"
  defines "c' \<equiv> cache_detach c k (lastk None as) (firstk bs None)"
  shows "linked c' (as @ bs)" "cache_node c' k = Some \<lparr>n_entry = e, n_prev = None, n_next = None\<rparr>"
proof -
  let ?m = "cache_node c" and ?p = "lastk None as" and ?n = "firstk bs None"
  let ?m1 = "relink ?p (\<lambda>x. x\<lparr>n_next := ?n\<rparr>) ?m"
  let ?m2 = "relink ?n (\<lambda>x. x\<lparr>n_prev := ?p\<rparr>) ?m1"
  have d: "distinct (map fst as)" "distinct (map fst bs)" "k \<notin> fst ` set as" "k \<notin> fst ` set bs"
    "fst ` set as \<inter> fst ` set bs = {}"
    using assms(1) by (auto simp: linked_def)
  have ch: "chain None as (Some k) ?m" "chain (Some k) bs None ?m" "?m k = Some \<lparr>n_entry = e, n_prev = ?p, n_next = ?n\<rparr>"
    using assms(1) by (simp_all add: linked_def chain_append)
  have p: "j \<in> fst ` set as" if "?p = Some j" for j using lastk_Some [OF that] by simp
  have n: "j \<in> fst ` set bs" if "?n = Some j" for j using firstk_Some [OF that] by simp
  have "chain None as ?n ?m1" using ch(1) d(1) by (rule chain_relink_last)
  then have as: "chain None as ?n ?m2" using n d(5) by (subst chain_relink_other) auto
  have "chain (Some k) bs None ?m1" using ch(2) p d(5) by (subst chain_relink_other) auto
  then have bs: "chain ?p bs None ?m2" using d(2) by (rule chain_relink_first)
  have ends: "c_head c' = firstk (as @ bs) None" "c_tail c' = lastk None (as @ bs)"
    using assms(1) by (cases as; cases bs; auto simp: linked_def c'_def lastk_def)+
  have "chain None as ?n (cache_node c')" "chain ?p bs None (cache_node c')"
    unfolding c'_def cache_detach_simps using as bs d(3,4)
    by (subst chain_relink_other, auto)+
  with ends d show "linked c' (as @ bs)" by (simp add: linked_def chain_append)
  have "?m2 k = ?m k"
    using p n d(3,4) by (subst relink_other, blast)+ blast
  with ch(3) show "cache_node c' k = Some \<lparr>n_entry = e, n_prev = None, n_next = None\<rparr>"
    by (simp add: c'_def relink_same)
qed

lemma cache_push_simps [simp]:
  "cache_node (cache_push c k) = relink (c_head c) (\<lambda>x. x\<lparr>n_prev := Some k\<rparr>) (cache_node c)"
  "c_head (cache_push c k) = Some k"
  "c_tail (cache_push c k) = (if c_head c = None then Some k else c_tail c)"
  "c_max_size (cache_push c k) = c_max_size c"
  "map fst (c_entries (cache_push c k)) = map fst (c_entries c)"
  by (cases "c_head c"; simp add: cache_push_def Let_def relink_def)+

lemma linked_push:
  assumes "linked c xs" "k \<notin> fst ` set xs"
    and "cache_node c k = Some \<lparr>n_entry = e, n_prev = None, n_next = firstk xs None\<rparr>"
  shows "linked (cache_push c k) ((k, e) # xs)"
proof -
  have l: "distinct (map fst xs)" "c_head c = firstk xs None" "c_tail c = lastk None xs"
    "chain None xs None (cache_node c)" using assms(1) by (auto simp: linked_def)
  have "chain (Some k) xs None (cache_node (cache_push c k))"
    using chain_relink_first [OF l(4,1)] l(2) by simp
  moreover have "c_head c \<noteq> Some k" using l(2) assms(2) firstk_Some [of xs None k] by auto
  then have "cache_node (cache_push c k) k = cache_node c k" by (simp add: relink_other)
  moreover have "c_tail (cache_push c k) = lastk (Some k) xs"
    using l(2,3) by (cases xs) auto
  ultimately show ?thesis using assms(2,3) l(1) by (auto simp: linked_def)
qed

lemma linked_map_of:
  assumes "linked c xs" "distinct (map fst (c_entries c))" "fst ` set (c_entries c) = fst ` set xs"
  shows "map_option n_entry (cache_node c k) = map_of xs k"
proof (cases "k \<in> fst ` set xs")
  case True
  then show ?thesis using chain_map_of [of None xs None "cache_node c" k] assms(1) by (simp add: linked_def)
next
  case False
  then have "map_of (c_entries c) k = None" "map_of xs k = None"
    using assms(3) by (simp_all add: map_of_eq_None_iff)
  then show ?thesis by (simp add: cache_node_def)
qed

lemma represents_map_of: "represents c xs \<Longrightarrow> map_option n_entry (cache_node c k) = map_of xs k"
  by (simp add: represents_def linked_map_of)

lemma represents_length: "represents c xs \<Longrightarrow> length (c_entries c) = length xs"
  unfolding represents_def linked_def
  by (metis distinct_card length_map set_map)

lemma lru_split:
  assumes "distinct (map fst xs)" "map_of xs k = Some e"
  obtains as bs where "xs = as @ (k, e) # bs" "AList.delete k xs = as @ bs" "k \<notin> fst ` set (as @ bs)"
proof -
  obtain as bs where s: "xs = as @ (k, e) # bs" using map_of_SomeD [OF assms(2)] by (metis split_list)
  with assms(1) have k: "k \<notin> fst ` set as" "k \<notin> fst ` set bs" by auto
  then have "AList.delete k as = as" "AList.delete k bs = bs" by simp_all
  then have "AList.delete k xs = as @ bs" unfolding s AList.delete_eq by simp
  with k s show thesis by (intro that [of as bs]) auto
qed

text \<open>A key in the map: its node, and what unlinking it leaves.\<close>

lemma represents_split:
  assumes "represents c xs" "cache_node c k = Some node"
  obtains as bs where "xs = as @ (k, n_entry node) # bs" "AList.delete k xs = as @ bs"
    "k \<notin> fst ` set (as @ bs)" "n_prev node = lastk None as" "n_next node = firstk bs None"
proof -
  have l: "linked c xs" using assms(1) by (simp add: represents_def)
  have "map_of xs k = Some (n_entry node)" using represents_map_of [OF assms(1), of k] assms(2) by simp
  moreover have "distinct (map fst xs)" using l by (simp add: linked_def)
  ultimately obtain as bs where s: "xs = as @ (k, n_entry node) # bs" "AList.delete k xs = as @ bs"
    "k \<notin> fst ` set (as @ bs)"
    using lru_split by metis
  have "node = \<lparr>n_entry = n_entry node, n_prev = lastk None as, n_next = firstk bs None\<rparr>"
    using linked_nth [of c as k "n_entry node" bs] l assms(2) s(1) by simp
  from arg_cong [OF this, of n_prev] arg_cong [OF this, of n_next] s show thesis
    by (intro that [of as bs]) simp_all
qed

lemma keys_eq: "map fst xs = map fst ys \<Longrightarrow> fst ` set xs = fst ` set ys"
  by (metis set_map)

lemma keys_delete: "fst ` set (AList.delete k al) = fst ` set al - {k}"
  by (metis AList.delete_keys set_map set_removeAll)

lemma represents_detach:
  assumes "represents c (as @ (k, e) # bs)"
  defines "c' \<equiv> cache_detach c k (lastk None as) (firstk bs None)"
  shows "linked c' (as @ bs)" "map fst (c_entries c') = map fst (c_entries c)"
    "cache_node c' k = Some \<lparr>n_entry = e, n_prev = None, n_next = None\<rparr>" "c_max_size c' = c_max_size c"
  using linked_detach [of c as k e bs] assms(1) unfolding c'_def represents_def by auto

lemma cache_remove_refines:
  assumes "represents c xs"
  shows "represents (fst (cache_remove c k)) (fst (lru_remove xs k))
    \<and> snd (cache_remove c k) = snd (lru_remove xs k)
    \<and> c_max_size (fst (cache_remove c k)) = c_max_size c"
proof (cases "cache_node c k")
  case None
  then have "map_of xs k = None" using represents_map_of [OF assms, of k] by simp
  then have "AList.delete k xs = xs" by (simp add: map_of_eq_None_iff)
  with None \<open>map_of xs k = None\<close> assms show ?thesis by (simp add: cache_remove_def lru_remove_def)
next
  case (Some node)
  from represents_split [OF assms Some] obtain as bs where s: "xs = as @ (k, n_entry node) # bs"
    "AList.delete k xs = as @ bs" "k \<notin> fst ` set (as @ bs)" "n_prev node = lastk None as"
    "n_next node = firstk bs None" by blast
  let ?c = "cache_detach c k (n_prev node) (n_next node)"
  note d = represents_detach [of c as k "n_entry node" bs, folded s(1,4,5), OF assms]
  let ?c' = "?c\<lparr>c_entries := AList.delete k (c_entries ?c)\<rparr>"
  have node: "cache_node ?c' j = (if j = k then None else cache_node ?c j)" for j
    by (simp add: cache_node_def AList.delete_conv' del: cache_detach_simps(1))
  have "chain None (as @ bs) None (cache_node ?c')"
    using d(1) s(3) node by (subst chain_cong [where m' = "cache_node ?c"]) (auto simp: linked_def)
  then have "linked ?c' (as @ bs)" using d(1) by (simp add: linked_def)
  moreover have "fst ` set (c_entries ?c') = fst ` set (as @ bs)"
    using assms s(1,3) keys_eq [OF d(2)] by (auto simp: represents_def keys_delete)
  moreover have "distinct (map fst (c_entries ?c'))"
    using assms d(2) by (simp add: represents_def AList.distinct_delete)
  moreover have "map_of xs k = Some (n_entry node)" using represents_map_of [OF assms, of k] Some by simp
  ultimately show ?thesis
    using Some s(2) d(3,4) assms by (simp add: cache_remove_def lru_remove_def represents_def Let_def)
qed

lemma cache_move_to_front_refines:
  assumes "represents c xs" "map_of xs k = Some e"
  shows "represents (cache_move_to_front c k) ((k, e) # AList.delete k xs)
    \<and> c_max_size (cache_move_to_front c k) = c_max_size c"
proof -
  obtain node where node: "cache_node c k = Some node" "n_entry node = e"
    using represents_map_of [OF assms(1), of k] assms(2) by auto
  from represents_split [OF assms(1) node(1)] obtain as bs where s: "xs = as @ (k, e) # bs"
    "AList.delete k xs = as @ bs" "k \<notin> fst ` set (as @ bs)" "n_prev node = lastk None as"
    "n_next node = firstk bs None" using node(2) by blast
  show ?thesis
  proof (cases "c_head c = Some k")
    case True
    then have "as = []"
      using assms(1) s(1,3) by (cases as) (auto simp: represents_def linked_def)
    with True s(1,2) assms(1) show ?thesis by (simp add: cache_move_to_front_def)
  next
    case False
    let ?c = "cache_detach c k (n_prev node) (n_next node)"
    let ?c1 = "cache_modify k (\<lambda>n. n\<lparr>n_prev := None, n_next := c_head ?c\<rparr>) ?c"
    note d = represents_detach [of c as k e bs, folded s(1,4,5), OF assms(1)]
    have hd: "c_head ?c = firstk (as @ bs) None"
      using d(1) by (simp add: linked_def del: cache_detach_simps)
    have "chain None (as @ bs) None (cache_node ?c1)"
      using d(1) s(3) by (subst cache_modify_simps, subst chain_relink_other) (auto simp: linked_def)
    then have "linked ?c1 (as @ bs)" using d(1) by (simp add: linked_def)
    moreover have "cache_node ?c1 k = Some \<lparr>n_entry = e, n_prev = None, n_next = firstk (as @ bs) None\<rparr>"
      unfolding cache_modify_simps relink_same d(3) hd by simp
    ultimately have "linked (cache_push ?c1 k) ((k, e) # as @ bs)" using s(3) by (intro linked_push)
    moreover have "cache_move_to_front c k = cache_push ?c1 k"
      using False node(1)
      by (simp add: cache_move_to_front_def cache_push_def Let_def del: cache_detach_simps)
    moreover have "map fst (c_entries (cache_push ?c1 k)) = map fst (c_entries c)" using d(2) by simp
    moreover from keys_eq [OF this] have "fst ` set (c_entries (cache_push ?c1 k)) = fst ` set ((k, e) # as @ bs)"
      using assms(1) s(1) by (auto simp: represents_def)
    ultimately show ?thesis using assms(1) s(2) d(4) by (simp add: represents_def)
  qed
qed

subsection \<open>Eviction and the refinement of every operation\<close>

lemma cache_evict_refines:
  "represents c xs \<Longrightarrow> \<exists>c'. cache_evict_if_needed c = Some c'
     \<and> represents c' (take (c_max_size c) xs) \<and> c_max_size c' = c_max_size c"
proof (induction "length xs" arbitrary: c xs)
  case 0
  then show ?case
    by (subst cache_evict_if_needed.simps) (simp add: represents_length)
next
  case (Suc n)
  show ?case
  proof (cases "length xs > c_max_size c")
    case False
    with Suc.prems show ?thesis
      by (subst cache_evict_if_needed.simps) (simp add: represents_length)
  next
    case True
    obtain ys k e where xs: "xs = ys @ [(k, e)]" using Suc.hyps(2) by (cases xs rule: rev_cases) auto
    have k: "k \<notin> fst ` set ys" and t: "c_tail c = Some k"
      using Suc.prems xs by (auto simp: represents_def linked_def)
    have "AList.delete k ys = ys" using k by simp
    then have del: "AList.delete k xs = ys" unfolding xs AList.delete_eq by simp
    let ?c = "fst (cache_remove c k)"
    have r: "represents ?c ys" "c_max_size ?c = c_max_size c"
      using cache_remove_refines [OF Suc.prems, of k] del by (simp_all add: lru_remove_def)
    obtain c' where c': "cache_evict_if_needed ?c = Some c'" "represents c' (take (c_max_size c) ys)"
      "c_max_size c' = c_max_size c"
      using Suc.hyps(1) [of ys ?c] Suc.hyps(2) xs r by auto
    have "take (c_max_size c) xs = take (c_max_size c) ys" using True xs by simp
    with c' t True show ?thesis
      using represents_length [OF Suc.prems] by (subst cache_evict_if_needed.simps) simp
  qed
qed

lemma cache_get_refines:
  assumes "represents c xs"
  shows "represents (fst (cache_get c k now)) (fst (lru_get xs k now))
    \<and> snd (cache_get c k now) = snd (lru_get xs k now)
    \<and> c_max_size (fst (cache_get c k now)) = c_max_size c"
proof (cases "cache_node c k")
  case None
  then show ?thesis using assms represents_map_of [OF assms, of k] by (auto simp: cache_get_def lru_get_def)
next
  case (Some node)
  then have "map_of xs k = Some (n_entry node)" using represents_map_of [OF assms, of k] by simp
  with Some cache_remove_refines [OF assms, of k] cache_move_to_front_refines [OF assms, of k]
  show ?thesis by (simp add: cache_get_def lru_get_def lru_remove_def)
qed

lemma represents_set_entry:
  assumes "represents c xs" "map_of xs k = Some e0"
  shows "\<exists>xs'. represents (cache_modify k (\<lambda>n. n\<lparr>n_entry := e\<rparr>) c) xs'
    \<and> map_of xs' k = Some e \<and> AList.delete k xs' = AList.delete k xs"
proof -
  let ?c = "cache_modify k (\<lambda>n. n\<lparr>n_entry := e\<rparr>) c"
  have l: "linked c xs" and d: "distinct (map fst xs)" using assms(1) by (auto simp: represents_def linked_def)
  obtain as bs where s: "xs = as @ (k, e0) # bs" "AList.delete k xs = as @ bs" "k \<notin> fst ` set (as @ bs)"
    using lru_split [OF d assms(2)] by metis
  let ?xs = "as @ (k, e) # bs"
  have "chain None as (Some k) (cache_node ?c)" "chain (Some k) bs None (cache_node ?c)"
    using l s(1,3) chain_relink_other [of "Some k" as] chain_relink_other [of "Some k" bs]
    by (auto simp: linked_def chain_append)
  moreover have "cache_node ?c k = Some \<lparr>n_entry = e, n_prev = lastk None as, n_next = firstk bs None\<rparr>"
    using linked_nth [of c as k e0 bs] l s(1) by (simp add: relink_same)
  ultimately have "linked ?c ?xs" using l s(1) by (simp add: linked_def chain_append)
  moreover have "fst ` set (c_entries ?c) = fst ` set ?xs"
    using assms(1) s(1) keys_eq [of "c_entries ?c" "c_entries c"] by (simp add: represents_def)
  ultimately have "represents ?c ?xs" using assms(1) by (simp add: represents_def)
  moreover have "k \<notin> fst ` set as" "k \<notin> fst ` set bs" using s(3) by auto
  then have "AList.delete k as = as" "AList.delete k bs = bs" by simp_all
  then have "AList.delete k ?xs = as @ bs" unfolding AList.delete_eq by simp
  moreover have "map_of as k = None" using s(3) by (auto simp: map_of_eq_None_iff)
  then have "map_of ?xs k = Some e" by (simp add: map_add_def)
  ultimately show ?thesis using s(2) by metis
qed

lemma cache_upsert_refines:
  assumes "represents c xs"
  shows "\<exists>c'. cache_upsert c k e = Some c' \<and> represents c' (lru_upsert (c_max_size c) xs k e)
    \<and> c_max_size c' = c_max_size c"
proof (cases "cache_node c k")
  case (Some node)
  then have m: "map_of xs k = Some (n_entry node)" using represents_map_of [OF assms, of k] by simp
  let ?c = "cache_modify k (\<lambda>n. n\<lparr>n_entry := e\<rparr>) c"
  obtain xs' where x: "represents ?c xs'" "map_of xs' k = Some e" "AList.delete k xs' = AList.delete k xs"
    using represents_set_entry [OF assms m] by blast
  from cache_move_to_front_refines [OF x(1,2)] x(3) Some m show ?thesis
    by (simp add: cache_upsert_def lru_upsert_def)
next
  case None
  then have m: "map_of xs k = None" using represents_map_of [OF assms, of k] by simp
  then have k: "k \<notin> fst ` set xs" by (simp add: map_of_eq_None_iff)
  let ?node = "\<lparr>n_entry = e, n_prev = None, n_next = c_head c\<rparr>"
  let ?c = "c\<lparr>c_entries := AList.update k ?node (c_entries c)\<rparr>"
  have l: "linked c xs" "distinct (map fst (c_entries c))" "fst ` set (c_entries c) = fst ` set xs"
    using assms by (auto simp: represents_def)
  have node: "cache_node ?c = (cache_node c)(k := Some ?node)"
    by (simp add: cache_node_def AList.update_conv' fun_eq_iff)
  have "chain None xs None (cache_node ?c)"
    using l(1) k node by (subst chain_cong [where m' = "cache_node c"]) (auto simp: linked_def)
  then have "linked ?c xs" using l(1) by (simp add: linked_def)
  moreover have "c_head c = firstk xs None" using l(1) by (simp add: linked_def)
  ultimately have "linked (cache_push ?c k) ((k, e) # xs)"
    using k node by (intro linked_push) simp_all
  moreover have ks: "map fst (c_entries (cache_push ?c k)) = map fst (AList.update k ?node (c_entries c))"
    by simp
  moreover have "fst ` set (c_entries (cache_push ?c k)) = fst ` set ((k, e) # xs)"
    using keys_eq [OF ks] l(3) by (simp add: AList.dom_update)
  ultimately have "represents (cache_push ?c k) ((k, e) # xs)"
    using assms by (simp add: represents_def AList.distinct_update)
  from cache_evict_refines [OF this] have "\<exists>c'. cache_evict_if_needed (cache_push ?c k) = Some c'
      \<and> represents c' (take (c_max_size c) ((k, e) # xs)) \<and> c_max_size c' = c_max_size c"
    by simp
  moreover have "cache_upsert c k e = cache_evict_if_needed (cache_push ?c k)"
    using None by (simp add: cache_upsert_def cache_push_def Let_def)
  ultimately show ?thesis using m by (simp add: lru_upsert_def)
qed

subsection \<open>Runs\<close>

lemma cache_step_refines:
  assumes "represents c xs"
  shows "\<exists>c'. cache_step op c = Some (c', snd (lru_step (c_max_size c) op xs))
    \<and> represents c' (fst (lru_step (c_max_size c) op xs)) \<and> c_max_size c' = c_max_size c"
proof (cases op)
  case (OpGet k now)
  with cache_get_refines [OF assms, of k now] show ?thesis by (cases "cache_get c k now") auto
next
  case (OpUpsert k e)
  with cache_upsert_refines [OF assms, of k e] show ?thesis by auto
next
  case (OpRemove k)
  with cache_remove_refines [OF assms, of k] show ?thesis by (cases "cache_remove c k") auto
qed

lemma cache_run_refines:
  assumes "represents c xs"
  shows "\<exists>c'. cache_run ops c = Some (c', snd (lru_run (c_max_size c) ops xs))
    \<and> represents c' (fst (lru_run (c_max_size c) ops xs)) \<and> c_max_size c' = c_max_size c"
  using assms
proof (induction ops arbitrary: c xs)
  case (Cons op ops)
  obtain c1 where c1: "cache_step op c = Some (c1, snd (lru_step (c_max_size c) op xs))"
    "represents c1 (fst (lru_step (c_max_size c) op xs))" "c_max_size c1 = c_max_size c"
    using cache_step_refines [OF Cons.prems] by blast
  from Cons.IH [OF c1(2)] c1 show ?case by (auto simp: Let_def split: prod.splits)
qed simp

lemma represents_empty: "represents (with_max_size n) []"
  by (simp add: represents_def linked_def with_max_size_def)

lemma length_delete_less: "map_of xs k = Some e \<Longrightarrow> length (AList.delete k xs) < length xs"
  by (auto simp: AList.delete_eq dest!: map_of_SomeD intro: length_filter_less)

lemma lru_step_length:
  assumes "length xs \<le> n" "0 < n"
  shows "length (fst (lru_step n op xs)) \<le> n"
proof -
  have less: "length (AList.delete k xs) < n" if "map_of xs k = Some e" for k e
    using length_delete_less [OF that] assms(1) by simp
  have le: "length (AList.delete k xs) \<le> n" for k
    using AList.length_delete_le [of k xs] assms(1) by simp
  show ?thesis
  proof (cases op)
    case (OpGet k now)
    with less [of k] le [of k] assms(1) show ?thesis
      by (cases "map_of xs k") (simp_all add: lru_get_def Suc_le_eq)
  next
    case (OpUpsert k e)
    with less [of k] show ?thesis by (cases "map_of xs k") (simp_all add: lru_upsert_def Suc_le_eq)
  next
    case (OpRemove k)
    with le [of k] show ?thesis by (simp add: lru_remove_def)
  qed
qed

lemma lru_run_length: "length xs \<le> n \<Longrightarrow> 0 < n \<Longrightarrow> length (fst (lru_run n ops xs)) \<le> n"
proof (induction ops arbitrary: xs)
  case (Cons op ops)
  have "fst (lru_run n (op # ops) xs) = fst (lru_run n ops (fst (lru_step n op xs)))"
    by (simp add: Let_def split: prod.splits)
  with Cons.IH [OF lru_step_length [OF Cons.prems]] Cons.prems show ?case by simp
qed simp

subsection \<open>Recently used addresses survive\<close>

fun op_key :: "cache_op \<Rightarrow> ip_addr" where
  "op_key (OpGet k _) = k" | "op_key (OpUpsert k _) = k" | "op_key (OpRemove k) = k"

lemma delete_append: "AList.delete k (xs @ ys) = AList.delete k xs @ AList.delete k ys"
  by (simp add: AList.delete_eq)

lemma only_behind_delete:
  "only_behind T k e xs \<Longrightarrow> j \<noteq> k \<Longrightarrow> only_behind T k e (AList.delete j xs)"
proof -
  assume "only_behind T k e xs" and j: "j \<noteq> k"
  then obtain as bs where s: "xs = as @ (k, e) # bs" "fst ` set as \<subseteq> T" "distinct (map fst xs)"
    by (auto simp: only_behind_def)
  have "AList.delete j xs = AList.delete j as @ (k, e) # AList.delete j bs"
    using j by (simp add: s(1) delete_append)
  moreover have "fst ` set (AList.delete j as) \<subseteq> T" using s(2) by (auto simp: keys_delete)
  moreover have "distinct (map fst (AList.delete j xs))" using s(3) by (rule AList.distinct_delete)
  ultimately show ?thesis unfolding only_behind_def by blast
qed

lemma only_behind_push:
  "only_behind T k e xs \<Longrightarrow> j \<noteq> k \<Longrightarrow> j \<notin> fst ` set xs \<Longrightarrow> only_behind (insert j T) k e ((j, e') # xs)"
  unfolding only_behind_def
  by (elim exE conjE, intro exI [of _ "(j, e') # _"] exI) auto

lemma only_behind_take:
  assumes "only_behind T k e xs" "card T < n" "finite T"
  shows "only_behind T k e (take n xs)"
proof -
  obtain as bs where s: "xs = as @ (k, e) # bs" "fst ` set as \<subseteq> T" "distinct (map fst xs)"
    using assms(1) by (auto simp: only_behind_def)
  have "distinct (map fst as)" using s by simp
  then have "length as = card (fst ` set as)" using distinct_card [of "map fst as"] by simp
  also have "\<dots> \<le> card T" using s(2) assms(3) by (rule card_mono [rotated])
  finally have "n = length as + Suc (n - length as - 1)" using assms(2) by simp
  then have "take n xs = as @ (k, e) # take (n - length as - 1) bs"
    by (metis s(1) take_append take_Suc_Cons add_diff_cancel_left' le_add1 take_all)
  moreover have "distinct (map fst (take n xs))" using s(3) by (simp add: take_map [symmetric])
  ultimately show ?thesis using s(2) unfolding only_behind_def by blast
qed

lemma only_behind_mono: "only_behind T k e xs \<Longrightarrow> T \<subseteq> U \<Longrightarrow> only_behind U k e xs"
  unfolding only_behind_def by blast

lemma lru_step_only_behind:
  assumes "only_behind T k e xs" "op_key op \<noteq> k" "finite T" "card (insert (op_key op) T) < n"
  shows "only_behind (insert (op_key op) T) k e (fst (lru_step n op xs))"
proof -
  let ?j = "op_key op" and ?T = "insert (op_key op) T"
  have del: "only_behind ?T k e (AList.delete ?j xs)"
    using only_behind_delete [OF assms(1,2)] by (rule only_behind_mono) auto
  have keep: "only_behind ?T k e xs" using assms(1) by (rule only_behind_mono) auto
  have move: "only_behind ?T k e ((?j, e') # AList.delete ?j xs)" for e'
    using only_behind_push [OF only_behind_delete [OF assms(1,2)] assms(2)] by (simp add: keys_delete)
  show ?thesis
  proof (cases op)
    case (OpGet j now)
    with del keep move show ?thesis by (auto simp: lru_get_def split: option.splits)
  next
    case (OpUpsert j e')
    show ?thesis
    proof (cases "map_of xs j")
      case None
      then have "j \<notin> fst ` set xs" by (simp add: map_of_eq_None_iff)
      with only_behind_push [OF assms(1), of j e'] OpUpsert assms(2) have "only_behind ?T k e ((j, e') # xs)"
        by simp
      from only_behind_take [OF this assms(4)] None OpUpsert assms(3) show ?thesis
        by (simp add: lru_upsert_def)
    qed (use OpUpsert move in \<open>simp add: lru_upsert_def\<close>)
  next
    case (OpRemove j)
    with del show ?thesis by (simp add: lru_remove_def)
  qed
qed

lemma lru_run_only_behind:
  assumes "only_behind T k e xs" "finite T" "k \<notin> op_key ` set ops" "card (T \<union> op_key ` set ops) < n"
  shows "only_behind (T \<union> op_key ` set ops) k e (fst (lru_run n ops xs))"
  using assms
proof (induction ops arbitrary: T xs)
  case (Cons op ops)
  let ?T = "insert (op_key op) T"
  have eq: "T \<union> op_key ` set (op # ops) = ?T \<union> op_key ` set ops" by auto
  have "card ?T \<le> card (?T \<union> op_key ` set ops)" using Cons.prems(2) by (intro card_mono) auto
  then have "only_behind ?T k e (fst (lru_step n op xs))"
    using Cons.prems eq by (intro lru_step_only_behind) auto
  then have "only_behind (?T \<union> op_key ` set ops) k e (fst (lru_run n ops (fst (lru_step n op xs))))"
    using Cons.prems eq by (intro Cons.IH) auto
  moreover have "fst (lru_run n (op # ops) xs) = fst (lru_run n ops (fst (lru_step n op xs)))"
    by (simp add: Let_def split: prod.splits)
  ultimately show ?case unfolding eq by simp
qed simp

lemma only_behind_map_of: "only_behind T k e xs \<Longrightarrow> map_of xs k = Some e"
proof -
  assume "only_behind T k e xs"
  then obtain as bs where "xs = as @ (k, e) # bs" "distinct (map fst xs)" by (auto simp: only_behind_def)
  moreover from this have "map_of as k = None" by (auto simp: map_of_eq_None_iff)
  ultimately show ?thesis by (simp add: map_add_def)
qed

subsection \<open>The interface that the prober relies on\<close>

text \<open>
  A store of limited size: an insertion succeeds and keeps the store valid, the value inserted
  last is found under its key, no other key gets a new value, and no more keys have values than
  the bound allows.
\<close>

locale bounded_store =
  fixes peek :: "'c \<Rightarrow> 'k \<Rightarrow> 'v option"
    and put :: "'c \<Rightarrow> 'k \<Rightarrow> 'v \<Rightarrow> 'c option"
    and valid :: "'c \<Rightarrow> bool"
    and bound :: "'c \<Rightarrow> nat"
  assumes put_total: "valid c \<Longrightarrow> \<exists>c'. put c k v = Some c' \<and> valid c' \<and> bound c' = bound c"
    and peek_put_same: "valid c \<Longrightarrow> put c k v = Some c' \<Longrightarrow> peek c' k = Some v"
    and peek_put_other: "valid c \<Longrightarrow> put c k v = Some c' \<Longrightarrow> j \<noteq> k \<Longrightarrow>
      peek c' j = None \<or> peek c' j = peek c j"
    and peek_bound: "valid c \<Longrightarrow> finite {k. peek c k \<noteq> None} \<and> card {k. peek c k \<noteq> None} \<le> bound c"
begin

text \<open>The value of a key after an insertion, when it was found before under that key or another.\<close>

lemma peek_put_cases:
  assumes "valid c" "put c k v = Some c'" "peek c' j = Some w"
  shows "(j = k \<and> w = v) \<or> (j \<noteq> k \<and> peek c j = Some w)"
  using assms peek_put_same [OF assms(1,2)] peek_put_other [OF assms(1,2), of j] by (cases "j = k") auto

end

text \<open>
  A store with lookups that may drop an expired value: a lookup keeps the store valid, and returns
  the value of the key unless it has expired. The client's read-then-maybe-insert keeps it valid.
\<close>

locale expiring_store = bounded_store peek put valid bound
  for peek :: "'c \<Rightarrow> 'k \<Rightarrow> 'v option"
    and put :: "'c \<Rightarrow> 'k \<Rightarrow> 'v \<Rightarrow> 'c option"
    and valid :: "'c \<Rightarrow> bool"
    and bound :: "'c \<Rightarrow> nat" +
  fixes get :: "'c \<Rightarrow> 'k \<Rightarrow> 't \<Rightarrow> 'c \<times> 'v option"
    and expired :: "'v \<Rightarrow> 't \<Rightarrow> bool"
  assumes get_valid: "valid c \<Longrightarrow> valid (fst (get c k now)) \<and> bound (fst (get c k now)) = bound c"
    and get_result: "valid c \<Longrightarrow> snd (get c k now) =
      (case peek c k of None \<Rightarrow> None | Some v \<Rightarrow> if expired v now then None else Some v)"
    and peek_get: "valid c \<Longrightarrow> peek (fst (get c k now)) j =
      (if j = k then snd (get c k now) else peek c j)"
begin

lemma get_then_put:
  assumes "valid c"
  shows "\<exists>c'. (if cond (snd (get c k now)) then put (fst (get c k now)) k v else Some (fst (get c k now))) = Some c'
    \<and> valid c' \<and> bound c' = bound c
    \<and> peek c' k = (if cond (snd (get c k now)) then Some v else snd (get c k now))
    \<and> (\<forall>j. j \<noteq> k \<longrightarrow> peek c' j = None \<or> peek c' j = peek c j)"
proof (cases "cond (snd (get c k now))")
  case True
  note g = get_valid [OF assms, of k now]
  obtain c' where c': "put (fst (get c k now)) k v = Some c'" "valid c'" "bound c' = bound c"
    using put_total [OF conjunct1 [OF g], of k v] g by auto
  with True peek_put_same [OF conjunct1 [OF g] c'(1)] peek_put_other [OF conjunct1 [OF g] c'(1)]
    peek_get [OF assms, of k now] show ?thesis by auto
qed (use get_valid [OF assms, of k now] peek_get [OF assms, of k now] in auto)

end

definition cache_peek :: "FastestIpCache \<Rightarrow> ip_addr \<Rightarrow> FastIpCacheEntry option" where
  "cache_peek c k = map_option n_entry (cache_node c k)"

definition cache_valid :: "FastestIpCache \<Rightarrow> bool" where
  "cache_valid c \<longleftrightarrow> (\<exists>xs. represents c xs \<and> length xs \<le> c_max_size c)"

lemma cache_peek_represents: "represents c xs \<Longrightarrow> cache_peek c k = map_of xs k"
  by (simp add: cache_peek_def represents_map_of)

lemma cache_upsert_valid:
  assumes "represents c xs" "length xs \<le> c_max_size c"
  shows "\<exists>c'. cache_upsert c k e = Some c' \<and> represents c' (lru_upsert (c_max_size c) xs k e)
    \<and> c_max_size c' = c_max_size c \<and> length (lru_upsert (c_max_size c) xs k e) \<le> c_max_size c"
  using cache_upsert_refines [OF assms(1), of k e] lru_step_length [OF assms(2), of "OpUpsert k e"] assms(1)
  by (auto simp: represents_def)

lemma map_of_take: "distinct (map fst xs) \<Longrightarrow> map_of (take n xs) j = None \<or> map_of (take n xs) j = map_of xs j"
proof -
  assume d: "distinct (map fst xs)"
  have "map_of xs j = Some v" if "map_of (take n xs) j = Some v" for v
    using map_of_SomeD [OF that] d by (auto intro: map_of_is_SomeI dest: in_set_takeD)
  then show ?thesis by (cases "map_of (take n xs) j") auto
qed

lemma map_of_lru_upsert:
  assumes "distinct (map fst xs)" "0 < n"
  shows "map_of (lru_upsert n xs k e) k = Some e"
    and "j \<noteq> k \<Longrightarrow> map_of (lru_upsert n xs k e) j = None \<or> map_of (lru_upsert n xs k e) j = map_of xs j"
proof -
  obtain m where n: "n = Suc m" using assms(2) by (cases n) auto
  show "map_of (lru_upsert n xs k e) k = Some e" by (simp add: lru_upsert_def n)
  show "map_of (lru_upsert n xs k e) j = None \<or> map_of (lru_upsert n xs k e) j = map_of xs j" if "j \<noteq> k"
    using that map_of_take [OF assms(1), of m j] by (simp add: lru_upsert_def n)
qed

interpretation ip_cache: bounded_store cache_peek cache_upsert cache_valid c_max_size
proof unfold_locales
  fix c k v
  assume "cache_valid c"
  then obtain xs where x: "represents c xs" "length xs \<le> c_max_size c" by (auto simp: cache_valid_def)
  from cache_upsert_valid [OF this, of k v]
  show "\<exists>c'. cache_upsert c k v = Some c' \<and> cache_valid c' \<and> c_max_size c' = c_max_size c"
    by (auto simp: cache_valid_def)
  fix c' j
  assume "cache_upsert c k v = Some c'"
  with cache_upsert_valid [OF x, of k v] have r: "represents c' (lru_upsert (c_max_size c) xs k v)" by auto
  have d: "distinct (map fst xs)" "0 < c_max_size c" using x(1) by (auto simp: represents_def linked_def)
  show "cache_peek c' k = Some v" using map_of_lru_upsert(1) [OF d] cache_peek_represents [OF r] by simp
  show "cache_peek c' j = None \<or> cache_peek c' j = cache_peek c j" if "j \<noteq> k"
    using map_of_lru_upsert(2) [OF d that] cache_peek_represents [OF r] cache_peek_represents [OF x(1)] by simp
next
  fix c
  assume "cache_valid c"
  then obtain xs where x: "represents c xs" "length xs \<le> c_max_size c" by (auto simp: cache_valid_def)
  have "{k. cache_peek c k \<noteq> None} = fst ` set xs"
    using cache_peek_represents [OF x(1)] by (auto simp: map_of_eq_None_iff)
  moreover have "card (fst ` set xs) \<le> length xs" by (metis card_length length_map set_map)
  ultimately show "finite {k. cache_peek c k \<noteq> None} \<and> card {k. cache_peek c k \<noteq> None} \<le> c_max_size c"
    using x(2) by auto
qed

lemma map_of_lru_get:
  assumes "distinct (map fst xs)"
  shows "snd (lru_get xs k now) = (case map_of xs k of None \<Rightarrow> None
      | Some e \<Rightarrow> if e_expire_at_ms e \<le> now then None else Some e)"
    and "map_of (fst (lru_get xs k now)) j = (if j = k then snd (lru_get xs k now) else map_of xs j)"
  by (auto simp: lru_get_def AList.delete_conv' split: option.splits)

interpretation ip_probes: expiring_store cache_peek cache_upsert cache_valid c_max_size
  cache_get "\<lambda>e now. e_expire_at_ms e \<le> now"
proof unfold_locales
  fix c k now j
  assume "cache_valid c"
  then obtain xs where x: "represents c xs" "length xs \<le> c_max_size c" by (auto simp: cache_valid_def)
  note g = cache_get_refines [OF x(1), of k now]
  have d: "distinct (map fst xs)" "0 < c_max_size c" using x(1) by (auto simp: represents_def linked_def)
  have "length (fst (lru_get xs k now)) \<le> c_max_size c"
    using lru_step_length [OF x(2) d(2), of "OpGet k now"] by simp
  with g show "cache_valid (fst (cache_get c k now)) \<and> c_max_size (fst (cache_get c k now)) = c_max_size c"
    by (auto simp: cache_valid_def)
  show "snd (cache_get c k now) = (case cache_peek c k of None \<Rightarrow> None
      | Some e \<Rightarrow> if e_expire_at_ms e \<le> now then None else Some e)"
    using g map_of_lru_get(1) [OF d(1), of k now] cache_peek_represents [OF x(1)] by simp
  show "cache_peek (fst (cache_get c k now)) j = (if j = k then snd (cache_get c k now) else cache_peek c j)"
    using g map_of_lru_get(2) [OF d(1), of k now j] cache_peek_represents [OF x(1)]
      cache_peek_represents [OF conjunct1 [OF g]] by simp
qed

subsection \<open>Properties of the cache\<close>

text \<open>
  C13 (equivalence): every sequence of operations on a new cache ends, returns exactly what the
  list specification returns (most recently used first, expired entries dropped on access, the
  last one evicted), leaves links that describe that list, and never holds more addresses than
  the maximum size.
\<close>

theorem cache_implements_lru_list:
  "\<exists>c. cache_run ops (with_max_size n) = Some (c, snd (lru_run (max n 1) ops []))
     \<and> represents c (fst (lru_run (max n 1) ops [])) \<and> length (c_entries c) \<le> max n 1"
proof -
  have size: "c_max_size (with_max_size n) = max n 1" by (simp add: with_max_size_def)
  obtain c where c: "cache_run ops (with_max_size n) = Some (c, snd (lru_run (max n 1) ops []))"
    "represents c (fst (lru_run (max n 1) ops []))"
    using cache_run_refines [OF represents_empty, of ops n] unfolding size by blast
  have "length (fst (lru_run (max n 1) ops [])) \<le> max n 1" by (rule lru_run_length) simp_all
  with c represents_length [OF c(2)] show ?thesis by auto
qed

text \<open>
  an entry that was stored is still returned, if it has not expired, after any
  operations on other addresses that touch fewer distinct addresses than the cache holds.
\<close>

lemma recent_entry_survives:
  assumes "cache_valid c" "cache_upsert c k e = Some c1" "k \<notin> op_key ` set ops"
    and "card (op_key ` set ops) < c_max_size c" "now < e_expire_at_ms e"
  shows "\<exists>c2 rs. cache_run ops c1 = Some (c2, rs) \<and> snd (cache_get c2 k now) = Some e"
proof -
  obtain xs where x: "represents c xs" "length xs \<le> c_max_size c" using assms(1) by (auto simp: cache_valid_def)
  let ?n = "c_max_size c" and ?xs = "lru_upsert (c_max_size c) xs k e"
  have r: "represents c1 ?xs" "c_max_size c1 = ?n"
    using cache_upsert_valid [OF x, of k e] assms(2) by auto
  have "\<exists>zs. ?xs = (k, e) # zs"
    using x(1) by (cases ?n) (auto simp: lru_upsert_def represents_def)
  then obtain zs where zs: "?xs = (k, e) # zs" by blast
  have "distinct (map fst ?xs)" using r(1) by (simp add: represents_def linked_def)
  then have "only_behind {} k e ?xs" using zs unfolding only_behind_def by (intro exI [of _ "[]"] exI [of _ zs]) auto
  then have "only_behind ({} \<union> op_key ` set ops) k e (fst (lru_run ?n ops ?xs))"
    using assms(3,4) by (intro lru_run_only_behind) simp_all
  then have m: "map_of (fst (lru_run ?n ops ?xs)) k = Some e" by (rule only_behind_map_of)
  obtain c2 where c2: "cache_run ops c1 = Some (c2, snd (lru_run ?n ops ?xs))"
    "represents c2 (fst (lru_run ?n ops ?xs))"
    using cache_run_refines [OF r(1), of ops] r(2) by auto
  have "snd (cache_get c2 k now) = Some e"
    using cache_get_refines [OF c2(2), of k now] m assms(5) by (simp add: lru_get_def)
  with c2(1) show ?thesis by blast
qed

end
