(* ===== verification/Machine.thy ===== *)
theory Machine
  imports Main
begin

text \<open>
  Machines that take events: a step is a partial function of the event and the state, \<open>None\<close> when
  the event is not possible in the state. The locale \<open>machine\<close> states what an invariant of a machine
  has to satisfy; its lemmas carry the invariant over every run.
\<close>

fun run_events :: "('event \<Rightarrow> 'state \<Rightarrow> 'state option) \<Rightarrow> 'event list \<Rightarrow> 'state \<Rightarrow> 'state option" where
  "run_events step [] s = Some s"
| "run_events step (e # es) s = Option.bind (step e s) (run_events step es)"

lemma run_events_append:
  "run_events step (es @ es') s = Option.bind (run_events step es s) (run_events step es')"
  by (induction es arbitrary: s) (auto split: Option.bind_split)

definition reachable :: "('event \<Rightarrow> 'state \<Rightarrow> 'state option) \<Rightarrow> 'state \<Rightarrow> 'state \<Rightarrow> bool" where
  "reachable step start s \<longleftrightarrow> (\<exists>es. run_events step es start = Some s)"

lemma reachable_start: "reachable step start start"
  unfolding reachable_def by (rule exI [of _ "[]"]) simp

lemma reachable_step: "reachable step start s \<Longrightarrow> step e s = Some s' \<Longrightarrow> reachable step start s'"
  unfolding reachable_def
  by (elim exE, rule_tac x = "es @ [e]" in exI) (simp add: run_events_append)

locale machine =
  fixes step :: "'event \<Rightarrow> 'state \<Rightarrow> 'state option"
    and start :: 'state
    and inv :: "'state \<Rightarrow> bool"
  assumes inv_start: "inv start"
    and inv_step: "inv s \<Longrightarrow> step e s = Some s' \<Longrightarrow> inv s'"
begin

lemma inv_run: "run_events step es s = Some s' \<Longrightarrow> inv s \<Longrightarrow> inv s'"
  by (induction es arbitrary: s) (auto simp: inv_step split: Option.bind_splits)

lemma inv_reachable: "reachable step start s \<Longrightarrow> inv s"
  unfolding reachable_def using inv_run inv_start by blast

end

end
