(* ===== verification/Clients_Count.thy ===== *)
theory Clients_Count
  imports Machine "HOL-Library.Word"
begin

text \<open>
  The limit on concurrent clients: the shared counter \<open>ClientsCount\<close> of
  \<open>src/libdoh/src/globals.rs\<close> and its use by \<open>DoH::client_serve\<close> of
  \<open>src/libdoh/src/lib.rs\<close> and \<open>DoH::start_https_service\<close> of \<open>src/libdoh/src/tls.rs\<close>, as an interleaving of the atomic accesses of any number of connection
  tasks.

  A task is its program counter. Each step is one atomic access: the \<open>fetch_add\<close> of
  \<open>increment\<close>, the end of a TLS handshake, the end of the connection (served or timed out), the load and the
  compare-and-exchange of the loop in \<open>decrement\<close>. The lemmas show that the counter is the number
  of tasks that have incremented and not yet decremented, so that the loop never reads zero, and
  that no more than \<open>max_clients\<close> connections are served at once.
\<close>

subsection \<open>Tasks and steps\<close>

datatype pc =
    Arrived            \<comment> \<open>before \<open>clients_count.increment()\<close> in \<open>client_serve\<close>\<close>
  | ArrivedTls         \<comment> \<open>before \<open>clients_count.increment()\<close> in \<open>start_https_service\<close>\<close>
  | Handshake          \<comment> \<open>in the TLS handshake, the reservation is held\<close>
  | Serving            \<comment> \<open>in \<open>client_serve_reserved\<close>, the reservation is held\<close>
  | Load               \<comment> \<open>at the load of the loop in \<open>decrement\<close>\<close>
  | Exchange nat       \<comment> \<open>at the compare-and-exchange, with the loaded count\<close>
  | Finished

record counter_state =
  clients_count :: nat
  tasks :: "pc list"

text \<open>Any number of connections, each with TLS or without.\<close>

definition initial_clients :: "bool list \<Rightarrow> counter_state" where
  "initial_clients conns = \<lparr>clients_count = 0, tasks = map (\<lambda>tls. if tls then ArrivedTls else Arrived) conns\<rparr>"

text \<open>\<open>increment\<close>: the count before, and the state after.\<close>

definition cc_increment :: "nat \<Rightarrow> nat \<times> nat" where
  "cc_increment c = (c, c + 1)"

text \<open>
  One access of the task at its program counter: the new count and program counter. The flag is the
  result of a handshake that ends.
\<close>

fun task_step :: "nat \<Rightarrow> bool \<Rightarrow> nat \<Rightarrow> pc \<Rightarrow> (nat \<times> pc) option" where
  "task_step max_clients ok c Arrived =
     (let (old, c') = cc_increment c in Some (c', if old \<ge> max_clients then Load else Serving))"
| "task_step max_clients ok c ArrivedTls =
     (let (old, c') = cc_increment c in Some (c', if old \<ge> max_clients then Load else Handshake))"
| "task_step max_clients ok c Handshake = Some (c, if ok then Serving else Load)"
| "task_step max_clients ok c Serving = Some (c, Load)"
| "task_step max_clients ok c Load = Some (c, if c > 0 then Exchange c else Finished)"
| "task_step max_clients ok c (Exchange v) = Some (if c = v then (v - 1, Finished) else (c, Load))"
| "task_step max_clients ok c Finished = None"

text \<open>An event is the number of the task that takes its step, and the result of a handshake.\<close>

definition clients_step :: "nat \<Rightarrow> nat \<times> bool \<Rightarrow> counter_state \<Rightarrow> counter_state option" where
  "clients_step max_clients event s =
    (case event of (i, ok) \<Rightarrow>
       if i < length (tasks s) then
         map_option (\<lambda>(c, p). \<lparr>clients_count = c, tasks = (tasks s)[i := p]\<rparr>)
           (task_step max_clients ok (clients_count s) (tasks s ! i))
       else None)"

abbreviation clients_reachable :: "nat \<Rightarrow> bool list \<Rightarrow> counter_state \<Rightarrow> bool" where
  "clients_reachable max_clients conns \<equiv> reachable (clients_step max_clients) (initial_clients conns)"

definition serving :: "counter_state \<Rightarrow> nat" where
  "serving s = length (filter (\<lambda>p. p = Serving) (tasks s))"

text \<open>The tasks that were let in: they are served, or in their handshake.\<close>

fun let_in :: "pc \<Rightarrow> bool" where
  "let_in Serving = True" | "let_in Handshake = True" | "let_in _ = False"

definition admitted :: "counter_state \<Rightarrow> nat" where
  "admitted s = length (filter let_in (tasks s))"

text \<open>The tasks between their increment and the success of their decrement.\<close>

fun in_flight :: "pc \<Rightarrow> bool" where
  "in_flight Arrived = False" | "in_flight ArrivedTls = False" | "in_flight Finished = False" | "in_flight _ = True"

definition holding :: "counter_state \<Rightarrow> nat" where
  "holding s = length (filter in_flight (tasks s))"

subsection \<open>The invariant\<close>

definition clients_inv :: "nat \<Rightarrow> nat \<Rightarrow> counter_state \<Rightarrow> bool" where
  "clients_inv max_clients n s \<longleftrightarrow> clients_count s = holding s \<and> admitted s \<le> max_clients
     \<and> length (tasks s) = n"

lemma filter_update_length:
  assumes "i < length xs"
  shows "length (filter P (xs[i := y])) + (if P (xs ! i) then 1 else 0)
    = length (filter P xs) + (if P y then 1 else 0)"
proof -
  have "xs = take i xs @ xs ! i # drop (Suc i) xs" using assms by (rule id_take_nth_drop)
  then have "filter P xs = filter P (take i xs) @ filter P [xs ! i] @ filter P (drop (Suc i) xs)"
    by (metis append_Cons append_Nil filter_append)
  moreover have "filter P (xs[i := y]) = filter P (take i xs) @ filter P [y] @ filter P (drop (Suc i) xs)"
    using assms by (simp add: upd_conv_take_nth_drop)
  ultimately show ?thesis by simp
qed

lemma filter_pos: "i < length xs \<Longrightarrow> P (xs ! i) \<Longrightarrow> 0 < length (filter P xs)"
  by (metis filter_empty_conv length_greater_0_conv nth_mem)

lemma admitted_between: "serving s \<le> admitted s" "admitted s \<le> holding s"
proof -
  have "length (filter (\<lambda>p. p = Serving) ts) \<le> length (filter let_in ts)" for ts by (induction ts) auto
  then show "serving s \<le> admitted s" by (simp add: serving_def admitted_def)
  have "let_in p \<Longrightarrow> in_flight p" for p by (cases p) simp_all
  then have "length (filter let_in ts) \<le> length (filter in_flight ts)" for ts by (induction ts) auto
  then show "admitted s \<le> holding s" by (simp add: holding_def admitted_def)
qed

lemma clients_inv_start: "clients_inv max_clients (length conns) (initial_clients conns)"
  by (auto simp: clients_inv_def initial_clients_def holding_def admitted_def filter_empty_conv)

lemma clients_inv_step:
  assumes "clients_inv max_clients n s" "clients_step max_clients event s = Some s'"
  shows "clients_inv max_clients n s'"
proof -
  from assms(2) obtain i ok c p where s: "i < length (tasks s)"
    "task_step max_clients ok (clients_count s) (tasks s ! i) = Some (c, p)"
    "s' = \<lparr>clients_count = c, tasks = (tasks s)[i := p]\<rparr>"
    by (auto simp: clients_step_def split: prod.splits if_splits)
  note f = filter_update_length [OF s(1), of in_flight p] filter_update_length [OF s(1), of let_in p]
  have inv: "clients_count s = holding s" "admitted s \<le> max_clients" "length (tasks s) = n"
    using assms(1) by (auto simp: clients_inv_def)
  have pos: "0 < holding s" if "in_flight (tasks s ! i)"
    using filter_pos [OF s(1), of in_flight] that by (simp add: holding_def)
  show ?thesis
    using s f inv pos admitted_between(2) [of s]
    by (cases "tasks s ! i")
      (auto simp: clients_inv_def holding_def admitted_def cc_increment_def split: if_splits)
qed

interpretation clients: machine "clients_step max_clients" "initial_clients conns" "clients_inv max_clients (length conns)"
  for max_clients conns
  by unfold_locales (auto intro: clients_inv_start clients_inv_step)

subsection \<open>Properties of the client limit\<close>

text \<open>
  C18 (invariant): in every reachable interleaving of any number of connections, with and without
  TLS, at most \<open>max_clients\<close> are being served or in their handshake, and the counter is exactly the
  number of connections that have taken a reservation and not yet given it back.
\<close>

theorem clients_limit_holds:
  assumes "clients_reachable max_clients conns s"
  shows "serving s \<le> admitted s \<and> admitted s \<le> max_clients \<and> clients_count s = holding s
    \<and> clients_count s \<le> length conns"
  using clients.inv_reachable [OF assms] length_filter_le [of in_flight "tasks s"] admitted_between(1) [of s]
  by (simp add: clients_inv_def holding_def)

lemma sample_clients:
  "run_events (clients_step 1) [(0, False), (1, False), (0, True)] (initial_clients [True, False])
     = Some \<lparr>clients_count = 2, tasks = [Serving, Load]\<rparr>"
  by (simp add: clients_step_def initial_clients_def cc_increment_def)

theorem clients_limit_holds_witness:
  "\<exists>s. clients_reachable 1 [True, False] s \<and> tasks s = [Serving, Load] \<and> admitted s \<le> 1"
proof -
  have r: "clients_reachable 1 [True, False] \<lparr>clients_count = 2, tasks = [Serving, Load]\<rparr>"
    using sample_clients unfolding reachable_def by blast
  from clients_limit_holds [OF r] r show ?thesis by (intro exI [of _ "\<lparr>clients_count = 2, tasks = [Serving, Load]\<rparr>"]) simp
qed

text \<open>
  The decrement loop never reads zero, so that a reservation is never lost, and once
  every connection has finished the counter is zero again.
\<close>

lemma reservations_returned:
  assumes "clients_reachable max_clients conns s"
  shows "(\<forall>i < length (tasks s). tasks s ! i = Load \<longrightarrow> 0 < clients_count s)
    \<and> (list_all (\<lambda>p. p = Finished) (tasks s) \<longrightarrow> clients_count s = 0)"
proof -
  have c: "clients_count s = length (filter in_flight (tasks s))"
    using clients.inv_reachable [OF assms] by (simp add: clients_inv_def holding_def)
  have "filter in_flight (tasks s) = []" if "list_all (\<lambda>p. p = Finished) (tasks s)"
    using that by (auto simp: filter_empty_conv list_all_iff)
  with c filter_pos [of _ "tasks s" in_flight] show ?thesis by auto
qed

end
