(* ===== verification/Upstream_Errors.thy ===== *)
theory Upstream_Errors
  imports Msg
begin

text \<open>
  Errors and statistics of the upstream exchange (\<open>src/libdoh/src/errors.rs\<close>,
  \<open>src/libdoh/src/upstream/stats.rs\<close>) and the packet helpers of
  \<open>src/libdoh/src/upstream/dns_packet.rs\<close>.

  An error of hyper, of the operating system or of the QUIC library is represented by what the
  program asks of it: the predicates of \<open>hyper::Error\<close>, the kind and the source of an
  \<open>io::Error\<close>, and the printed form. An error of the ODoH crate is its printed form. A duration is
  its number of nanoseconds. The lemmas show that joining the failed attempts loses none of them and
  that the status code sent to the client is an error for every error.
\<close>

subsection \<open>Text\<close>

text \<open>Decimal numerals, as \<open>Display\<close> prints an unsigned integer.\<close>

function show_nat :: "nat \<Rightarrow> string" where
  "show_nat n = (if n < 10 then [char_of (48 + n)] else show_nat (n div 10) @ [char_of (48 + n mod 10)])"
  by auto
termination by (relation "measure id") auto

declare show_nat.simps [simp del]

type_synonym duration = nat

definition from_secs :: "nat \<Rightarrow> duration" where "from_secs s = s * 1000000000"

text \<open>\<open>Duration::MAX\<close>, and the addition of durations, which panics beyond it.\<close>

definition DURATION_MAX :: duration where "DURATION_MAX = (2 ^ 64 - 1) * 1000000000 + 999999999"

definition duration_add :: "duration \<Rightarrow> duration \<Rightarrow> ('e, duration) res" where
  "duration_add d e = (if d + e \<le> DURATION_MAX then Ok (d + e) else Panic)"

definition as_millis :: "duration \<Rightarrow> nat" where "as_millis d = d div 1000000"
definition as_micros :: "duration \<Rightarrow> nat" where "as_micros d = d div 1000"

subsection \<open>Errors\<close>

datatype UpstreamErrorKind =
    K_Incomplete | K_InvalidData | K_TooLarge | K_UpstreamIssue | K_UpstreamTimeout | K_StaleKey
  | K_Hyper | K_Io | K_ODoHConfigError | K_TooManyTcpSessions

record UpstreamAttemptError =
  ae_address :: string
  ae_duration :: duration
  ae_error_kind :: UpstreamErrorKind
  ae_error_message :: string

datatype io_kind =
    InvalidInputKind | InvalidDataKind | UnsupportedKind | PermissionDeniedKind | AlreadyExistsKind
  | AddrInUseKind | AddrNotAvailableKind | NotFoundKind | OtherKind

datatype hyper_error = HyperError
  (hy_parse: bool) (hy_parse_too_large: bool) (hy_parse_status: bool) (hy_user: bool) (hy_timeout: bool)
  (hy_text: string)

datatype h3_error = TlsFail | CryptoFail | OtherH3Error

datatype H3ConnectionError = H3Connection h3_error | NonexistentStream | OtherConnectionError

text \<open>An \<open>io::Error\<close> with its source, and the errors that the program recognises as sources.\<close>

datatype io_error = IoError (io_kind: io_kind) (io_source: "std_error option") (io_text: string)
  and std_error =
    StdIo io_error | StdHyper hyper_error | StdHandshake | StdH3Connection H3ConnectionError
  | StdH3 h3_error | StdOther

datatype DoHError =
    Incomplete | InvalidData | TooLarge | UpstreamIssue | UpstreamTimeout | StaleKey
  | Hyper hyper_error | Io io_error | ODoHConfigError string | TooManyTcpSessions
  | UpstreamJoined "UpstreamAttemptError list"

fun error_kind_of :: "DoHError \<Rightarrow> UpstreamErrorKind" where
  "error_kind_of Incomplete = K_Incomplete"
| "error_kind_of InvalidData = K_InvalidData"
| "error_kind_of TooLarge = K_TooLarge"
| "error_kind_of UpstreamIssue = K_UpstreamIssue"
| "error_kind_of UpstreamTimeout = K_UpstreamTimeout"
| "error_kind_of StaleKey = K_StaleKey"
| "error_kind_of (Hyper _) = K_Hyper"
| "error_kind_of (Io _) = K_Io"
| "error_kind_of (ODoHConfigError _) = K_ODoHConfigError"
| "error_kind_of TooManyTcpSessions = K_TooManyTcpSessions"
| "error_kind_of (UpstreamJoined _) = K_UpstreamIssue"

fun show_kind :: "UpstreamErrorKind \<Rightarrow> string" where
  "show_kind K_Incomplete = ''incomplete''"
| "show_kind K_InvalidData = ''invalid_data''"
| "show_kind K_TooLarge = ''too_large''"
| "show_kind K_UpstreamIssue = ''upstream_issue''"
| "show_kind K_UpstreamTimeout = ''upstream_timeout''"
| "show_kind K_StaleKey = ''stale_key''"
| "show_kind K_Hyper = ''hyper''"
| "show_kind K_Io = ''io''"
| "show_kind K_ODoHConfigError = ''odoh_config_error''"
| "show_kind K_TooManyTcpSessions = ''too_many_tcp_sessions''"

definition show_attempt :: "UpstreamAttemptError \<Rightarrow> string" where
  "show_attempt a = ''; '' @ ae_address a @ '' (kind='' @ show_kind (ae_error_kind a)
     @ '', duration_ms='' @ show_nat (as_millis (ae_duration a)) @ ''): '' @ ae_error_message a"

fun show_error :: "DoHError \<Rightarrow> string" where
  "show_error Incomplete = ''Incomplete''"
| "show_error InvalidData = ''Invalid data''"
| "show_error TooLarge = ''Too large''"
| "show_error UpstreamIssue = ''Upstream error''"
| "show_error UpstreamTimeout = ''Upstream timeout''"
| "show_error StaleKey = ''Stale key material''"
| "show_error (Hyper e) = ''HTTP error: '' @ hy_text e"
| "show_error (Io e) = ''IO error: '' @ io_text e"
| "show_error (ODoHConfigError e) = ''ODoH config error: '' @ e"
| "show_error TooManyTcpSessions = ''Too many TCP sessions''"
| "show_error (UpstreamJoined attempts) = ''All upstreams failed'' @ concat (map show_attempt attempts)"

definition attempt_error_of :: "string \<Rightarrow> duration \<Rightarrow> DoHError \<Rightarrow> UpstreamAttemptError" where
  "attempt_error_of addr d err = \<lparr>ae_address = addr, ae_duration = d,
     ae_error_kind = error_kind_of err, ae_error_message = show_error err\<rparr>"

definition from_upstream_attempts :: "UpstreamAttemptError list \<Rightarrow> DoHError" where
  "from_upstream_attempts attempts = (if attempts = [] then UpstreamIssue else UpstreamJoined attempts)"

text \<open>The status code of an error.\<close>

fun status_code :: "DoHError \<Rightarrow> nat" where
  "status_code Incomplete = 422"
| "status_code InvalidData = 400"
| "status_code TooLarge = 413"
| "status_code UpstreamIssue = 502"
| "status_code UpstreamTimeout = 502"
| "status_code StaleKey = 401"
| "status_code (Hyper _) = 503"
| "status_code (Io _) = 500"
| "status_code (ODoHConfigError _) = 500"
| "status_code TooManyTcpSessions = 503"
| "status_code (UpstreamJoined _) = 502"

subsection \<open>Statistics\<close>

record UpstreamStatistics =
  s_error :: "string option"
  s_address :: string
  s_query_duration :: duration
  s_is_cached :: bool

definition stat_success :: "string \<Rightarrow> duration \<Rightarrow> UpstreamStatistics" where
  "stat_success addr d = \<lparr>s_error = None, s_address = addr, s_query_duration = d, s_is_cached = False\<rparr>"

definition stat_failure :: "string \<Rightarrow> duration \<Rightarrow> string \<Rightarrow> UpstreamStatistics" where
  "stat_failure addr d err = \<lparr>s_error = Some err, s_address = addr, s_query_duration = d, s_is_cached = False\<rparr>"

record QueryStatistics =
  qs_main :: "UpstreamStatistics list"
  qs_fallback :: "UpstreamStatistics list"

definition with_main :: "UpstreamStatistics list \<Rightarrow> QueryStatistics" where
  "with_main main = \<lparr>qs_main = main, qs_fallback = []\<rparr>"

subsection \<open>Packet helpers\<close>

datatype PacketError = InvalidPacket

definition query_qtype :: "packet \<Rightarrow> ('e, rr_type option) res" where
  "query_qtype p = qtype_from_packet p"

definition validate_response_packet :: "packet \<Rightarrow> bool" where
  "validate_response_packet p = validate_packet p"

definition extract_answer_ips :: "packet \<Rightarrow> ip_addr list" where
  "extract_answer_ips p = extract_answer_ips_from_packet p"

definition contains_answer_ip :: "packet \<Rightarrow> ip_addr \<Rightarrow> bool" where
  "contains_answer_ip p ip = contains_answer_ip_in_packet p ip"

definition rewrite_answer_ips_in_place :: "packet \<Rightarrow> ip_addr \<Rightarrow> packet \<times> (PacketError, unit) res" where
  "rewrite_answer_ips_in_place p ip =
     (case rewrite_answer_ips_in_packet p ip of (p', r) \<Rightarrow> (p', map_err (\<lambda>_. InvalidPacket) r))"

text \<open>\<open>validate_exchange_packet\<close> of \<open>src/libdoh/src/upstream/mod.rs\<close>.\<close>

definition validate_exchange_packet :: "packet \<Rightarrow> DoHError + packet" where
  "validate_exchange_packet p = (if validate_response_packet p then Inr p else Inl UpstreamIssue)"

text \<open>\<open>Result::and_then\<close>.\<close>

fun and_then :: "'err + 'ok \<Rightarrow> ('ok \<Rightarrow> 'err + 'res) \<Rightarrow> 'err + 'res" where
  "and_then (Inl e) f = Inl e"
| "and_then (Inr a) f = f a"

lemma and_then_eq_Inr [simp]: "and_then r f = Inr b \<longleftrightarrow> (\<exists>a. r = Inr a \<and> f a = Inr b)"
  by (cases r) auto

lemma validate_exchange_Inr: "validate_exchange_packet p = Inr q \<longleftrightarrow> q = p \<and> validate_packet p"
  by (auto simp: validate_exchange_packet_def validate_response_packet_def)

lemma from_upstream_attempts_simps [simp]:
  "from_upstream_attempts [] = UpstreamIssue"
  "as \<noteq> [] \<Longrightarrow> from_upstream_attempts as = UpstreamJoined as"
  "status_code (from_upstream_attempts as) = 502"
  "error_kind_of (from_upstream_attempts as) = K_UpstreamIssue"
  by (simp_all add: from_upstream_attempts_def)

end
