(* ===== verification/Upstream_Exchange.thy ===== *)
theory Upstream_Exchange
  imports Upstream_Errors "HOL-Library.Multiset"
begin

text \<open>
  The exchange with the upstream resolvers (\<open>src/libdoh/src/upstream/load_balance.rs\<close> and
  \<open>parallel.rs\<close>, with the round-trip statistics of \<open>src/libdoh/src/globals.rs\<close>).

  What the network does is a field of the environment: the outcome and the duration of the n-th
  attempt at an upstream. So are the generator of random numbers, the order in which the spawned
  tasks deliver their results, and the operations on \<open>f64\<close>, of which nothing is assumed: the
  theorems hold for every rounding, infinity and NaN.

  The lemmas show that both strategies never index out of range, answer only with a decodable
  packet that some upstream sent, answer whenever one upstream answers, and otherwise report the
  failure of every upstream.
\<close>

subsection \<open>Floating point, indexing and the environment\<close>

record 'f f64_ops =
  f_zero :: 'f
  f_one :: 'f
  f_add :: "'f \<Rightarrow> 'f \<Rightarrow> 'f"
  f_sub :: "'f \<Rightarrow> 'f \<Rightarrow> 'f"
  f_mul :: "'f \<Rightarrow> 'f \<Rightarrow> 'f"
  f_div :: "'f \<Rightarrow> 'f \<Rightarrow> 'f"
  f_le :: "'f \<Rightarrow> 'f \<Rightarrow> bool"
  f_lt :: "'f \<Rightarrow> 'f \<Rightarrow> bool"
  f_finite :: "'f \<Rightarrow> bool"
  f_of_nat :: "nat \<Rightarrow> 'f"

record 'f UpstreamRttStats =
  rtt_sum_us :: 'f
  req_num :: 'f

record ('u, 'f) exchange_env =
  ex_single :: "nat \<Rightarrow> 'u \<Rightarrow> packet \<Rightarrow> (DoHError + packet) \<times> duration"
  ex_address :: "'u \<Rightarrow> string"
  ex_float :: "'f f64_ops"
  ex_random :: "nat \<Rightarrow> 'f"
  ex_rtt :: "string \<Rightarrow> 'f UpstreamRttStats option"
  ex_arrivals :: "nat \<Rightarrow> nat list"

text \<open>\<open>xs[i]\<close>, \<open>xs[i] = v\<close> and \<open>Vec::swap_remove\<close>, which panic out of range.\<close>

definition idx_at :: "'a list \<Rightarrow> nat \<Rightarrow> (unit, 'a) res" where
  "idx_at xs i = (if i < length xs then Ok (xs ! i) else Panic)"

definition set_at :: "'a list \<Rightarrow> nat \<Rightarrow> 'a \<Rightarrow> (unit, 'a list) res" where
  "set_at xs i v = (if i < length xs then Ok (xs[i := v]) else Panic)"

definition swap_remove :: "'a list \<Rightarrow> nat \<Rightarrow> (unit, 'a \<times> 'a list) res" where
  "swap_remove xs i = (if i < length xs then Ok (xs ! i, butlast (xs[i := last xs])) else Panic)"

subsection \<open>One attempt\<close>

record ExchangeOutcome =
  o_packet :: "DoHError + packet"
  o_query_stats :: QueryStatistics

definition attempt ::
  "('u, 'f, 'z) exchange_env_scheme \<Rightarrow> nat \<Rightarrow> 'u \<Rightarrow> packet \<Rightarrow> (DoHError + packet) \<times> duration" where
  "attempt env n u query =
    (case ex_single env n u query of (result, d) \<Rightarrow> (and_then result validate_exchange_packet, d))"

definition attempt_stat :: "string \<Rightarrow> duration \<Rightarrow> DoHError + packet \<Rightarrow> UpstreamStatistics" where
  "attempt_stat addr d result =
    (case result of Inr _ \<Rightarrow> stat_success addr d | Inl err \<Rightarrow> stat_failure addr d (show_error err))"

text \<open>The branch of both strategies for a single upstream.\<close>

definition exchange_only :: "('u, 'f, 'z) exchange_env_scheme \<Rightarrow> packet \<Rightarrow> 'u \<Rightarrow> ExchangeOutcome" where
  "exchange_only env query u =
    (let (result, d) = attempt env 0 u query in
     \<lparr>o_packet = result, o_query_stats = with_main [attempt_stat (ex_address env u) d result]\<rparr>)"

subsection \<open>Load balancing\<close>

definition LOAD_BALANCE_FAILURE_PENALTY :: duration where
  "LOAD_BALANCE_FAILURE_PENALTY = 10 * 1000000000"

definition rtt_default :: "'f f64_ops \<Rightarrow> 'f UpstreamRttStats" where
  "rtt_default fl = \<lparr>rtt_sum_us = f_zero fl, req_num = f_zero fl\<rparr>"

definition rtt_update :: "'f f64_ops \<Rightarrow> 'f UpstreamRttStats \<Rightarrow> duration \<Rightarrow> 'f UpstreamRttStats" where
  "rtt_update fl st rtt =
    \<lparr>rtt_sum_us = f_add fl (rtt_sum_us st) (f_of_nat fl (as_micros rtt)),
     req_num = f_add fl (req_num st) (f_one fl)\<rparr>"

definition update_rtt ::
  "'f f64_ops \<Rightarrow> (string \<Rightarrow> 'f UpstreamRttStats option) \<Rightarrow> string \<Rightarrow> duration
    \<Rightarrow> string \<Rightarrow> 'f UpstreamRttStats option" where
  "update_rtt fl rtt key elapsed = rtt(key \<mapsto> rtt_update fl (unwrap_or (rtt key) (rtt_default fl)) elapsed)"

definition calc_weights ::
  "'f f64_ops \<Rightarrow> (string \<Rightarrow> 'f UpstreamRttStats option) \<Rightarrow> string list \<Rightarrow> 'f list" where
  "calc_weights fl rtt keys = map (\<lambda>key.
     let st = unwrap_or (rtt key) (rtt_default fl) in
     if f_le fl (rtt_sum_us st) (f_zero fl) \<or> f_le fl (req_num st) (f_zero fl) then f_one fl
     else f_div fl (f_one fl) (f_div fl (rtt_sum_us st) (req_num st))) keys"

fun total_weight :: "'f f64_ops \<Rightarrow> 'f \<Rightarrow> nat list \<Rightarrow> 'f list \<Rightarrow> (unit, 'f) res" where
  "total_weight fl acc [] weights = Ok acc"
| "total_weight fl acc (idx # rest) weights =
    rbind (idx_at weights idx) (\<lambda>w.
      total_weight fl (if f_finite fl w \<and> f_lt fl (f_zero fl) w then f_add fl acc w else acc)
        rest weights)"

fun pick_index :: "'f f64_ops \<Rightarrow> 'f \<Rightarrow> nat \<Rightarrow> nat list \<Rightarrow> 'f list \<Rightarrow> (unit, nat) res" where
  "pick_index fl cursor pos [] weights = Ok 0"
| "pick_index fl cursor pos (idx # rest) weights =
    rbind (idx_at weights idx) (\<lambda>w.
      if \<not> f_finite fl w \<or> f_le fl w (f_zero fl) then pick_index fl cursor (pos + 1) rest weights
      else if f_le fl cursor w then Ok pos
      else pick_index fl (f_sub fl cursor w) (pos + 1) rest weights)"

definition sample_weighted_index ::
  "'f f64_ops \<Rightarrow> 'f \<Rightarrow> nat list \<Rightarrow> 'f list \<Rightarrow> (unit, nat) res" where
  "sample_weighted_index fl random remaining weights =
    rbind (total_weight fl (f_zero fl) remaining weights) (\<lambda>total.
      if f_le fl total (f_zero fl) then Ok 0
      else pick_index fl (f_mul fl random total) 0 remaining weights)"

lemma length_swap_remove: "swap_remove xs i = Ok (x, ys) \<Longrightarrow> length ys < length xs"
  by (auto simp: swap_remove_def split: if_splits)

function lb_loop ::
  "('u, 'f, 'z) exchange_env_scheme \<Rightarrow> packet \<Rightarrow> 'u list \<Rightarrow> 'f list \<Rightarrow> nat \<Rightarrow> nat list
    \<Rightarrow> UpstreamAttemptError list \<Rightarrow> UpstreamStatistics option list
    \<Rightarrow> (string \<Rightarrow> 'f UpstreamRttStats option)
    \<Rightarrow> (unit, ExchangeOutcome \<times> (string \<Rightarrow> 'f UpstreamRttStats option)) res" where
  "lb_loop env query upstreams weights n remaining failures attempts rtt =
    (if remaining = [] then
       Ok (\<lparr>o_packet = Inl (from_upstream_attempts failures),
            o_query_stats = with_main (List.map_filter id attempts)\<rparr>, rtt)
     else
       rbind (sample_weighted_index (ex_float env) (ex_random env n) remaining weights) (\<lambda>pick_pos.
       rbind (swap_remove remaining pick_pos) (\<lambda>(idx, remaining').
       rbind (idx_at upstreams idx) (\<lambda>u.
         let (result, d) = attempt env n u query; addr = ex_address env u in
         case result of
           Inr packet \<Rightarrow>
             rbind (set_at attempts idx (Some (stat_success addr d))) (\<lambda>_.
             Ok (\<lparr>o_packet = Inr packet, o_query_stats = with_main [stat_success addr d]\<rparr>,
                 update_rtt (ex_float env) rtt addr d))
         | Inl err \<Rightarrow>
             rbind (set_at attempts idx (Some (stat_failure addr d (show_error err)))) (\<lambda>attempts'.
             lb_loop env query upstreams weights (n + 1) remaining'
               (failures @ [attempt_error_of addr d err]) attempts'
               (update_rtt (ex_float env) rtt addr LOAD_BALANCE_FAILURE_PENALTY))))))"
  by pat_completeness auto
termination
  by (relation "measure (\<lambda>(env, q, us, ws, n, rem, fs, as, rtt). length rem)")
    (auto dest: length_swap_remove)

declare lb_loop.simps [simp del]

definition exchange_load_balance ::
  "('u, 'f, 'z) exchange_env_scheme \<Rightarrow> packet \<Rightarrow> 'u list
    \<Rightarrow> (unit, ExchangeOutcome \<times> (string \<Rightarrow> 'f UpstreamRttStats option)) res" where
  "exchange_load_balance env query upstreams =
    (if length upstreams = 1 then Ok (exchange_only env query (upstreams ! 0), ex_rtt env)
     else
       let weights = calc_weights (ex_float env) (ex_rtt env) (map (ex_address env) upstreams) in
       lb_loop env query upstreams weights 0 [0..<length upstreams] []
         (replicate (length upstreams) None) (ex_rtt env))"

subsection \<open>All upstreams in parallel\<close>

text \<open>
  The receiving loop: at most \<open>upstreams.len()\<close> results, in the order of delivery; it stops early
  when the channel closes. The task of upstream \<open>idx\<close> makes the attempt numbered \<open>idx\<close>.
\<close>

fun parallel_loop ::
  "('u, 'f, 'z) exchange_env_scheme \<Rightarrow> packet \<Rightarrow> 'u list \<Rightarrow> nat list
    \<Rightarrow> UpstreamAttemptError list \<Rightarrow> UpstreamStatistics option list \<Rightarrow> (unit, ExchangeOutcome) res" where
  "parallel_loop env query upstreams [] failures attempts =
     Ok \<lparr>o_packet = Inl (from_upstream_attempts failures),
         o_query_stats = with_main (List.map_filter id attempts)\<rparr>"
| "parallel_loop env query upstreams (idx # arrivals) failures attempts =
    rbind (idx_at upstreams idx) (\<lambda>u.
      let (result, d) = attempt env idx u query; addr = ex_address env u in
      case result of
        Inr packet \<Rightarrow> Ok \<lparr>o_packet = Inr packet, o_query_stats = with_main [stat_success addr d]\<rparr>
      | Inl err \<Rightarrow>
          rbind (set_at attempts idx (Some (stat_failure addr d (show_error err)))) (\<lambda>attempts.
          parallel_loop env query upstreams arrivals (failures @ [attempt_error_of addr d err]) attempts))"

definition exchange_parallel ::
  "('u, 'f, 'z) exchange_env_scheme \<Rightarrow> packet \<Rightarrow> 'u list \<Rightarrow> (unit, ExchangeOutcome) res" where
  "exchange_parallel env query upstreams =
    (if length upstreams = 1 then Ok (exchange_only env query (upstreams ! 0))
     else parallel_loop env query upstreams (take (length upstreams) (ex_arrivals env (length upstreams)))
            [] (replicate (length upstreams) None))"

subsection \<open>What an exchange promises\<close>

text \<open>An upstream sent the packet; an upstream answers every attempt.\<close>

definition sent_by :: "('u, 'f, 'z) exchange_env_scheme \<Rightarrow> packet \<Rightarrow> 'u \<Rightarrow> packet \<Rightarrow> bool" where
  "sent_by env query u packet \<longleftrightarrow> (\<exists>n d. ex_single env n u query = (Inr packet, d))"

definition answers :: "('u, 'f, 'z) exchange_env_scheme \<Rightarrow> packet \<Rightarrow> 'u \<Rightarrow> bool" where
  "answers env query u \<longleftrightarrow> (\<forall>n. \<exists>packet d. ex_single env n u query = (Inr packet, d) \<and> validate_packet packet)"

text \<open>Every task delivers its result, in any order.\<close>

definition all_arrive :: "('u, 'f, 'z) exchange_env_scheme \<Rightarrow> bool" where
  "all_arrive env \<longleftrightarrow> (\<forall>n. mset (ex_arrivals env n) = mset [0..<n])"

text \<open>Two upstreams, numbered 0 and 1: the first never answers.\<close>

definition sample_float :: "nat f64_ops" where
  "sample_float = \<lparr>f_zero = 0, f_one = 1, f_add = (+), f_sub = (-), f_mul = (*), f_div = (div),
     f_le = (\<le>), f_lt = (<), f_finite = (\<lambda>_. True), f_of_nat = id\<rparr>"

definition sample_env :: "(nat, nat) exchange_env" where
  "sample_env = \<lparr>ex_single = (\<lambda>n u q. (if u = 1 then Inr (enc_msg sample_msg) else Inl UpstreamTimeout, 5000)),
     ex_address = show_nat, ex_float = sample_float, ex_random = (\<lambda>_. 0), ex_rtt = (\<lambda>_. None),
     ex_arrivals = (\<lambda>n. rev [0..<n])\<rparr>"

lemma attempt_Inr: "attempt env n u q = (Inr p, d) \<longleftrightarrow> ex_single env n u q = (Inr p, d) \<and> validate_packet p"
  by (auto simp: attempt_def validate_exchange_Inr split: prod.splits)

lemma attempt_answers: "answers env q u \<Longrightarrow> \<exists>p d. attempt env n u q = (Inr p, d)"
  unfolding answers_def attempt_Inr by blast

lemma attempt_address [simp]: "ae_address (attempt_error_of addr d err) = addr"
  by (simp add: attempt_error_of_def)

subsection \<open>The weighted choice\<close>

lemma total_weight_Ok:
  "\<forall>idx \<in> set rem. idx < length weights \<Longrightarrow> \<exists>t. total_weight fl acc rem weights = Ok t"
  by (induction rem arbitrary: acc) (auto simp: idx_at_def)

lemma pick_index_Ok:
  "\<forall>idx \<in> set rem. idx < length weights \<Longrightarrow>
   \<exists>k. pick_index fl cursor pos rem weights = Ok k \<and> (k = 0 \<or> k < pos + length rem)"
proof (induction rem arbitrary: cursor pos)
  case (Cons idx rem)
  let ?w = "weights ! idx"
  have "\<exists>k. pick_index fl c (pos + 1) rem weights = Ok k \<and> (k = 0 \<or> k < (pos + 1) + length rem)" for c
    using Cons.IH [of c "pos + 1"] Cons.prems by simp
  then obtain k1 k2 where "pick_index fl cursor (pos + 1) rem weights = Ok k1" "k1 = 0 \<or> k1 < (pos + 1) + length rem"
    "pick_index fl (f_sub fl cursor ?w) (pos + 1) rem weights = Ok k2" "k2 = 0 \<or> k2 < (pos + 1) + length rem"
    by blast
  moreover have "idx < length weights" using Cons.prems by simp
  ultimately show ?case by (auto simp: idx_at_def)
qed simp

lemma sample_weighted_index_Ok:
  assumes "\<forall>idx \<in> set rem. idx < length weights" "rem \<noteq> []"
  obtains k where "sample_weighted_index fl rnd rem weights = Ok k" "k < length rem"
proof -
  obtain t where t: "total_weight fl (f_zero fl) rem weights = Ok t"
    using total_weight_Ok [OF assms(1)] by blast
  obtain k where k: "pick_index fl (f_mul fl rnd t) 0 rem weights = Ok k" "k = 0 \<or> k < 0 + length rem"
    using pick_index_Ok [OF assms(1)] by blast
  have "0 < length rem" using assms(2) by simp
  with t k show thesis
    by (intro that [of "if f_le fl t (f_zero fl) then 0 else k"]) (auto simp: sample_weighted_index_def simp del: rbind_eq_Ok)
qed

lemma swap_remove_Ok:
  assumes "i < length xs"
  obtains ys where "swap_remove xs i = Ok (xs ! i, ys)" "mset xs = add_mset (xs ! i) (mset ys)"
proof -
  have "xs \<noteq> []" using assms by auto
  then have l: "mset xs = add_mset (last xs) (mset (butlast xs))"
    by (metis append_butlast_last_id mset.simps(2) mset_rev rev.simps(2) rev_rev_ident)
  have "mset (butlast (xs[i := last xs])) = mset xs - {#xs ! i#}"
  proof (cases "i = length xs - 1")
    case True
    then have "xs ! i = last xs" using \<open>xs \<noteq> []\<close> by (simp add: last_conv_nth)
    moreover from this have "xs[i := last xs] = xs" by (metis list_update_id)
    ultimately show ?thesis using l by simp
  next
    case False
    then have i: "i < length (butlast xs)" "butlast xs ! i = xs ! i"
      using assms by (simp_all add: nth_butlast)
    have "butlast (xs[i := last xs]) = (butlast xs)[i := last xs]"
      using False assms by (simp add: butlast_list_update)
    then have "mset (butlast (xs[i := last xs])) = add_mset (last xs) (mset (butlast xs) - {#xs ! i#})"
      using mset_update [OF i(1), of "last xs"] i(2) by simp
    moreover have "xs ! i \<in># mset (butlast xs)" using i by (metis nth_mem set_mset_mset)
    ultimately show ?thesis using l by simp
  qed
  moreover have "xs ! i \<in># mset xs" using assms by simp
  ultimately have "mset xs = add_mset (xs ! i) (mset (butlast (xs[i := last xs])))" by simp
  then show thesis using assms by (intro that [of "butlast (xs[i := last xs])"]) (simp_all add: swap_remove_def)
qed

subsection \<open>The loops\<close>

text \<open>
  What a loop promises when it still has the upstreams \<open>rem\<close> to try and the failures so far:
  a packet comes from one of them, failing means that each of them failed, and the failures are
  reported once per upstream.
\<close>

definition loop_result ::
  "('u, 'f, 'z) exchange_env_scheme \<Rightarrow> packet \<Rightarrow> 'u list \<Rightarrow> nat list \<Rightarrow> UpstreamAttemptError list
    \<Rightarrow> DoHError + packet \<Rightarrow> bool" where
  "loop_result env query upstreams rem failures r \<longleftrightarrow>
    (case r of
       Inr p \<Rightarrow> validate_packet p \<and> (\<exists>idx \<in> set rem. sent_by env query (upstreams ! idx) p)
     | Inl e \<Rightarrow> (\<exists>fs. e = from_upstream_attempts (failures @ fs)
         \<and> mset (map ae_address fs) = mset (map (\<lambda>idx. ex_address env (upstreams ! idx)) rem))
         \<and> (\<forall>idx \<in> set rem. \<not> answers env query (upstreams ! idx)))"

lemma loop_result_now:
  "attempt env n (upstreams ! idx) query = (Inr p, d) \<Longrightarrow> idx \<in> set rem \<Longrightarrow>
   loop_result env query upstreams rem failures (Inr p)"
  by (auto simp: loop_result_def attempt_Inr sent_by_def)

lemma loop_result_later:
  assumes "loop_result env query upstreams rem' (failures @ [attempt_error_of (ex_address env (upstreams ! idx)) d err]) r"
    and "attempt env n (upstreams ! idx) query = (Inl err, d)"
    and "mset rem = add_mset idx (mset rem')"
  shows "loop_result env query upstreams rem failures r"
proof -
  have s: "set rem = insert idx (set rem')" using assms(3) by (metis set_mset_add_mset_insert set_mset_mset)
  have no: "\<not> answers env query (upstreams ! idx)" 
    using assms(2) attempt_answers [of env query "upstreams ! idx" n] by auto
  have m: "mset (map f rem) = add_mset (f idx) (mset (map f rem'))" for f :: "nat \<Rightarrow> string"
    using assms(3) by (metis image_mset_add_mset mset_map)
  show ?thesis
  proof (cases r)
    case (Inl e)
    with assms(1) obtain fs where fs: "e = from_upstream_attempts
        ((failures @ [attempt_error_of (ex_address env (upstreams ! idx)) d err]) @ fs)"
      "mset (map ae_address fs) = mset (map (\<lambda>i. ex_address env (upstreams ! i)) rem')"
      "\<forall>i \<in> set rem'. \<not> answers env query (upstreams ! i)"
      by (auto simp: loop_result_def)
    let ?fs = "attempt_error_of (ex_address env (upstreams ! idx)) d err # fs"
    have "e = from_upstream_attempts (failures @ ?fs)" using fs(1) by simp
    moreover have "mset (map ae_address ?fs) = mset (map (\<lambda>i. ex_address env (upstreams ! i)) rem)"
      using fs(2) m by simp
    ultimately have "\<exists>fs. e = from_upstream_attempts (failures @ fs)
        \<and> mset (map ae_address fs) = mset (map (\<lambda>i. ex_address env (upstreams ! i)) rem)" by blast
    moreover have "\<forall>i \<in> set rem. \<not> answers env query (upstreams ! i)" using fs(3) s no by simp
    ultimately show ?thesis using Inl by (simp add: loop_result_def del: mset_map)
  qed (use assms(1) s in \<open>auto simp: loop_result_def\<close>)
qed

lemma lb_loop_result:
  assumes "\<forall>idx \<in> set rem. idx < length upstreams" "length weights = length upstreams"
    "length attempts = length upstreams"
  shows "\<exists>out rtt'. lb_loop env query upstreams weights n rem failures attempts rtt = Ok (out, rtt')
    \<and> loop_result env query upstreams rem failures (o_packet out)"
  using assms
proof (induction "length rem" arbitrary: rem n failures attempts rtt rule: less_induct)
  case less
  show ?case
  proof (cases "rem = []")
    case True
    then show ?thesis
      by (subst lb_loop.simps) (auto simp: loop_result_def intro: exI [of _ "[]"])
  next
    case False
    obtain k where k: "sample_weighted_index (ex_float env) (ex_random env n) rem weights = Ok k" "k < length rem"
      using less.prems False by (metis sample_weighted_index_Ok)
    obtain rem' where rem': "swap_remove rem k = Ok (rem ! k, rem')" "mset rem = add_mset (rem ! k) (mset rem')"
      using swap_remove_Ok [OF k(2)] by blast
    let ?idx = "rem ! k"
    have idx: "?idx \<in> set rem" "?idx < length upstreams" using k(2) less.prems(1) by auto
    have sub: "set rem' \<subseteq> set rem" using rem'(2) by (metis set_mset_add_mset_insert set_mset_mset subset_insertI)
    obtain r d where a: "attempt env n (upstreams ! ?idx) query = (r, d)" by fastforce
    show ?thesis
    proof (cases r)
      case (Inr p)
      with a idx(1) have "loop_result env query upstreams rem failures (Inr p)" by (auto intro: loop_result_now)
      then show ?thesis
        using False k(1) rem'(1) idx(2) a Inr less.prems(3)
        by (subst lb_loop.simps) (simp add: idx_at_def set_at_def Let_def del: rbind_eq_Ok)
    next
      case (Inl err)
      let ?addr = "ex_address env (upstreams ! ?idx)"
      let ?fs = "failures @ [attempt_error_of ?addr d err]"
      let ?attempts = "attempts[?idx := Some (stat_failure ?addr d (show_error err))]"
      let ?rtt = "update_rtt (ex_float env) rtt ?addr LOAD_BALANCE_FAILURE_PENALTY"
      have "\<forall>i \<in> set rem'. i < length upstreams" using less.prems(1) sub by auto
      moreover have "length ?attempts = length upstreams" using less.prems(3) by simp
      ultimately obtain out rtt' where rec: "lb_loop env query upstreams weights (n + 1) rem' ?fs ?attempts ?rtt = Ok (out, rtt')"
        "loop_result env query upstreams rem' ?fs (o_packet out)"
        using less.hyps [OF length_swap_remove [OF rem'(1)] _ less.prems(2)] by blast
      then show ?thesis
        using False k(1) rem'(1) idx(2) a Inl less.prems(3) loop_result_later [OF rec(2) a [unfolded Inl] rem'(2)]
        by (subst lb_loop.simps) (simp add: idx_at_def set_at_def del: rbind_eq_Ok)
    qed
  qed
qed

lemma parallel_loop_result:
  assumes "\<forall>idx \<in> set rem. idx < length upstreams" "length attempts = length upstreams"
  shows "\<exists>out. parallel_loop env query upstreams rem failures attempts = Ok out
    \<and> loop_result env query upstreams rem failures (o_packet out)"
  using assms
proof (induction rem arbitrary: failures attempts)
  case Nil
  then show ?case by (auto simp: loop_result_def intro: exI [of _ "[]"])
next
  case (Cons idx rem)
  obtain r d where a: "attempt env idx (upstreams ! idx) query = (r, d)" by fastforce
  show ?case
  proof (cases r)
    case (Inr p)
    with a have "loop_result env query upstreams (idx # rem) failures (Inr p)" by (auto intro: loop_result_now)
    with a Inr Cons.prems show ?thesis by (simp add: idx_at_def)
  next
    case (Inl err)
    let ?addr = "ex_address env (upstreams ! idx)"
    obtain out where rec: "parallel_loop env query upstreams rem (failures @ [attempt_error_of ?addr d err])
        (attempts[idx := Some (stat_failure ?addr d (show_error err))]) = Ok out"
      "loop_result env query upstreams rem (failures @ [attempt_error_of ?addr d err]) (o_packet out)"
      using Cons by (metis length_list_update list.set_intros(2))
    with a Inl Cons.prems loop_result_later [OF rec(2) a [unfolded Inl]] show ?thesis
      by (simp add: idx_at_def set_at_def)
  qed
qed

subsection \<open>The contract of a strategy\<close>

text \<open>
  A strategy returns on every environment; a packet it returns is decodable and comes from a
  reply of one of the upstreams; it returns a packet when one of at least one upstreams answers.
  What "comes from" means is a parameter: a strategy may change the reply.
\<close>

locale exchange_strategy =
  fixes exch :: "('u, 'f, 'z) exchange_env_scheme \<Rightarrow> packet \<Rightarrow> 'u list \<Rightarrow> (unit, ExchangeOutcome) res"
    and env_ok :: "('u, 'f, 'z) exchange_env_scheme \<Rightarrow> bool"
    and derived :: "packet \<Rightarrow> packet \<Rightarrow> bool"
  assumes exch_returns: "env_ok env \<Longrightarrow> \<exists>out. exch env query upstreams = Ok out"
    and exch_sound: "env_ok env \<Longrightarrow> exch env query upstreams = Ok out \<Longrightarrow> o_packet out = Inr p \<Longrightarrow>
      \<exists>u \<in> set upstreams. \<exists>reply. sent_by env query u reply \<and> validate_packet reply \<and> derived reply p"
    and exch_complete: "env_ok env \<Longrightarrow> exch env query upstreams = Ok out \<Longrightarrow> o_packet out = Inl e \<Longrightarrow>
      u \<in> set upstreams \<Longrightarrow> \<not> answers env query u"
begin

lemma one_answer_suffices:
  assumes "env_ok env" "u \<in> set upstreams" "answers env query u"
  shows "\<exists>out p. exch env query upstreams = Ok out \<and> o_packet out = Inr p
    \<and> (\<exists>v \<in> set upstreams. \<exists>reply. sent_by env query v reply \<and> validate_packet reply \<and> derived reply p)"
proof -
  obtain out where out: "exch env query upstreams = Ok out" using exch_returns [OF assms(1)] by blast
  show ?thesis
  proof (cases "o_packet out")
    case (Inl e)
    from exch_complete [OF assms(1) out Inl assms(2)] assms(3) show ?thesis by blast
  next
    case (Inr p)
    from exch_sound [OF assms(1) out Inr] out Inr show ?thesis by blast
  qed
qed

lemma returns_or_fails:
  assumes "env_ok env"
  shows "\<exists>out. exch env query upstreams = Ok out
    \<and> (case o_packet out of
         Inr p \<Rightarrow> \<exists>v \<in> set upstreams. \<exists>reply. sent_by env query v reply \<and> validate_packet reply \<and> derived reply p
       | Inl e \<Rightarrow> \<forall>u \<in> set upstreams. \<not> answers env query u)"
  using exch_returns [OF assms, of query upstreams] exch_sound [OF assms] exch_complete [OF assms]
  by (fastforce split: sum.split)

lemma no_upstream_no_packet:
  assumes "env_ok env" "exch env query [] = Ok out"
  shows "o_packet out \<in> range Inl"
  using exch_sound [OF assms] by (cases "o_packet out") auto

end

lemma loop_result_sound:
  assumes "loop_result env query upstreams rem failures r" "\<forall>idx \<in> set rem. idx < length upstreams"
  shows "r = Inr p \<Longrightarrow> \<exists>u \<in> set upstreams. sent_by env query u p \<and> validate_packet p"
  using assms by (fastforce simp: loop_result_def)

lemma loop_result_complete:
  assumes "loop_result env query upstreams rem failures r" "set rem = {..<length upstreams}"
  shows "r = Inl e \<Longrightarrow> u \<in> set upstreams \<Longrightarrow> \<not> answers env query u"
  using assms by (auto simp: loop_result_def in_set_conv_nth)

lemma exchange_only_result:
  "o_packet (exchange_only env query u) = Inr p \<Longrightarrow> sent_by env query u p \<and> validate_packet p"
  "o_packet (exchange_only env query u) = Inl e \<Longrightarrow> \<not> answers env query u"
proof -
  obtain r d where a: "attempt env 0 u query = (r, d)" by fastforce
  then have o: "o_packet (exchange_only env query u) = r" by (simp add: exchange_only_def)
  show "o_packet (exchange_only env query u) = Inr p \<Longrightarrow> sent_by env query u p \<and> validate_packet p"
    using a o by (auto simp: attempt_Inr sent_by_def)
  show "o_packet (exchange_only env query u) = Inl e \<Longrightarrow> \<not> answers env query u"
    using a o attempt_answers [of env query u 0] by auto
qed

definition lb_exchange ::
  "('u, 'f, 'z) exchange_env_scheme \<Rightarrow> packet \<Rightarrow> 'u list \<Rightarrow> (unit, ExchangeOutcome) res" where
  "lb_exchange env query upstreams = rbind (exchange_load_balance env query upstreams) (\<lambda>(out, _). Ok out)"

lemma load_balance_result:
  assumes "length upstreams \<noteq> 1"
  shows "\<exists>out. lb_exchange env query upstreams = Ok out
    \<and> loop_result env query upstreams [0..<length upstreams] [] (o_packet out)"
proof -
  obtain out rtt' where l: "exchange_load_balance env query upstreams = Ok (out, rtt')"
    "loop_result env query upstreams [0..<length upstreams] [] (o_packet out)"
    using lb_loop_result [of "[0..<length upstreams]" upstreams
        "calc_weights (ex_float env) (ex_rtt env) (map (ex_address env) upstreams)"
        "replicate (length upstreams) None" env query 0 "[]" "ex_rtt env"] assms
    by (auto simp: exchange_load_balance_def calc_weights_def Let_def)
  then show ?thesis by (simp add: lb_exchange_def del: rbind_eq_Ok)
qed

lemma lb_exchange_only: "length upstreams = 1 \<Longrightarrow> lb_exchange env query upstreams = Ok (exchange_only env query (upstreams ! 0))"
  by (simp add: lb_exchange_def exchange_load_balance_def)

lemma arrivals_indices:
  assumes "all_arrive env"
  shows "set (take n (ex_arrivals env n)) = {..<n}" "mset (take n (ex_arrivals env n)) = mset [0..<n]"
proof -
  have "mset (ex_arrivals env n) = mset [0..<n]" using assms by (simp add: all_arrive_def)
  then have "length (ex_arrivals env n) = n" "set (ex_arrivals env n) = {..<n}"
    by (metis size_mset length_upt diff_zero, metis set_mset_mset set_upt atLeast0LessThan)
  then show "set (take n (ex_arrivals env n)) = {..<n}" "mset (take n (ex_arrivals env n)) = mset [0..<n]"
    using \<open>mset (ex_arrivals env n) = mset [0..<n]\<close> by simp_all
qed

lemma parallel_result:
  assumes "all_arrive env" "length upstreams \<noteq> 1"
  shows "\<exists>out. exchange_parallel env query upstreams = Ok out
    \<and> loop_result env query upstreams (take (length upstreams) (ex_arrivals env (length upstreams))) [] (o_packet out)"
  using assms arrivals_indices(1) [OF assms(1), of "length upstreams"]
    parallel_loop_result [of "take (length upstreams) (ex_arrivals env (length upstreams))" upstreams
      "replicate (length upstreams) None" env query "[]"]
  by (simp add: exchange_parallel_def)

lemma single_upstream: "length upstreams = 1 \<Longrightarrow> set upstreams = {upstreams ! 0}"
  by (cases upstreams) auto

interpretation load_balance: exchange_strategy lb_exchange "\<lambda>_. True" "\<lambda>reply p. p = reply"
proof unfold_locales
  fix env :: "('u, 'f, 'z) exchange_env_scheme" and query and upstreams :: "'u list" and out p e u
  show "\<exists>out. lb_exchange env query upstreams = Ok out"
    using load_balance_result lb_exchange_only by (cases "length upstreams = 1") blast+
  assume o: "lb_exchange env query upstreams = Ok out"
  show "\<exists>u \<in> set upstreams. \<exists>reply. sent_by env query u reply \<and> validate_packet reply \<and> p = reply"
    if "o_packet out = Inr p"
  proof (cases "length upstreams = 1")
    case True
    with o that exchange_only_result(1) [of env query "upstreams ! 0" p] show ?thesis
      by (auto simp: lb_exchange_only single_upstream [OF True])
  next
    case False
    then have "loop_result env query upstreams [0..<length upstreams] [] (o_packet out)"
      using load_balance_result [of upstreams env query] o by auto
    from loop_result_sound [OF this _ that] show ?thesis by auto
  qed
  show "\<not> answers env query u" if "o_packet out = Inl e" "u \<in> set upstreams"
  proof (cases "length upstreams = 1")
    case True
    with o that exchange_only_result(2) [of env query "upstreams ! 0" e] show ?thesis
      by (auto simp: lb_exchange_only single_upstream [OF True])
  next
    case False
    then have "loop_result env query upstreams [0..<length upstreams] [] (o_packet out)"
      using load_balance_result [of upstreams env query] o by auto
    from loop_result_complete [OF this _ that] show ?thesis by (simp add: atLeast0LessThan)
  qed
qed

interpretation parallel: exchange_strategy exchange_parallel all_arrive "\<lambda>reply p. p = reply"
proof unfold_locales
  fix env :: "('u, 'f, 'z) exchange_env_scheme" and query and upstreams :: "'u list" and out p e u
  assume arr: "all_arrive env"
  let ?rem = "take (length upstreams) (ex_arrivals env (length upstreams))"
  note idx = arrivals_indices(1) [OF arr, of "length upstreams"]
  have only: "exchange_parallel env query upstreams = Ok (exchange_only env query (upstreams ! 0))"
    if "length upstreams = 1" using that by (simp add: exchange_parallel_def)
  show "\<exists>out. exchange_parallel env query upstreams = Ok out"
    using parallel_result [OF arr] only by (cases "length upstreams = 1") blast+
  assume o: "exchange_parallel env query upstreams = Ok out"
  have loop: "loop_result env query upstreams ?rem [] (o_packet out)" if "length upstreams \<noteq> 1"
    using parallel_result [OF arr that, of query] o by auto
  show "\<exists>u \<in> set upstreams. \<exists>reply. sent_by env query u reply \<and> validate_packet reply \<and> p = reply"
    if "o_packet out = Inr p"
  proof (cases "length upstreams = 1")
    case True
    with o that exchange_only_result(1) [of env query "upstreams ! 0" p] show ?thesis
      by (auto simp: only single_upstream [OF True])
  next
    case False
    from loop_result_sound [OF loop [OF False] _ that] idx show ?thesis by auto
  qed
  show "\<not> answers env query u" if "o_packet out = Inl e" "u \<in> set upstreams"
  proof (cases "length upstreams = 1")
    case True
    with o that exchange_only_result(2) [of env query "upstreams ! 0" e] show ?thesis
      by (auto simp: only single_upstream [OF True])
  next
    case False
    from loop_result_complete [OF loop [OF False] idx that] show ?thesis .
  qed
qed

subsection \<open>Properties of the strategies\<close>

lemma validate_sample: "validate_packet (enc_msg sample_msg)"
  using msg_unpack_enc [OF wf_sample_msg] by (simp add: validate_packet_def is_ok_def)

text \<open>
  C14 (liveness): load balancing, whatever the upstreams do, and whatever the weights, the random
  numbers and the floating-point arithmetic, returns without an index out of range. It returns a
  decodable packet that one of the upstreams sent for this query, or an error, and an error only when
  no upstream answers every attempt with a decodable packet.
\<close>

theorem load_balance_one_answer_suffices:
  "\<exists>out. lb_exchange env query upstreams = Ok out
    \<and> (case o_packet out of
         Inr p \<Rightarrow> validate_packet p \<and> (\<exists>v \<in> set upstreams. sent_by env query v p)
       | Inl e \<Rightarrow> (\<forall>u \<in> set upstreams. \<not> answers env query u))"
  using load_balance.returns_or_fails [OF TrueI, of env query upstreams] by (auto split: sum.splits)

theorem load_balance_one_answer_suffices_witness:
  "\<exists>out p. lb_exchange sample_env [] [0, 1] = Ok out \<and> o_packet out = Inr p \<and> validate_packet p"
proof -
  have "answers sample_env [] 1" by (simp add: answers_def sample_env_def validate_sample)
  moreover obtain out where "lb_exchange sample_env [] [0, 1] = Ok out"
    "case o_packet out of Inr p \<Rightarrow> validate_packet p \<and> (\<exists>v \<in> set [0, 1]. sent_by sample_env [] v p)
       | Inl e \<Rightarrow> (\<forall>u \<in> set [0, 1]. \<not> answers sample_env [] u)"
    using load_balance_one_answer_suffices [of sample_env "[]" "[0, 1]"] by blast
  ultimately show ?thesis by (cases "o_packet out") auto
qed

text \<open>
  the same for the parallel strategy, for every order in which the results of the
  spawned tasks are delivered.
\<close>

lemma parallel_one_answer_suffices:
  assumes "all_arrive env" "u \<in> set upstreams" "answers env query u"
  shows "\<exists>out p. exchange_parallel env query upstreams = Ok out \<and> o_packet out = Inr p \<and> validate_packet p
    \<and> (\<exists>v \<in> set upstreams. sent_by env query v p)"
  using parallel.one_answer_suffices [OF assms] by blast

text \<open>
  C16 (error): when an exchange with several upstreams fails, under either strategy, the error
  lists exactly one failed attempt for every configured upstream.
\<close>

theorem failed_exchange_reports_every_upstream:
  assumes "2 \<le> length upstreams"
    and "lb_exchange env query upstreams = Ok out
      \<or> (all_arrive env \<and> exchange_parallel env query upstreams = Ok out)"
    and "o_packet out = Inl e"
  shows "\<exists>fs. e = UpstreamJoined fs \<and> mset (map ae_address fs) = mset (map (ex_address env) upstreams)"
proof -
  have n: "length upstreams \<noteq> 1" using assms(1) by simp
  have "\<exists>rem. loop_result env query upstreams rem [] (Inl e) \<and> mset rem = mset [0..<length upstreams]"
    using assms(2)
  proof
    assume "lb_exchange env query upstreams = Ok out"
    with load_balance_result [OF n, of env query] assms(3) show ?thesis by auto
  next
    assume "all_arrive env \<and> exchange_parallel env query upstreams = Ok out"
    with parallel_result [OF _ n, of env query] assms(3) arrivals_indices(2) [of env "length upstreams"]
    show ?thesis by auto
  qed
  then obtain rem where r: "loop_result env query upstreams rem [] (Inl e)" "mset rem = mset [0..<length upstreams]"
    by blast
  then obtain fs where fs: "e = from_upstream_attempts fs"
    "mset (map ae_address fs) = mset (map (\<lambda>idx. ex_address env (upstreams ! idx)) rem)"
    by (auto simp: loop_result_def)
  have "mset (map (\<lambda>idx. ex_address env (upstreams ! idx)) rem)
      = mset (map (\<lambda>idx. ex_address env (upstreams ! idx)) [0..<length upstreams])"
    using r(2) by (simp only: mset_map)
  also have "map (\<lambda>idx. ex_address env (upstreams ! idx)) [0..<length upstreams] = map (ex_address env) upstreams"
    by (rule nth_equalityI) simp_all
  finally have m: "mset (map ae_address fs) = mset (map (ex_address env) upstreams)" using fs(2) by simp
  then have "length fs = length upstreams" by (metis size_mset length_map)
  then have "fs \<noteq> []" using assms(1) by auto
  with fs(1) m show ?thesis by auto
qed

theorem failed_exchange_reports_every_upstream_witness:
  "\<exists>out fs. lb_exchange sample_env [] [0, 0] = Ok out \<and> o_packet out = Inl (UpstreamJoined fs)
     \<and> length fs = 2"
proof -
  obtain out where out: "lb_exchange sample_env [] [0, 0] = Ok out"
    "loop_result sample_env [] [0, 0] [0..<length [0, 0 :: nat]] [] (o_packet out)"
    using load_balance_result [of "[0, 0]" sample_env "[]"] by auto
  have "\<not> sent_by sample_env [] 0 p" for p by (simp add: sent_by_def sample_env_def)
  then have "\<exists>e. o_packet out = Inl e"
    using loop_result_sound [OF out(2)] by (cases "o_packet out") auto
  then obtain e where e: "o_packet out = Inl e" by blast
  have "2 \<le> length [0, 0 :: nat]" by simp
  from failed_exchange_reports_every_upstream [OF this disjI1 [OF out(1)] e] obtain fs where
    "e = UpstreamJoined fs" "mset (map ae_address fs) = mset (map (ex_address sample_env) [0, 0])" by blast
  moreover from this have "length fs = 2" by (metis size_mset length_map list.size(3,4) add_0 one_add_one plus_1_eq_Suc Suc_eq_plus1)
  ultimately show ?thesis using out(1) e by blast
qed

end
