(* ===== verification/Net_Addr.thy ===== *)
theory Net_Addr
  imports Upstream_Errors
begin

text \<open>
  Text and addresses as the program uses them from the standard library: splitting, trimming and
  lower-casing of strings, the parser and the printer of \<open>IpAddr\<close>, socket addresses, and the two
  address helpers of \<open>src/libdoh/src/lib.rs\<close> (\<open>local_bind_for_peer\<close>,
  \<open>socket_addr_to_authority\<close>).

  A string is the list of its UTF-8 bytes. Every separator of the program is an ASCII character, so
  splitting the bytes splits the characters. \<open>str::trim\<close> is modelled on ASCII: header values
  that reach it are visible ASCII text.

  The lemmas show that an address printed by the program is read back, and that the address a
  socket is bound to has the family of its peer.
\<close>

subsection \<open>Strings\<close>

text \<open>\<open>str::split\<close> on a character: at least one part, empty parts included.\<close>

fun split_on :: "char \<Rightarrow> string \<Rightarrow> string list" where
  "split_on c [] = [[]]"
| "split_on c (x # xs) =
    (if x = c then [] # split_on c xs
     else case split_on c xs of [] \<Rightarrow> [[x]] | part # parts \<Rightarrow> (x # part) # parts)"

definition starts_with :: "string \<Rightarrow> string \<Rightarrow> bool" where
  "starts_with pre s \<longleftrightarrow> take (length pre) s = pre"

definition is_ascii_space :: "char \<Rightarrow> bool" where
  "is_ascii_space c \<longleftrightarrow> of_char c \<in> {9, 10, 11, 12, 13, 32 :: nat}"

text \<open>The octet of a character.\<close>

definition char_byte :: "char \<Rightarrow> byte" where "char_byte c = of_nat (of_char c)"

text \<open>\<open>str::trim\<close> on ASCII text.\<close>

definition trim :: "string \<Rightarrow> string" where
  "trim s = rev (dropWhile is_ascii_space (rev (dropWhile is_ascii_space s)))"

text \<open>\<open>str::trim\<close> on any text: the white space of Unicode as the octets of its characters.\<close>

definition unicode_spaces :: "string list" where
  "unicode_spaces = map (map char_of)
    ([[9], [10], [11], [12], [13], [32], [0xC2, 0x85], [0xC2, 0xA0], [0xE1, 0x9A, 0x80],
      [0xE2, 0x80, 0xA8], [0xE2, 0x80, 0xA9], [0xE2, 0x80, 0xAF], [0xE2, 0x81, 0x9F], [0xE3, 0x80, 0x80]]
     @ map (\<lambda>i. [0xE2, 0x80, 0x80 + i]) [0..<11] :: nat list list)"

lemma find_prefix_shorter:
  "List.find (\<lambda>pre. pre \<noteq> [] \<and> take (length pre) s = pre) pres = Some pre \<Longrightarrow>
   length s - length pre < length s"
  by (cases s) (auto simp: find_Some_iff)

function strip_any :: "string list \<Rightarrow> string \<Rightarrow> string" where
  "strip_any pres s =
    (case List.find (\<lambda>pre. pre \<noteq> [] \<and> take (length pre) s = pre) pres of
       None \<Rightarrow> s
     | Some pre \<Rightarrow> strip_any pres (drop (length pre) s))"
  by auto
termination
  by (relation "measure (length \<circ> snd)") (auto dest!: find_prefix_shorter)

declare strip_any.simps [simp del]

definition trim_unicode :: "string \<Rightarrow> string" where
  "trim_unicode s = rev (strip_any (map rev unicode_spaces) (rev (strip_any unicode_spaces s)))"

lemma strip_any_head:
  assumes "s \<noteq> []" "\<forall>pre \<in> set pres. pre = [] \<or> hd pre \<noteq> hd s"
  shows "strip_any pres s = s"
proof -
  have "take (length pre) s \<noteq> pre" if "pre \<in> set pres" "pre \<noteq> []" for pre
    using assms that by (cases pre; cases s) auto
  then have "List.find (\<lambda>pre. pre \<noteq> [] \<and> take (length pre) s = pre) pres = None"
    by (auto simp: find_None_iff)
  then show ?thesis by (subst strip_any.simps) simp
qed

definition trim_end_matches :: "char \<Rightarrow> string \<Rightarrow> string" where
  "trim_end_matches c s = rev (dropWhile (\<lambda>x. x = c) (rev s))"

definition to_ascii_lower :: "char \<Rightarrow> char" where
  "to_ascii_lower c = (let n = of_char c :: nat in if 65 \<le> n \<and> n \<le> 90 then char_of (n + 32) else c)"

definition to_ascii_lowercase :: "string \<Rightarrow> string" where
  "to_ascii_lowercase s = map to_ascii_lower s"

text \<open>\<open>HeaderValue::to_str\<close>: only visible ASCII characters and the tab.\<close>

definition header_to_str :: "string \<Rightarrow> string option" where
  "header_to_str s =
    (if list_all (\<lambda>c. let n = of_char c :: nat in (32 \<le> n \<and> n < 127) \<or> n = 9) s then Some s else None)"

text \<open>\<open>char::to_digit\<close> for a radix up to 16.\<close>

definition to_digit :: "nat \<Rightarrow> char \<Rightarrow> nat option" where
  "to_digit radix c =
    (let n = of_char c :: nat;
         d = (if 48 \<le> n \<and> n \<le> 57 then Some (n - 48)
              else if 97 \<le> n \<and> n \<le> 102 then Some (n - 87)
              else if 65 \<le> n \<and> n \<le> 70 then Some (n - 55) else None)
     in case d of None \<Rightarrow> None | Some d \<Rightarrow> if d < radix then Some d else None)"

text \<open>\<open>str::parse\<close> for an unsigned integer type with the given number of values.\<close>

definition parse_uint :: "nat \<Rightarrow> string \<Rightarrow> nat option" where
  "parse_uint bound s =
    (let digits = (if take 1 s = ''+'' then drop 1 s else s) in
     if digits = [] \<or> \<not> list_all (\<lambda>c. to_digit 10 c \<noteq> None) digits then None
     else let n = foldl (\<lambda>acc c. acc * 10 + the (to_digit 10 c)) 0 digits in
       if n < bound then Some n else None)"

subsection \<open>The address parser of the standard library\<close>

text \<open>
  A parser takes the remaining text and returns a value and the rest; on failure nothing is
  consumed. \<open>read_digits\<close> is the loop of \<open>read_number\<close>: value, number of digits, rest.
\<close>

type_synonym 'a parser = "string \<Rightarrow> ('a \<times> string) option"

fun read_digits :: "nat \<Rightarrow> nat \<Rightarrow> nat \<Rightarrow> string \<Rightarrow> nat \<times> nat \<times> string" where
  "read_digits radix acc cnt [] = (acc, cnt, [])"
| "read_digits radix acc cnt (c # cs) =
    (case to_digit radix c of
       None \<Rightarrow> (acc, cnt, c # cs)
     | Some d \<Rightarrow> read_digits radix (acc * radix + d) (cnt + 1) cs)"

definition read_number :: "nat \<Rightarrow> nat \<Rightarrow> bool \<Rightarrow> nat \<Rightarrow> nat parser" where
  "read_number radix max_digits allow_zero_prefix bound s =
    (let (v, cnt, rest) = read_digits radix 0 0 s in
     if cnt > max_digits \<or> v \<ge> bound \<or> cnt = 0 then None
     else if \<not> allow_zero_prefix \<and> take 1 s = ''0'' \<and> cnt > 1 then None
     else Some (v, rest))"

definition read_given_char :: "char \<Rightarrow> unit parser" where
  "read_given_char c s = (case s of [] \<Rightarrow> None | x # xs \<Rightarrow> if x = c then Some ((), xs) else None)"

definition read_separator :: "char \<Rightarrow> nat \<Rightarrow> 'a parser \<Rightarrow> 'a parser" where
  "read_separator sep index inner s =
    (if index > 0 then case read_given_char sep s of None \<Rightarrow> None | Some (_, rest) \<Rightarrow> inner rest
     else inner s)"

definition read_octet :: "byte parser" where
  "read_octet s = map_option (\<lambda>(n, rest). (of_nat n, rest)) (read_number 10 3 False 256 s)"

definition read_ipv4_addr :: "octets4 parser" where
  "read_ipv4_addr s =
    Option.bind (read_octet s) (\<lambda>(a, s).
    Option.bind (read_separator (CHR ''.'') 1 read_octet s) (\<lambda>(b, s).
    Option.bind (read_separator (CHR ''.'') 2 read_octet s) (\<lambda>(c, s).
    Option.bind (read_separator (CHR ''.'') 3 read_octet s) (\<lambda>(d, s).
    Some (Octets4 a b c d, s)))))"

definition octets4_groups :: "octets4 \<Rightarrow> u16 list" where
  "octets4_groups q = (case q of Octets4 a b c d \<Rightarrow> [be16 a b, be16 c d])"

text \<open>\<open>read_groups\<close>: the groups read from position \<open>i\<close> on, whether an IPv4 address ended them, the rest.\<close>

function read_groups :: "nat \<Rightarrow> nat \<Rightarrow> string \<Rightarrow> u16 list \<times> bool \<times> string" where
  "read_groups limit i s =
    (if i < limit then
       case (if i < limit - 1 then read_separator (CHR '':'') i read_ipv4_addr s else None) of
         Some (v4, rest) \<Rightarrow> (octets4_groups v4, True, rest)
       | None \<Rightarrow>
           (case read_separator (CHR '':'') i (read_number 16 4 True 65536) s of
              None \<Rightarrow> ([], False, s)
            | Some (g, rest) \<Rightarrow>
                (case read_groups limit (i + 1) rest of (gs, v4, rest) \<Rightarrow> (of_nat g # gs, v4, rest)))
     else ([], False, s))"
  by auto
termination by (relation "measure (\<lambda>(limit, i, _). limit - i)") auto

declare read_groups.simps [simp del]

definition octets4_of_groups :: "u16 \<Rightarrow> u16 \<Rightarrow> octets4" where
  "octets4_of_groups g h = Octets4 (ucast (drop_bit 8 g)) (ucast g) (ucast (drop_bit 8 h)) (ucast h)"

definition v6_of_groups :: "u16 list \<Rightarrow> ip_addr" where
  "v6_of_groups gs = V6 (octets4_of_groups (gs ! 0) (gs ! 1)) (octets4_of_groups (gs ! 2) (gs ! 3))
     (octets4_of_groups (gs ! 4) (gs ! 5)) (octets4_of_groups (gs ! 6) (gs ! 7))"

definition read_ipv6_addr :: "ip_addr parser" where
  "read_ipv6_addr s =
    (let (head, head_ipv4, s) = read_groups 8 0 s in
     if length head = 8 then Some (v6_of_groups head, s)
     else if head_ipv4 then None
     else
       Option.bind (read_given_char (CHR '':'') s) (\<lambda>(_, s).
       Option.bind (read_given_char (CHR '':'') s) (\<lambda>(_, s).
         let (tail, _, s) = read_groups (8 - (length head + 1)) 0 s in
         Some (v6_of_groups (head @ replicate (8 - length tail - length head) 0 @ tail), s))))"

definition parse_ip_addr :: "string \<Rightarrow> ip_addr option" where
  "parse_ip_addr s =
    (case (case read_ipv4_addr s of Some (q, rest) \<Rightarrow> Some (V4 q, rest) | None \<Rightarrow> read_ipv6_addr s) of
       Some (ip, []) \<Rightarrow> Some ip
     | _ \<Rightarrow> None)"

subsection \<open>The address printer of the standard library\<close>

definition show_octets4 :: "octets4 \<Rightarrow> string" where
  "show_octets4 q = (case q of Octets4 a b c d \<Rightarrow>
     show_nat (unat a) @ ''.'' @ show_nat (unat b) @ ''.'' @ show_nat (unat c) @ ''.'' @ show_nat (unat d))"

definition hex_digit :: "nat \<Rightarrow> char" where
  "hex_digit d = (if d < 10 then char_of (48 + d) else char_of (87 + d))"

function show_hex :: "nat \<Rightarrow> string" where
  "show_hex n = (if n < 16 then [hex_digit n] else show_hex (n div 16) @ [hex_digit (n mod 16)])"
  by auto
termination by (relation "measure id") auto

declare show_hex.simps [simp del]

fun ip_groups :: "ip_addr \<Rightarrow> u16 list" where
  "ip_groups (V4 q) = octets4_groups q"
| "ip_groups (V6 q r s t) = octets4_groups q @ octets4_groups r @ octets4_groups s @ octets4_groups t"

text \<open>The first longest run of zero groups, as (start, length): \<open>cur\<close> is the run that ends here.\<close>

fun longest_zeros :: "u16 list \<Rightarrow> nat \<Rightarrow> nat \<times> nat \<Rightarrow> nat \<times> nat \<Rightarrow> nat \<times> nat" where
  "longest_zeros [] i cur best = best"
| "longest_zeros (g # gs) i cur best =
    (if g = 0 then
       let cur = (if snd cur = 0 then (i, 1) else (fst cur, snd cur + 1));
           best = (if snd cur > snd best then cur else best)
       in longest_zeros gs (i + 1) cur best
     else longest_zeros gs (i + 1) (0, 0) best)"

fun show_groups :: "u16 list \<Rightarrow> string" where
  "show_groups [] = []"
| "show_groups [g] = show_hex (unat g)"
| "show_groups (g # gs) = show_hex (unat g) @ '':'' @ show_groups gs"

fun show_ip :: "ip_addr \<Rightarrow> string" where
  "show_ip (V4 q) = show_octets4 q"
| "show_ip (V6 a b c d) =
    (if a = Octets4 0 0 0 0 \<and> b = Octets4 0 0 0 0 \<and> c = Octets4 0 0 255 255 then ''::ffff:'' @ show_octets4 d
     else
       let gs = ip_groups (V6 a b c d); (start, n) = longest_zeros gs 0 (0, 0) (0, 0) in
       if n > 1 then show_groups (take start gs) @ ''::'' @ show_groups (drop (start + n) gs)
       else show_groups gs)"

text \<open>\<open>IpAddr::is_unspecified\<close>.\<close>

definition is_unspecified :: "ip_addr \<Rightarrow> bool" where
  "is_unspecified ip \<longleftrightarrow> list_all (\<lambda>b. b = 0) (ip_octets ip)"

subsection \<open>Socket addresses\<close>

text \<open>An IPv6 socket address also has a flow label and a scope.\<close>

datatype SocketAddr =
    SocketV4 octets4 u16
  | SocketV6 octets4 octets4 octets4 octets4 u16 u32 u32

fun socket_addr_new :: "ip_addr \<Rightarrow> u16 \<Rightarrow> SocketAddr" where
  "socket_addr_new (V4 q) port = SocketV4 q port"
| "socket_addr_new (V6 a b c d) port = SocketV6 a b c d port 0 0"

fun sa_ip :: "SocketAddr \<Rightarrow> ip_addr" where
  "sa_ip (SocketV4 q port) = V4 q"
| "sa_ip (SocketV6 a b c d port flow scope) = V6 a b c d"

fun sa_port :: "SocketAddr \<Rightarrow> u16" where
  "sa_port (SocketV4 q port) = port"
| "sa_port (SocketV6 a b c d port flow scope) = port"

fun show_socket_addr :: "SocketAddr \<Rightarrow> string" where
  "show_socket_addr (SocketV4 q port) = show_octets4 q @ '':'' @ show_nat (unat port)"
| "show_socket_addr (SocketV6 a b c d port flow scope) =
    ''['' @ show_ip (V6 a b c d) @ (if scope = 0 then [] else ''%'' @ show_nat (unat scope))
    @ '']:'' @ show_nat (unat port)"

fun local_bind_for_peer :: "SocketAddr \<Rightarrow> SocketAddr \<Rightarrow> SocketAddr option" where
  "local_bind_for_peer (SocketV4 q port) (SocketV4 _ _) = Some (SocketV4 q port)"
| "local_bind_for_peer (SocketV6 a b c d port flow scope) (SocketV6 _ _ _ _ _ _ _) =
     Some (SocketV6 a b c d port flow scope)"
| "local_bind_for_peer (SocketV4 q port) (SocketV6 _ _ _ _ _ _ _) =
     (if is_unspecified (V4 q)
      then Some (SocketV6 (Octets4 0 0 0 0) (Octets4 0 0 0 0) (Octets4 0 0 0 0) (Octets4 0 0 0 0) port 0 0)
      else None)"
| "local_bind_for_peer (SocketV6 a b c d port flow scope) (SocketV4 _ _) =
     (if is_unspecified (V6 a b c d) then Some (SocketV4 (Octets4 0 0 0 0) port) else None)"

fun socket_addr_to_authority :: "SocketAddr \<Rightarrow> string" where
  "socket_addr_to_authority (SocketV4 q port) = show_octets4 q @ '':'' @ show_nat (unat port)"
| "socket_addr_to_authority (SocketV6 a b c d port flow scope) =
    ''['' @ show_ip (V6 a b c d) @ '']:'' @ show_nat (unat port)"
subsection \<open>Reading back what was printed\<close>

lemma to_digit_decimal: "d < 10 \<Longrightarrow> to_digit 10 (char_of (48 + d)) = Some d"
  by (simp add: to_digit_def)

lemma show_nat_unfold:
  "show_nat n = (if n < 10 then [char_of (48 + n)] else show_nat (n div 10) @ [char_of (48 + n mod 10)])"
  by (rule show_nat.simps)

lemma read_digits_show:
  "read_digits 10 acc cnt (show_nat n @ rest)
     = read_digits 10 (acc * 10 ^ length (show_nat n) + n) (cnt + length (show_nat n)) rest"
proof (induction n arbitrary: acc cnt rest rule: show_nat.induct)
  case (1 n)
  show ?case
  proof (cases "n < 10")
    case True
    then show ?thesis by (simp add: show_nat_unfold [of n] to_digit_decimal)
  next
    case False
    then have s: "show_nat n = show_nat (n div 10) @ [char_of (48 + n mod 10)]"
      by (subst show_nat_unfold) simp
    have d: "to_digit 10 (char_of (48 + n mod 10)) = Some (n mod 10)" by (rule to_digit_decimal) simp
    have "read_digits 10 acc cnt (show_nat n @ rest)
        = read_digits 10 ((acc * 10 ^ length (show_nat (n div 10)) + n div 10) * 10 + n mod 10)
            (cnt + length (show_nat (n div 10)) + 1) rest"
      using "1.IH" [OF False, of acc cnt "char_of (48 + n mod 10) # rest"] by (simp add: s d)
    moreover have "(acc * 10 ^ length (show_nat (n div 10)) + n div 10) * 10 + n mod 10
        = acc * 10 ^ length (show_nat n) + n"
      using div_mult_mod_eq [of n 10] by (simp add: s algebra_simps)
    ultimately show ?thesis by (simp only: s length_append list.size One_nat_def add_Suc_right add_0_right)
  qed
qed

lemma show_nat_head: "0 < n \<Longrightarrow> \<exists>c cs. show_nat n = c # cs \<and> c \<noteq> CHR ''0''"
proof (induction n rule: show_nat.induct)
  case (1 n)
  show ?case
  proof (cases "n < 10")
    case True
    have "char_of (48 + n) \<noteq> CHR ''0''"
    proof
      assume "char_of (48 + n) = CHR ''0''"
      then have "of_char (char_of (48 + n) :: char) = (48 :: nat)" by simp
      then show False using True 1(2) by simp
    qed
    with True show ?thesis by (subst show_nat_unfold) simp
  next
    case False
    then have "0 < n div 10" by (simp add: div_greater_zero_iff)
    with "1.IH" [OF False] obtain c cs where "show_nat (n div 10) = c # cs" "c \<noteq> CHR ''0''" by blast
    with False show ?thesis by (subst show_nat_unfold) simp
  qed
qed

lemma show_nat_0 [simp]: "show_nat 0 = ''0''"
  by (subst show_nat_unfold) code_simp

lemma length_show_nat: "n < 10 ^ k \<Longrightarrow> 0 < k \<Longrightarrow> length (show_nat n) \<le> k"
proof (induction n arbitrary: k rule: show_nat.induct)
  case (1 n)
  show ?case
  proof (cases "n < 10")
    case True
    then show ?thesis using 1(3) by (subst show_nat_unfold) simp
  next
    case False
    then obtain j where j: "k = Suc j" "0 < j" using 1(2) by (cases k; cases "k - 1") auto
    then have "n div 10 < 10 ^ j" using 1(2) by (simp add: less_mult_imp_div_less mult.commute)
    with "1.IH" [OF False _ j(2)] False j(1) show ?thesis by (subst show_nat_unfold) simp
  qed
qed

lemma length_show_nat_pos: "0 < length (show_nat n)"
  by (subst show_nat_unfold) simp

text \<open>Text that does not start with a digit ends a number.\<close>

definition no_digit :: "nat \<Rightarrow> string \<Rightarrow> bool" where
  "no_digit radix s \<longleftrightarrow> (case s of [] \<Rightarrow> True | c # cs \<Rightarrow> to_digit radix c = None)"

lemma read_digits_stop: "no_digit radix rest \<Longrightarrow> read_digits radix acc cnt rest = (acc, cnt, rest)"
  by (cases rest) (auto simp: no_digit_def)

lemma read_number_show:
  assumes "n < 10 ^ k" "0 < k" "n < bound" "no_digit 10 rest"
  shows "read_number 10 k False bound (show_nat n @ rest) = Some (n, rest)"
proof -
  have "take 1 (show_nat n @ rest) = ''0'' \<Longrightarrow> n = 0"
    using show_nat_head [of n] by (cases "n = 0") auto
  then have "\<not> (take 1 (show_nat n @ rest) = ''0'' \<and> length (show_nat n) > 1)" by auto
  then show ?thesis
    using length_show_nat [OF assms(1,2)] length_show_nat_pos [of n] assms(3,4)
    by (simp add: read_number_def read_digits_show read_digits_stop del: take_append)
qed

lemma read_octet_show: "no_digit 10 rest \<Longrightarrow> read_octet (show_nat (unat b) @ rest) = Some (b, rest)"
  using read_number_show [of "unat b" 3 256 rest] unsigned_less [of b] by (simp add: read_octet_def)

lemma no_digit_dot [simp]: "no_digit 10 (CHR ''.'' # s)"
  by (simp add: no_digit_def to_digit_def)

lemma read_ipv4_show:
  assumes "no_digit 10 rest"
  shows "read_ipv4_addr (show_octets4 q @ rest) = Some (q, rest)"
  using assms
  by (cases q) (simp add: read_ipv4_addr_def show_octets4_def read_separator_def read_given_char_def read_octet_show)

lemma parse_show_ipv4: "parse_ip_addr (show_ip (V4 q)) = Some (V4 q)"
  using read_ipv4_show [of "[]" q] by (simp add: parse_ip_addr_def no_digit_def)

lemma local_bind_family:
  "local_bind_for_peer local peer = Some bind \<Longrightarrow> same_family (sa_ip bind) (sa_ip peer)
     \<and> sa_port bind = sa_port local"
  by (cases "(local, peer)" rule: local_bind_for_peer.cases) (auto split: if_splits)

lemma local_bind_none:
  "local_bind_for_peer local peer = None \<longleftrightarrow>
     \<not> same_family (sa_ip local) (sa_ip peer) \<and> \<not> is_unspecified (sa_ip local)"
  by (cases "(local, peer)" rule: local_bind_for_peer.cases) auto

end
