(* ===== verification/Fastest_Addr.thy ===== *)
theory Fastest_Addr
  imports Upstream_Exchange Fast_Ip_Cache Net_Addr
begin

text \<open>
  The fastest-address strategy (\<open>src/libdoh/src/upstream/fastest_addr.rs\<close>): all upstreams are
  asked, the addresses in their answers are probed over TCP, and the answer that contains the
  fastest address is returned with its addresses rewritten to it. Probes are remembered in the
  cache of \<open>Fast_Ip_Cache\<close>.

  The environment adds to that of \<open>Upstream_Exchange\<close> the cache, the clock, the iteration order of
  the hash set of addresses and the finished connection attempts, in the order in which they
  finish before the wait ends. A cache operation that would not return makes the outcome
  \<open>Panic\<close>; the theorems show that this does not happen.
\<close>

subsection \<open>Addresses and probes\<close>

definition FASTEST_ADDR_CACHE_TTL_SECS :: u64 where "FASTEST_ADDR_CACHE_TTL_SECS = 10 * 60"

definition FASTEST_ADDR_PING_PORTS :: "u16 list" where "FASTEST_ADDR_PING_PORTS = [80, 443]"

record PingResult =
  p_ip :: ip_addr
  p_latency_ms :: u32
  p_success :: bool

text \<open>\<open>Ipv6Addr::to_ipv4\<close> (mapped and compatible addresses).\<close>

fun to_ipv4 :: "ip_addr \<Rightarrow> octets4 option" where
  "to_ipv4 (V4 a) = Some a"
| "to_ipv4 (V6 a b c d) =
    (if a = Octets4 0 0 0 0 \<and> b = Octets4 0 0 0 0 \<and> (c = Octets4 0 0 0 0 \<or> c = Octets4 0 0 255 255)
     then Some d else None)"

definition cache_ip :: "ip_addr \<Rightarrow> ip_addr" where
  "cache_ip ip = (case to_ipv4 ip of Some a \<Rightarrow> V4 a | None \<Rightarrow> ip)"

definition probe_expiry :: "u64 \<Rightarrow> u64" where
  "probe_expiry now = saturating_add_u64 now (saturating_mul_u64 FASTEST_ADDR_CACHE_TTL_SECS 1000)"

definition load_fastest_cache :: "FastestIpCache \<Rightarrow> ip_addr \<Rightarrow> u64 \<Rightarrow> FastestIpCache \<times> FastIpCacheEntry option" where
  "load_fastest_cache c ip now = cache_get c ip now"

definition store_fastest_failure :: "FastestIpCache \<Rightarrow> ip_addr \<Rightarrow> u64 \<Rightarrow> FastestIpCache option" where
  "store_fastest_failure c ip now =
    (let expire_at_ms = probe_expiry now; (c, found) = cache_get c ip now in
     if found \<noteq> None then Some c
     else cache_upsert c ip \<lparr>e_status = Failure, e_latency_ms = 0, e_expire_at_ms = expire_at_ms\<rparr>)"

definition store_fastest_success ::
  "FastestIpCache \<Rightarrow> ip_addr \<Rightarrow> u64 \<Rightarrow> u32 \<Rightarrow> FastestIpCache option" where
  "store_fastest_success c ip now latency_ms =
    (let expire_at_ms = probe_expiry now; (c, found) = cache_get c ip now;
         should_replace = (case found of
             None \<Rightarrow> True
           | Some existing \<Rightarrow> e_status existing = Failure \<or> latency_ms < e_latency_ms existing)
     in if should_replace then
          cache_upsert c ip \<lparr>e_status = Success, e_latency_ms = latency_ms, e_expire_at_ms = expire_at_ms\<rparr>
        else Some c)"

text \<open>A finished connection attempt: the address, whether it connected, its duration in milliseconds, the clock.\<close>

record probe_event =
  pe_ip :: ip_addr
  pe_connected :: bool
  pe_elapsed_ms :: nat
  pe_now :: u64

definition ping_do_tcp :: "FastestIpCache \<Rightarrow> probe_event \<Rightarrow> FastestIpCache option \<times> PingResult" where
  "ping_do_tcp c ev =
    (let latency_ms = of_nat (min (pe_elapsed_ms ev) (2 ^ 32 - 1)); ip = cache_ip (pe_ip ev) in
     (if pe_connected ev then store_fastest_success c ip (pe_now ev) latency_ms
      else store_fastest_failure c ip (pe_now ev),
      \<lparr>p_ip = pe_ip ev, p_latency_ms = latency_ms, p_success = pe_connected ev\<rparr>))"

text \<open>The loop that consults the cache and schedules the remaining probes.\<close>

fun ping_schedule ::
  "ip_addr list \<Rightarrow> u64 \<Rightarrow> FastestIpCache \<Rightarrow> PingResult option \<Rightarrow> (ip_addr \<times> u16) list
    \<Rightarrow> FastestIpCache \<times> PingResult option \<times> (ip_addr \<times> u16) list" where
  "ping_schedule [] now c best scheduled = (c, best, scheduled)"
| "ping_schedule (ip # ips) now c best scheduled =
    (case load_fastest_cache c ip now of
       (c, Some cached) \<Rightarrow>
         ping_schedule ips now c
           (if e_status cached = Success
               \<and> (case best of None \<Rightarrow> True | Some b \<Rightarrow> e_latency_ms cached < p_latency_ms b)
            then Some \<lparr>p_ip = ip, p_latency_ms = e_latency_ms cached, p_success = True\<rparr> else best)
           scheduled
     | (c, None) \<Rightarrow>
         ping_schedule ips now c best (scheduled @ map (\<lambda>port. (ip, port)) FASTEST_ADDR_PING_PORTS))"

text \<open>The probes that finish before the wait ends, each storing its outcome.\<close>

fun run_probes :: "probe_event list \<Rightarrow> FastestIpCache \<Rightarrow> (FastestIpCache \<times> PingResult list) option" where
  "run_probes [] c = Some (c, [])"
| "run_probes (ev # evs) c =
    (case ping_do_tcp c ev of
       (None, _) \<Rightarrow> None
     | (Some c, r) \<Rightarrow> map_option (\<lambda>(c, rs). (c, r # rs)) (run_probes evs c))"

text \<open>The waiting loop: the first success decides; a timeout or the end of all probes leaves the cached best.\<close>

fun ping_wait :: "PingResult option \<Rightarrow> PingResult list \<Rightarrow> PingResult option" where
  "ping_wait cached_best [] = cached_best"
| "ping_wait cached_best (result # results) =
    (if \<not> p_success result then ping_wait cached_best results
     else case cached_best of
       Some cached \<Rightarrow> if p_latency_ms cached < p_latency_ms result then Some cached else Some result
     | None \<Rightarrow> Some result)"

record ('u, 'f) fastest_env = "('u, 'f) exchange_env" +
  fe_cache :: FastestIpCache
  fe_now :: u64
  fe_ip_order :: "ip_addr set \<Rightarrow> ip_addr list"
  fe_probes :: "(ip_addr \<times> u16) list \<Rightarrow> probe_event list"

definition ping_all ::
  "('u, 'f, 'z) fastest_env_scheme \<Rightarrow> ip_addr list \<Rightarrow> (FastestIpCache \<times> PingResult option) option" where
  "ping_all env ips =
    (case ips of
       [] \<Rightarrow> Some (fe_cache env, None)
     | [ip] \<Rightarrow> Some (fe_cache env, Some \<lparr>p_ip = ip, p_latency_ms = 0, p_success = True\<rparr>)
     | _ \<Rightarrow>
         (case ping_schedule ips (fe_now env) (fe_cache env) None [] of
            (c, cached_best, scheduled) \<Rightarrow>
              if scheduled = [] then Some (c, cached_best)
              else map_option (\<lambda>(c, results). (c, ping_wait cached_best results))
                     (run_probes (fe_probes env scheduled) c)))"

subsection \<open>Asking all upstreams\<close>

record ExchangeAll =
  ea_replies :: "packet list"
  ea_stats :: "UpstreamStatistics list"
  ea_err :: "DoHError option"

fun all_loop ::
  "('u, 'f, 'z) exchange_env_scheme \<Rightarrow> packet \<Rightarrow> 'u list \<Rightarrow> nat list \<Rightarrow> packet list
    \<Rightarrow> UpstreamAttemptError list \<Rightarrow> UpstreamStatistics option list \<Rightarrow> (unit, ExchangeAll) res" where
  "all_loop env query upstreams [] replies failures stats =
     Ok \<lparr>ea_replies = replies, ea_stats = List.map_filter id stats,
         ea_err = (if failures = [] then None else Some (from_upstream_attempts failures))\<rparr>"
| "all_loop env query upstreams (idx # arrivals) replies failures stats =
    rbind (idx_at upstreams idx) (\<lambda>u.
      let (result, d) = attempt env idx u query; addr = ex_address env u in
      case result of
        Inr packet \<Rightarrow>
          rbind (set_at stats idx (Some (stat_success addr d))) (\<lambda>stats.
          all_loop env query upstreams arrivals (replies @ [packet]) failures stats)
      | Inl err \<Rightarrow>
          rbind (set_at stats idx (Some (stat_failure addr d (show_error err)))) (\<lambda>stats.
          all_loop env query upstreams arrivals replies (failures @ [attempt_error_of addr d err]) stats))"

definition exchange_all ::
  "('u, 'f, 'z) exchange_env_scheme \<Rightarrow> packet \<Rightarrow> 'u list \<Rightarrow> (unit, ExchangeAll) res" where
  "exchange_all env query upstreams =
    (if length upstreams = 1 then
       let u = upstreams ! 0; (result, d) = attempt env 0 u query;
           stats = [attempt_stat (ex_address env u) d result]
       in Ok (case result of
            Inr packet \<Rightarrow> \<lparr>ea_replies = [packet], ea_stats = stats, ea_err = None\<rparr>
          | Inl err \<Rightarrow> \<lparr>ea_replies = [], ea_stats = stats, ea_err = Some err\<rparr>)
     else all_loop env query upstreams (take (length upstreams) (ex_arrivals env (length upstreams)))
            [] [] (replicate (length upstreams) None))"

subsection \<open>The exchange\<close>

definition filter_response_answer :: "packet \<Rightarrow> ip_addr \<Rightarrow> (DoHError, packet) res" where
  "filter_response_answer p ip =
    (case rewrite_answer_ips_in_place p ip of
       (p', Ok _) \<Rightarrow> Ok p'
     | (p', Err _) \<Rightarrow> Err InvalidData
     | (p', Panic) \<Rightarrow> Panic)"

definition answer_ip_set :: "packet list \<Rightarrow> ip_addr set" where
  "answer_ip_set replies =
     set (filter (\<lambda>ip. \<not> is_unspecified ip) (concat (map extract_answer_ips replies)))"

definition pick_reply :: "packet list \<Rightarrow> packet \<Rightarrow> ip_addr \<Rightarrow> (unit, packet) res" where
  "pick_reply replies first_packet fastest =
    (case List.find (\<lambda>reply. contains_answer_ip reply fastest) replies of
       None \<Rightarrow> Ok first_packet
     | Some reply \<Rightarrow>
         (case filter_response_answer reply fastest of
            Ok p \<Rightarrow> Ok p
          | Err _ \<Rightarrow> Ok first_packet
          | Panic \<Rightarrow> Panic))"

definition exchange_fastest_addr ::
  "('u, 'f, 'z) fastest_env_scheme \<Rightarrow> packet \<Rightarrow> 'u list
    \<Rightarrow> (unit, ExchangeOutcome \<times> FastestIpCache) res" where
  "exchange_fastest_addr env query upstreams =
    rbind (exchange_all env query upstreams) (\<lambda>ea.
      let query_stats = with_main (ea_stats ea) in
      case ea_replies ea of
        [] \<Rightarrow> Ok (\<lparr>o_packet = Inl (unwrap_or (ea_err ea) UpstreamIssue), o_query_stats = query_stats\<rparr>, fe_cache env)
      | first_packet # _ \<Rightarrow>
          let ips = fe_ip_order env (answer_ip_set (ea_replies ea)) in
          if ips = [] then Ok (\<lparr>o_packet = Inr first_packet, o_query_stats = query_stats\<rparr>, fe_cache env)
          else (case ping_all env ips of
              None \<Rightarrow> Panic
            | Some (c, None) \<Rightarrow> Ok (\<lparr>o_packet = Inr first_packet, o_query_stats = query_stats\<rparr>, c)
            | Some (c, Some ping) \<Rightarrow>
                rbind (pick_reply (ea_replies ea) first_packet (p_ip ping)) (\<lambda>packet.
                Ok (\<lparr>o_packet = Inr packet, o_query_stats = query_stats\<rparr>, c))))"

subsection \<open>Probes and the cache\<close>

lemma cache_ip_idem [simp]: "cache_ip (cache_ip ip) = cache_ip ip"
  by (cases ip) (auto simp: cache_ip_def)

text \<open>A probe of an address that connected replaces a failure, an expired entry or a slower success.\<close>

definition better :: "u32 \<Rightarrow> FastIpCacheEntry option \<Rightarrow> bool" where
  "better latency_ms found \<longleftrightarrow> (case found of
      None \<Rightarrow> True | Some e \<Rightarrow> e_status e = Failure \<or> latency_ms < e_latency_ms e)"

definition probe_entry :: "probe_event \<Rightarrow> FastIpCacheEntry" where
  "probe_entry ev = (if pe_connected ev
     then \<lparr>e_status = Success, e_latency_ms = of_nat (min (pe_elapsed_ms ev) (2 ^ 32 - 1)),
           e_expire_at_ms = probe_expiry (pe_now ev)\<rparr>
     else \<lparr>e_status = Failure, e_latency_ms = 0, e_expire_at_ms = probe_expiry (pe_now ev)\<rparr>)"

definition probe_replaces :: "probe_event \<Rightarrow> FastIpCacheEntry option \<Rightarrow> bool" where
  "probe_replaces ev found \<longleftrightarrow> (if pe_connected ev
     then better (of_nat (min (pe_elapsed_ms ev) (2 ^ 32 - 1))) found else found = None)"

lemma ping_do_tcp_store:
  "fst (ping_do_tcp c ev) =
     (let ip = cache_ip (pe_ip ev); g = cache_get c ip (pe_now ev) in
      if probe_replaces ev (snd g) then cache_upsert (fst g) ip (probe_entry ev) else Some (fst g))"
  by (auto simp: ping_do_tcp_def store_fastest_success_def store_fastest_failure_def probe_replaces_def
      probe_entry_def better_def Let_def split: prod.splits option.splits)

lemma ping_do_tcp_effect:
  assumes "cache_valid c"
  obtains c' where "fst (ping_do_tcp c ev) = Some c'" "cache_valid c'" "c_max_size c' = c_max_size c"
    "cache_peek c' (cache_ip (pe_ip ev)) =
      (if probe_replaces ev (snd (cache_get c (cache_ip (pe_ip ev)) (pe_now ev))) then Some (probe_entry ev)
       else snd (cache_get c (cache_ip (pe_ip ev)) (pe_now ev)))"
    "\<And>j. j \<noteq> cache_ip (pe_ip ev) \<Longrightarrow> cache_peek c' j = None \<or> cache_peek c' j = cache_peek c j"
  using ip_probes.get_then_put [OF assms, of "probe_replaces ev" "cache_ip (pe_ip ev)" "pe_now ev" "probe_entry ev"]
  unfolding ping_do_tcp_store Let_def by blast

lemma run_probes_valid:
  "cache_valid c \<Longrightarrow> \<exists>c' rs. run_probes evs c = Some (c', rs) \<and> cache_valid c' \<and> c_max_size c' = c_max_size c
     \<and> map p_ip rs = map pe_ip evs"
proof (induction evs arbitrary: c)
  case (Cons ev evs)
  obtain c1 where c1: "fst (ping_do_tcp c ev) = Some c1" "cache_valid c1" "c_max_size c1 = c_max_size c"
    using ping_do_tcp_effect [OF Cons.prems, of ev] by metis
  obtain c2 rs where c2: "run_probes evs c1 = Some (c2, rs)" "cache_valid c2" "c_max_size c2 = c_max_size c1"
    "map p_ip rs = map pe_ip evs" using Cons.IH [OF c1(2)] by blast
  obtain r where r: "ping_do_tcp c ev = (Some c1, r)" using c1(1) by (metis prod.collapse)
  have "p_ip (snd (ping_do_tcp c ev)) = pe_ip ev" by (simp add: ping_do_tcp_def Let_def)
  with r c1 c2 show ?case by simp
qed simp

lemma load_fastest_valid:
  "cache_valid c \<Longrightarrow> load_fastest_cache c ip now = (c', r) \<Longrightarrow> cache_valid c' \<and> c_max_size c' = c_max_size c"
  unfolding load_fastest_cache_def using ip_probes.get_valid [of c ip now] by simp

lemma ping_schedule_valid:
  assumes "cache_valid c" "ping_schedule ips now c best scheduled = (c', best', scheduled')"
  shows "cache_valid c' \<and> c_max_size c' = c_max_size c
    \<and> (best' = best \<or> (\<exists>b. best' = Some b \<and> p_ip b \<in> set ips))
    \<and> fst ` set scheduled' \<subseteq> fst ` set scheduled \<union> set ips"
  using assms
proof (induction ips now c best scheduled rule: ping_schedule.induct)
  case (2 ip ips now c best scheduled)
  obtain c1 r where l: "load_fastest_cache c ip now = (c1, r)" by fastforce
  note v = load_fastest_valid [OF "2.prems"(1) l]
  show ?case
  proof (cases r)
    case None
    have p: "ping_schedule ips now c1 best (scheduled @ map (\<lambda>port. (ip, port)) FASTEST_ADDR_PING_PORTS)
        = (c', best', scheduled')"
      using "2.prems"(2) by (simp add: l None)
    have "cache_valid c' \<and> c_max_size c' = c_max_size c1
        \<and> (best' = best \<or> (\<exists>b. best' = Some b \<and> p_ip b \<in> set ips))
        \<and> fst ` set scheduled' \<subseteq> fst ` set (scheduled @ map (\<lambda>port. (ip, port)) FASTEST_ADDR_PING_PORTS) \<union> set ips"
      using "2.IH"(1) [OF l [symmetric] None conjunct1 [OF v] p] by simp
    with v show ?thesis by (auto simp: FASTEST_ADDR_PING_PORTS_def)
  next
    case (Some cached)
    let ?best = "if e_status cached = Success
               \<and> (case best of None \<Rightarrow> True | Some b \<Rightarrow> e_latency_ms cached < p_latency_ms b)
            then Some \<lparr>p_ip = ip, p_latency_ms = e_latency_ms cached, p_success = True\<rparr> else best"
    have p: "ping_schedule ips now c1 ?best scheduled = (c', best', scheduled')"
      using "2.prems"(2) by (simp add: l Some)
    have "cache_valid c' \<and> c_max_size c' = c_max_size c1
        \<and> (best' = ?best \<or> (\<exists>b. best' = Some b \<and> p_ip b \<in> set ips))
        \<and> fst ` set scheduled' \<subseteq> fst ` set scheduled \<union> set ips"
      using "2.IH"(2) [OF l [symmetric] Some conjunct1 [OF v] p] by simp
    with v show ?thesis by (auto split: if_splits)
  qed
qed simp

lemma ping_wait_cases: "ping_wait best rs = Some r \<Longrightarrow> best = Some r \<or> r \<in> set rs"
  by (induction best rs rule: ping_wait.induct) (auto split: if_splits option.splits)

text \<open>Every finished attempt belongs to a scheduled probe.\<close>

definition probes_scheduled :: "('u, 'f, 'z) fastest_env_scheme \<Rightarrow> bool" where
  "probes_scheduled env \<longleftrightarrow> (\<forall>sch. pe_ip ` set (fe_probes env sch) \<subseteq> fst ` set sch)"

lemma ping_all_result:
  assumes "cache_valid (fe_cache env)" "probes_scheduled env"
  shows "\<exists>c r. ping_all env ips = Some (c, r) \<and> cache_valid c \<and> c_max_size c = c_max_size (fe_cache env)
    \<and> (\<forall>b. r = Some b \<longrightarrow> p_ip b \<in> set ips)"
proof -
  consider "ips = []" | ip where "ips = [ip]" | "2 \<le> length ips"
    by (cases ips; cases "tl ips") auto
  then show ?thesis
  proof cases
    case 3
    then have pa: "ping_all env ips = (case ping_schedule ips (fe_now env) (fe_cache env) None [] of
            (c, cached_best, scheduled) \<Rightarrow>
              if scheduled = [] then Some (c, cached_best)
              else map_option (\<lambda>(c, results). (c, ping_wait cached_best results))
                     (run_probes (fe_probes env scheduled) c))"
      by (auto simp: ping_all_def split: list.splits)
    obtain c best sch where s: "ping_schedule ips (fe_now env) (fe_cache env) None [] = (c, best, sch)"
      by (metis prod_cases3)
    have v: "cache_valid c" "c_max_size c = c_max_size (fe_cache env)" "\<forall>b. best = Some b \<longrightarrow> p_ip b \<in> set ips"
      "fst ` set sch \<subseteq> set ips"
      using ping_schedule_valid [OF assms(1) s] by auto
    obtain c2 rs where r: "run_probes (fe_probes env sch) c = Some (c2, rs)" "cache_valid c2"
      "c_max_size c2 = c_max_size c" "map p_ip rs = map pe_ip (fe_probes env sch)"
      using run_probes_valid [OF v(1)] by blast
    have "p_ip ` set rs \<subseteq> set ips"
      using v(4) assms(2) r(4) unfolding probes_scheduled_def by (metis order_trans set_map)
    then have "p_ip b \<in> set ips" if "ping_wait best rs = Some b" for b
      using ping_wait_cases [OF that] v(3) by auto
    with v r s pa show ?thesis by (cases "sch = []") auto
  qed (use assms in \<open>auto simp: ping_all_def\<close>)
qed

subsection \<open>Asking all upstreams\<close>

lemma all_loop_result:
  assumes "\<forall>idx \<in> set rem. idx < length upstreams" "length stats = length upstreams"
  shows "\<exists>ea. all_loop env query upstreams rem replies failures stats = Ok ea
    \<and> (\<exists>more. ea_replies ea = replies @ more
        \<and> (\<forall>p \<in> set more. validate_packet p \<and> (\<exists>idx \<in> set rem. sent_by env query (upstreams ! idx) p))
        \<and> (more = [] \<longrightarrow> (\<forall>idx \<in> set rem. \<not> answers env query (upstreams ! idx))))"
  using assms
proof (induction rem arbitrary: replies failures stats)
  case (Cons idx rem)
  obtain r d where a: "attempt env idx (upstreams ! idx) query = (r, d)" by fastforce
  let ?addr = "ex_address env (upstreams ! idx)"
  show ?case
  proof (cases r)
    case (Inr p)
    obtain ea more where ea: "all_loop env query upstreams rem (replies @ [p]) failures
          (stats[idx := Some (stat_success ?addr d)]) = Ok ea"
      "ea_replies ea = (replies @ [p]) @ more"
      "\<forall>p \<in> set more. validate_packet p \<and> (\<exists>idx \<in> set rem. sent_by env query (upstreams ! idx) p)"
      using Cons by (metis length_list_update list.set_intros(2))
    have "validate_packet p \<and> sent_by env query (upstreams ! idx) p"
      using a Inr by (auto simp: attempt_Inr sent_by_def)
    with ea a Inr Cons.prems show ?thesis
      by (auto simp: idx_at_def set_at_def intro!: exI [of _ "p # more"])
  next
    case (Inl err)
    obtain ea more where ea: "all_loop env query upstreams rem replies (failures @ [attempt_error_of ?addr d err])
          (stats[idx := Some (stat_failure ?addr d (show_error err))]) = Ok ea"
      "ea_replies ea = replies @ more"
      "\<forall>p \<in> set more. validate_packet p \<and> (\<exists>idx \<in> set rem. sent_by env query (upstreams ! idx) p)"
      "more = [] \<longrightarrow> (\<forall>idx \<in> set rem. \<not> answers env query (upstreams ! idx))"
      using Cons by (metis length_list_update list.set_intros(2))
    have "\<not> answers env query (upstreams ! idx)" using a Inl attempt_answers [of env query "upstreams ! idx" idx] by auto
    with ea a Inl Cons.prems show ?thesis
      by (auto simp: idx_at_def set_at_def intro!: exI [of _ "more"])
  qed
qed simp

lemma exchange_all_result:
  assumes "all_arrive env"
  shows "\<exists>ea. exchange_all env query upstreams = Ok ea
    \<and> (\<forall>p \<in> set (ea_replies ea). validate_packet p \<and> (\<exists>u \<in> set upstreams. sent_by env query u p))
    \<and> (ea_replies ea = [] \<longrightarrow> (\<forall>u \<in> set upstreams. \<not> answers env query u))"
proof (cases "length upstreams = 1")
  case True
  obtain r d where a: "attempt env 0 (upstreams ! 0) query = (r, d)" by fastforce
  have "sent_by env query (upstreams ! 0) p \<and> validate_packet p" if "r = Inr p" for p
    using a that by (auto simp: attempt_Inr sent_by_def)
  moreover have "\<not> answers env query (upstreams ! 0)" if "r = Inl e" for e
    using a that attempt_answers [of env query "upstreams ! 0" 0] by auto
  ultimately show ?thesis
    using True a by (cases r) (auto simp: exchange_all_def single_upstream [OF True])
next
  case False
  let ?rem = "take (length upstreams) (ex_arrivals env (length upstreams))"
  note idx = arrivals_indices(1) [OF assms, of "length upstreams"]
  obtain ea where ea: "all_loop env query upstreams ?rem [] [] (replicate (length upstreams) None) = Ok ea"
    "\<forall>p \<in> set (ea_replies ea). validate_packet p \<and> (\<exists>i \<in> set ?rem. sent_by env query (upstreams ! i) p)"
    "ea_replies ea = [] \<longrightarrow> (\<forall>i \<in> set ?rem. \<not> answers env query (upstreams ! i))"
    using all_loop_result [of ?rem upstreams "replicate (length upstreams) None" env query "[]" "[]"] idx by auto
  have "\<forall>p \<in> set (ea_replies ea). validate_packet p \<and> (\<exists>u \<in> set upstreams. sent_by env query u p)"
    using ea(2) idx by (metis lessThan_iff nth_mem)
  moreover have "ea_replies ea = [] \<longrightarrow> (\<forall>u \<in> set upstreams. \<not> answers env query u)"
    using ea(3) idx by (auto simp: in_set_conv_nth)
  ultimately show ?thesis using ea(1) False by (auto simp: exchange_all_def)
qed


subsection \<open>The contract\<close>

definition fastest_exchange ::
  "('u, 'f, 'z) fastest_env_scheme \<Rightarrow> packet \<Rightarrow> 'u list \<Rightarrow> (unit, ExchangeOutcome) res" where
  "fastest_exchange env query upstreams = rbind (exchange_fastest_addr env query upstreams) (\<lambda>(out, _). Ok out)"

definition fastest_ready :: "('u, 'f, 'z) fastest_env_scheme \<Rightarrow> bool" where
  "fastest_ready env \<longleftrightarrow> all_arrive env \<and> cache_valid (fe_cache env) \<and> probes_scheduled env"

text \<open>A reply as it was sent, or rewritten to one of the addresses it answers with.\<close>

definition readdressed :: "packet \<Rightarrow> packet \<Rightarrow> bool" where
  "readdressed reply p \<longleftrightarrow> p = reply
     \<or> (\<exists>ip. contains_answer_ip reply ip \<and> rewrite_answer_ips_in_place reply ip = (p, Ok ()))"

lemma rewrite_in_place_not_Panic: "snd (rewrite_answer_ips_in_place p ip) \<noteq> Panic"
  using rewrite_in_packet_safe [of p ip] by (auto simp: rewrite_answer_ips_in_place_def split: prod.split res.split)

lemma pick_reply_readdressed:
  assumes "first_packet \<in> set replies"
  shows "\<exists>p. pick_reply replies first_packet ip = Ok p \<and> (\<exists>reply \<in> set replies. readdressed reply p)"
proof (cases "List.find (\<lambda>reply. contains_answer_ip reply ip) replies")
  case (Some reply)
  then have r: "reply \<in> set replies" "contains_answer_ip reply ip"
    by (metis (mono_tags, lifting) find_Some_iff nth_mem)+
  obtain p' res where w: "rewrite_answer_ips_in_place reply ip = (p', res)" by fastforce
  show ?thesis
  proof (cases res)
    case (Ok u)
    with r(2) w have "readdressed reply p'" unfolding readdressed_def by auto
    moreover have "pick_reply replies first_packet ip = Ok p'"
      using w Ok by (simp add: pick_reply_def Some filter_response_answer_def)
    ultimately show ?thesis using r(1) by blast
  next
    case (Err e)
    then have "pick_reply replies first_packet ip = Ok first_packet"
      using w by (simp add: pick_reply_def Some filter_response_answer_def)
    with assms show ?thesis unfolding readdressed_def by blast
  next
    case Panic
    with w rewrite_in_place_not_Panic [of reply ip] show ?thesis by simp
  qed
next
  case None
  then have "pick_reply replies first_packet ip = Ok first_packet" by (simp add: pick_reply_def)
  with assms show ?thesis unfolding readdressed_def by blast
qed

lemma fastest_result:
  assumes "fastest_ready env"
  shows "\<exists>out c. exchange_fastest_addr env query upstreams = Ok (out, c)
    \<and> cache_valid c \<and> c_max_size c = c_max_size (fe_cache env)
    \<and> (\<forall>p. o_packet out = Inr p \<longrightarrow> (\<exists>u \<in> set upstreams. \<exists>reply. sent_by env query u reply
          \<and> validate_packet reply \<and> readdressed reply p))
    \<and> (\<forall>e. o_packet out = Inl e \<longrightarrow> (\<forall>u \<in> set upstreams. \<not> answers env query u))"
proof -
  have ready: "all_arrive env" "cache_valid (fe_cache env)" "probes_scheduled env"
    using assms by (simp_all add: fastest_ready_def)
  obtain ea where ea: "exchange_all env query upstreams = Ok ea"
    "\<forall>p \<in> set (ea_replies ea). validate_packet p \<and> (\<exists>u \<in> set upstreams. sent_by env query u p)"
    "ea_replies ea = [] \<longrightarrow> (\<forall>u \<in> set upstreams. \<not> answers env query u)"
    using exchange_all_result [OF ready(1), of query upstreams] by (elim exE conjE) (rule that)
  show ?thesis
  proof (cases "ea_replies ea")
    case Nil
    then have "exchange_fastest_addr env query upstreams
        = Ok (\<lparr>o_packet = Inl (unwrap_or (ea_err ea) UpstreamIssue), o_query_stats = with_main (ea_stats ea)\<rparr>, fe_cache env)"
      by (simp add: exchange_fastest_addr_def Let_def ea(1) del: rbind_eq_Ok)
    with ea(3) Nil ready(2) show ?thesis by simp
  next
    case (Cons fst_p rest)
    let ?ips = "fe_ip_order env (answer_ip_set (ea_replies ea))"
    have served: "\<exists>u \<in> set upstreams. \<exists>reply. sent_by env query u reply \<and> validate_packet reply \<and> readdressed reply p"
      if "\<exists>reply \<in> set (ea_replies ea). readdressed reply p" for p using that ea(2) by blast
    have first: "\<exists>reply \<in> set (ea_replies ea). readdressed reply fst_p" using Cons by (auto simp: readdressed_def)
    obtain c r where pa: "ping_all env ?ips = Some (c, r)" "cache_valid c" "c_max_size c = c_max_size (fe_cache env)"
      using ping_all_result [OF ready(2,3), of ?ips] by (elim exE conjE) (rule that)
    have pick: "\<exists>p. pick_reply (ea_replies ea) fst_p ip = Ok p \<and> (\<exists>reply \<in> set (ea_replies ea). readdressed reply p)" for ip
      by (rule pick_reply_readdressed) (simp add: Cons)
    consider (none) "?ips = []" | (miss) "?ips \<noteq> []" "r = None" | (hit) ping where "?ips \<noteq> []" "r = Some ping"
      by (cases r) auto
    then show ?thesis
    proof cases
      case none
      then have "exchange_fastest_addr env query upstreams
          = Ok (\<lparr>o_packet = Inr fst_p, o_query_stats = with_main (ea_stats ea)\<rparr>, fe_cache env)"
        by (simp add: exchange_fastest_addr_def Let_def ea(1) Cons del: rbind_eq_Ok)
      with ready(2) served [OF first] show ?thesis by simp
    next
      case miss
      then have "exchange_fastest_addr env query upstreams
          = Ok (\<lparr>o_packet = Inr fst_p, o_query_stats = with_main (ea_stats ea)\<rparr>, c)"
        using pa(1) by (simp add: exchange_fastest_addr_def Let_def ea(1) Cons del: rbind_eq_Ok)
      with pa served [OF first] show ?thesis by simp
    next
      case hit
      from pick obtain p where p: "pick_reply (ea_replies ea) fst_p (p_ip ping) = Ok p"
        "\<exists>reply \<in> set (ea_replies ea). readdressed reply p" by blast
      then have "exchange_fastest_addr env query upstreams
          = Ok (\<lparr>o_packet = Inr p, o_query_stats = with_main (ea_stats ea)\<rparr>, c)"
        using pa(1) hit by (simp add: exchange_fastest_addr_def Let_def ea(1) Cons del: rbind_eq_Ok)
      with pa served [OF p(2)] show ?thesis by simp
    qed
  qed
qed

interpretation fastest: exchange_strategy fastest_exchange fastest_ready readdressed
proof unfold_locales
  fix env :: "('u, 'f, 'z) fastest_env_scheme" and query and upstreams :: "'u list" and out p e u
  assume "fastest_ready env"
  note result = fastest_result [OF this, of query upstreams]
  then show "\<exists>out. fastest_exchange env query upstreams = Ok out"
    by (auto simp: fastest_exchange_def simp del: rbind_eq_Ok)
  assume "fastest_exchange env query upstreams = Ok out"
  then obtain c where "exchange_fastest_addr env query upstreams = Ok (out, c)"
    by (auto simp: fastest_exchange_def)
  with result have r: "(\<forall>p. o_packet out = Inr p \<longrightarrow> (\<exists>u \<in> set upstreams. \<exists>reply. sent_by env query u reply
          \<and> validate_packet reply \<and> readdressed reply p))
    \<and> (\<forall>e. o_packet out = Inl e \<longrightarrow> (\<forall>u \<in> set upstreams. \<not> answers env query u))" by auto
  show "\<exists>u \<in> set upstreams. \<exists>reply. sent_by env query u reply \<and> validate_packet reply \<and> readdressed reply p"
    if "o_packet out = Inr p" using r that by blast
  show "\<not> answers env query u" if "o_packet out = Inl e" "u \<in> set upstreams" using r that by blast
qed

subsection \<open>Addresses the cache never finds\<close>

definition canonical_keys :: "FastestIpCache \<Rightarrow> bool" where
  "canonical_keys c \<longleftrightarrow> (\<forall>k. cache_peek c k \<noteq> None \<longrightarrow> cache_ip k = k)"

lemma canonical_keys_get:
  assumes "cache_valid c" "canonical_keys c"
  shows "canonical_keys (fst (cache_get c k now))"
  using assms(2) ip_probes.peek_get [OF assms(1), of k now] ip_probes.get_result [OF assms(1), of k now]
  by (auto simp: canonical_keys_def split: option.splits if_splits)

lemma canonical_keys_ping:
  assumes "cache_valid c" "canonical_keys c" "fst (ping_do_tcp c ev) = Some c'"
  shows "canonical_keys c'"
  unfolding canonical_keys_def
proof (intro allI impI)
  fix k
  assume k: "cache_peek c' k \<noteq> None"
  obtain c1 where c1: "fst (ping_do_tcp c ev) = Some c1"
    "\<And>j. j \<noteq> cache_ip (pe_ip ev) \<Longrightarrow> cache_peek c1 j = None \<or> cache_peek c1 j = cache_peek c j"
    using ping_do_tcp_effect [OF assms(1), of ev] by metis
  show "cache_ip k = k"
  proof (cases "k = cache_ip (pe_ip ev)")
    case False
    from c1(2) [OF this] c1(1) k assms(2,3) show ?thesis by (auto simp: canonical_keys_def)
  qed simp
qed

lemma canonical_keys_probes:
  "cache_valid c \<Longrightarrow> canonical_keys c \<Longrightarrow> run_probes evs c = Some (c', rs) \<Longrightarrow> canonical_keys c'"
proof (induction evs arbitrary: c rs)
  case (Cons ev evs)
  obtain c1 where c1: "fst (ping_do_tcp c ev) = Some c1" "cache_valid c1"
    using ping_do_tcp_effect [OF Cons.prems(1), of ev] by metis
  obtain r where r: "ping_do_tcp c ev = (Some c1, r)" using c1(1) by (metis prod.collapse)
  from r Cons.prems(3) obtain rs' where "run_probes evs c1 = Some (c', rs')" by auto
  with Cons.IH [OF c1(2) canonical_keys_ping [OF Cons.prems(1,2) c1(1)]] show ?case by blast
qed simp

lemma canonical_keys_schedule:
  "cache_valid c \<Longrightarrow> canonical_keys c \<Longrightarrow> ping_schedule ips now c best scheduled = (c', best', scheduled')
    \<Longrightarrow> canonical_keys c'"
proof (induction ips now c best scheduled rule: ping_schedule.induct)
  case (2 ip ips now c best scheduled)
  obtain c1 r where l: "load_fastest_cache c ip now = (c1, r)" by fastforce
  have v: "cache_valid c1" "canonical_keys c1"
    using load_fastest_valid [OF "2.prems"(1) l] canonical_keys_get [OF "2.prems"(1,2), of ip now] l
    by (simp_all add: load_fastest_cache_def)
  show ?case
    using "2.prems"(3) "2.IH"(1) [OF l [symmetric] _ v] "2.IH"(2) [OF l [symmetric] _ v]
    by (cases r) (auto simp: l)
qed simp

text \<open>Any number of rounds of probing, one after the other, on the same cache.\<close>

fun ping_rounds :: "(('u, 'f) fastest_env \<times> ip_addr list) list \<Rightarrow> FastestIpCache \<Rightarrow> FastestIpCache option" where
  "ping_rounds [] c = Some c"
| "ping_rounds ((env, ips) # rounds) c =
    (case ping_all (env\<lparr>fe_cache := c\<rparr>) ips of None \<Rightarrow> None | Some (c, _) \<Rightarrow> ping_rounds rounds c)"

lemma ping_all_canonical:
  assumes "cache_valid (fe_cache env)" "canonical_keys (fe_cache env)" "ping_all env ips = Some (c', r)"
  shows "cache_valid c' \<and> canonical_keys c'"
proof -
  consider "ips = []" | ip where "ips = [ip]" | ip jp rest where "ips = ip # jp # rest"
    by (cases ips; cases "tl ips") auto
  then show ?thesis
  proof cases
    case 3
    obtain c best sch where s: "ping_schedule ips (fe_now env) (fe_cache env) None [] = (c, best, sch)"
      by (metis prod_cases3)
    have v: "cache_valid c" "canonical_keys c"
      using ping_schedule_valid [OF assms(1) s] canonical_keys_schedule [OF assms(1,2) s] by auto
    obtain c2 rs where "run_probes (fe_probes env sch) c = Some (c2, rs)" "cache_valid c2"
      using run_probes_valid [OF v(1)] by blast
    with canonical_keys_probes [OF v] v assms(3) s show ?thesis
      by (auto simp: ping_all_def 3 split: if_splits)
  qed (use assms in \<open>auto simp: ping_all_def\<close>)
qed

lemma ping_rounds_canonical:
  "cache_valid c \<Longrightarrow> canonical_keys c \<Longrightarrow> ping_rounds rounds c = Some c' \<Longrightarrow> cache_valid c' \<and> canonical_keys c'"
proof (induction rounds c rule: ping_rounds.induct)
  case (2 env ips rounds c)
  then obtain c1 r where p: "ping_all (env\<lparr>fe_cache := c\<rparr>) ips = Some (c1, r)" "ping_rounds rounds c1 = Some c'"
    by (auto split: option.splits)
  from ping_all_canonical [OF _ _ p(1)] "2.prems"(1,2) "2.IH" [OF p(1) refl _ _ p(2)] show ?case by simp
qed simp

lemma cache_valid_empty: "cache_valid (with_max_size n)"
  unfolding cache_valid_def by (intro exI [of _ "[]"]) (simp add: represents_empty)

lemma canonical_keys_empty: "canonical_keys (with_max_size n)"
  by (simp add: canonical_keys_def cache_peek_represents [OF represents_empty])

subsection \<open>Properties of the fastest-address strategy\<close>

text \<open>
  C15 (liveness): the fastest-address strategy returns, without an index out of range and without a
  cache operation that does not return, whatever the upstreams do, in whatever order the replies
  arrive and whatever the probes do. It returns a decodable reply of an upstream to this query, or
  such a reply rewritten in place to one of its own addresses, or an error, and an error only when no
  upstream answers every attempt with a decodable packet.
\<close>

theorem fastest_one_answer_suffices:
  assumes "fastest_ready env"
  shows "\<exists>out. fastest_exchange env query upstreams = Ok out
    \<and> (case o_packet out of
         Inr p \<Rightarrow> \<exists>v \<in> set upstreams. \<exists>reply. sent_by env query v reply \<and> validate_packet reply \<and> readdressed reply p
       | Inl e \<Rightarrow> (\<forall>u \<in> set upstreams. \<not> answers env query u))"
  by (rule fastest.returns_or_fails [OF assms])

text \<open>Two addresses in an answer, both of which are probed; the second port of the second address connects.\<close>

definition two_addresses :: Msg where
  "two_addresses = sample_msg\<lparr>m_answers := map (\<lambda>a. (hd (m_answers sample_msg))\<lparr>rr_rdata := ip_octets (V4 a)\<rparr>)
     [Octets4 10 0 0 1, Octets4 10 0 0 2]\<rparr>"

definition sample_fastest :: "(nat, nat) fastest_env" where
  "sample_fastest = exchange_env.extend sample_env \<lparr>fe_cache = with_max_size 4, fe_now = 1000,
     fe_ip_order = (\<lambda>_. [V4 (Octets4 10 0 0 1), V4 (Octets4 10 0 0 2)]), fe_probes = (\<lambda>_. [])\<rparr>"

definition probing_fastest :: "(nat, nat) fastest_env" where
  "probing_fastest = sample_fastest
     \<lparr>ex_single := (\<lambda>_ _ _. (Inr (enc_msg two_addresses), 5000)),
      fe_probes := map (\<lambda>(ip, port). \<lparr>pe_ip = ip, pe_connected = (ip = V4 (Octets4 10 0 0 2) \<and> port = 443),
         pe_elapsed_ms = 12, pe_now = 1000\<rparr>)\<rparr>"

lemma probing_fastest_ready: "fastest_ready probing_fastest"
  by (auto simp: fastest_ready_def all_arrive_def probing_fastest_def sample_fastest_def sample_env_def exchange_env.defs
      cache_valid_empty probes_scheduled_def intro!: rev_image_eqI)

lemma validate_two_addresses: "validate_packet (enc_msg two_addresses)"
  by code_simp

lemma run_probes_results:
  "run_probes evs c = Some (c', rs) \<Longrightarrow> rs = map (\<lambda>ev. \<lparr>p_ip = pe_ip ev,
     p_latency_ms = of_nat (min (pe_elapsed_ms ev) (2 ^ 32 - 1)), p_success = pe_connected ev\<rparr>) evs"
  by (induction evs arbitrary: c rs) (auto simp: ping_do_tcp_def Let_def split: prod.splits option.splits if_splits)

lemma probing_fastest_pings:
  "\<exists>c. ping_all probing_fastest [V4 (Octets4 10 0 0 1), V4 (Octets4 10 0 0 2)]
     = Some (c, Some \<lparr>p_ip = V4 (Octets4 10 0 0 2), p_latency_ms = 12, p_success = True\<rparr>)"
proof -
  let ?ips = "[V4 (Octets4 10 0 0 1), V4 (Octets4 10 0 0 2)]" and ?c = "with_max_size 4"
  have miss: "load_fastest_cache ?c ip now = (?c, None)" for ip now
    by (simp add: load_fastest_cache_def cache_get_def cache_node_def with_max_size_def)
  let ?sch = "[(V4 (Octets4 10 0 0 1), 80), (V4 (Octets4 10 0 0 1), 443), (V4 (Octets4 10 0 0 2), 80), (V4 (Octets4 10 0 0 2), 443)]"
  have "ping_schedule ?ips 1000 ?c None [] = (?c, None, ?sch)" by (simp add: miss FASTEST_ADDR_PING_PORTS_def)
  moreover obtain c rs where "run_probes (fe_probes probing_fastest ?sch) ?c = Some (c, rs)"
    using run_probes_valid [OF cache_valid_empty] by blast
  moreover from run_probes_results [OF this(1)] have
    "ping_wait None rs = Some \<lparr>p_ip = V4 (Octets4 10 0 0 2), p_latency_ms = 12, p_success = True\<rparr>"
    by (simp add: probing_fastest_def)
  ultimately show ?thesis by (simp add: ping_all_def probing_fastest_def sample_fastest_def exchange_env.defs)
qed

lemma two_addresses_rewritten:
  "contains_answer_ip (enc_msg two_addresses) (V4 (Octets4 10 0 0 2))"
  "rewrite_answer_ips_in_place (enc_msg two_addresses) (V4 (Octets4 10 0 0 2))
     = (enc_msg (msg_rewrite_answer_ips (V4 (Octets4 10 0 0 2)) two_addresses), Ok ())"
  by code_simp+

lemma probing_fastest_picks:
  assumes "fastest_exchange probing_fastest [] [0, 1] = Ok out"
  shows "o_packet out = Inr (enc_msg (msg_rewrite_answer_ips (V4 (Octets4 10 0 0 2)) two_addresses))"
proof -
  have a: "attempt probing_fastest n u [] = (Inr (enc_msg two_addresses), 5000)" for n u
    by (simp add: attempt_def probing_fastest_def validate_two_addresses validate_exchange_packet_def validate_response_packet_def)
  have order: "ex_arrivals probing_fastest (Suc (Suc 0)) = [1, 0]"
    by (simp add: probing_fastest_def sample_fastest_def sample_env_def exchange_env.defs numeral_2_eq_2)
  have "\<exists>stats. exchange_all probing_fastest [] [0, 1]
      = Ok \<lparr>ea_replies = [enc_msg two_addresses, enc_msg two_addresses], ea_stats = stats, ea_err = None\<rparr>"
    by (simp add: exchange_all_def order a idx_at_def set_at_def Let_def map_filter_simps)
  moreover have "fe_ip_order probing_fastest S = [V4 (Octets4 10 0 0 1), V4 (Octets4 10 0 0 2)]" for S
    by (simp add: probing_fastest_def sample_fastest_def exchange_env.defs)
  ultimately show ?thesis using assms probing_fastest_pings two_addresses_rewritten
    by (auto simp: fastest_exchange_def exchange_fastest_addr_def pick_reply_def filter_response_answer_def Let_def)
qed

theorem fastest_one_answer_suffices_witness:
  "\<exists>out. fastest_exchange probing_fastest [] [0, 1] = Ok out
    \<and> o_packet out = Inr (enc_msg (msg_rewrite_answer_ips (V4 (Octets4 10 0 0 2)) two_addresses))"
  using fastest_one_answer_suffices [OF probing_fastest_ready, of "[]" "[0, 1]"] probing_fastest_picks by blast

text \<open>
  a finished connection attempt keeps the cache valid and leaves an entry for its
  address; the entry of a successful attempt is a success no slower than measured, and an entry
  that was a success and has not expired stays one and does not become slower.
\<close>

lemma probe_never_worsens_entry:
  assumes "cache_valid c"
  shows "\<exists>c' e. fst (ping_do_tcp c ev) = Some c' \<and> cache_valid c' \<and> c_max_size c' = c_max_size c
    \<and> cache_peek c' (cache_ip (pe_ip ev)) = Some e
    \<and> (pe_connected ev \<longrightarrow> e_status e = Success
         \<and> e_latency_ms e \<le> of_nat (min (pe_elapsed_ms ev) (2 ^ 32 - 1)))
    \<and> (\<forall>e0. cache_peek c (cache_ip (pe_ip ev)) = Some e0 \<and> e_status e0 = Success
         \<and> pe_now ev < e_expire_at_ms e0 \<longrightarrow> e_status e = Success \<and> e_latency_ms e \<le> e_latency_ms e0)"
proof -
  let ?k = "cache_ip (pe_ip ev)" and ?lat = "of_nat (min (pe_elapsed_ms ev) (2 ^ 32 - 1)) :: u32"
  obtain c' where c': "fst (ping_do_tcp c ev) = Some c'" "cache_valid c'" "c_max_size c' = c_max_size c"
    "cache_peek c' ?k = (if probe_replaces ev (snd (cache_get c ?k (pe_now ev))) then Some (probe_entry ev)
       else snd (cache_get c ?k (pe_now ev)))"
    using ping_do_tcp_effect [OF assms, of ev] by metis
  have g: "snd (cache_get c ?k (pe_now ev)) = (case cache_peek c ?k of None \<Rightarrow> None
      | Some e \<Rightarrow> if e_expire_at_ms e \<le> pe_now ev then None else Some e)"
    by (rule ip_probes.get_result [OF assms])
  show ?thesis
  proof (cases "probe_replaces ev (snd (cache_get c ?k (pe_now ev)))")
    case True
    have "e_status (probe_entry ev) = Success \<and> e_latency_ms (probe_entry ev) \<le> e_latency_ms e0"
      if "cache_peek c ?k = Some e0" "e_status e0 = Success" "pe_now ev < e_expire_at_ms e0" for e0
      using True that unfolding g by (auto simp: probe_replaces_def better_def probe_entry_def split: if_splits)
    with c' True show ?thesis by (auto simp: probe_entry_def)
  next
    case False
    then obtain e where e: "snd (cache_get c ?k (pe_now ev)) = Some e" 
      by (auto simp: probe_replaces_def better_def split: if_splits option.splits)
    have "e_status e = Success \<and> e_latency_ms e \<le> ?lat" if "pe_connected ev"
      using False that e by (cases "e_status e") (auto simp: probe_replaces_def better_def)
    moreover have "e = e0" if "cache_peek c ?k = Some e0" "pe_now ev < e_expire_at_ms e0" for e0
      using e that unfolding g by (simp add: linorder_not_less [symmetric])
    ultimately show ?thesis using c' False e by auto
  qed
qed

text \<open>
  an address that \<open>ping_do_tcp\<close> stores under another key (an IPv6 address that maps
  an IPv4 address) is never found in the cache, whatever rounds of probing ran before: each lookup
  of such an address is a miss.
\<close>

lemma mapped_address_never_found:
  assumes "ping_rounds rounds (with_max_size n) = Some c" "cache_ip ip \<noteq> ip"
  shows "snd (load_fastest_cache c ip now) = None"
proof -
  have "cache_valid c" "canonical_keys c"
    using ping_rounds_canonical [OF cache_valid_empty canonical_keys_empty assms(1)] by auto
  with ip_probes.get_result [of c ip now] assms(2) show ?thesis
    by (auto simp: load_fastest_cache_def canonical_keys_def split: option.splits)
qed

end
