(* ===== verification/H3_Pool.thy ===== *)
theory H3_Pool
  imports Upstream_Errors
begin

text \<open>
  The pool of HTTP/3 client connections of an upstream (\<open>DohH3Pool\<close>, \<open>doh_h3_client\<close> and the
  global table of pools in \<open>src/libdoh/src/lib.rs\<close>).

  Pools and connections are shared: tasks hold references to a pool while another task may remove it
  from the table, and a connection lives on while a request uses it. The store therefore maps
  addresses to pools, URLs to addresses and the numbers of connections to the permits of their
  semaphores, those that are free and those that requests own. An owned permit is given back once,
  when its owner drops it. The semaphores are fair and never closed: a task that waits for a permit
  of a connection without free ones gets that of the next owner that ends, so that neither number
  changes.

  Every operation that the source does under the mutex of a pool or of the table is one step;
  \<open>others k\<close> is what the other tasks do between the steps of one task, any number of steps of any
  kind. The lemmas show that in every state that tasks can reach a pool holds at most two connections,
  that free and owned permits of a connection are 64 together, that a task that got a connection owns
  a permit of it, and that a free permit is found whenever there is one.
\<close>

definition DOH_H3_POOL_SIZE :: nat where "DOH_H3_POOL_SIZE = 2"
definition DOH_H3_MAX_INFLIGHT_PER_CONN :: nat where "DOH_H3_MAX_INFLIGHT_PER_CONN = 64"

record H3Failure =
  h3f_err :: DoHError
  h3f_retryable :: bool

record DohH3Pool =
  pl_clients :: "nat list"
  pl_next :: u64

record h3_store =
  h3_heap :: "nat \<Rightarrow> DohH3Pool"
  h3_used :: nat
  h3_pools :: "string \<Rightarrow> nat option"
  h3_conns :: nat
  h3_slots :: "nat \<Rightarrow> nat"
  h3_held :: "nat \<Rightarrow> nat"

subsection \<open>Permits\<close>

definition take_permit :: "nat \<Rightarrow> h3_store \<Rightarrow> h3_store" where
  "take_permit client s = s\<lparr>h3_slots := (h3_slots s)(client := h3_slots s client - 1),
     h3_held := (h3_held s)(client := h3_held s client + 1)\<rparr>"

definition try_acquire_slot :: "nat \<Rightarrow> h3_store \<Rightarrow> h3_store option" where
  "try_acquire_slot client s = (if h3_slots s client = 0 then None else Some (take_permit client s))"

text \<open>Waiting for a permit: a free one, or that of the next owner that drops it.\<close>

definition acquire_slot :: "nat \<Rightarrow> h3_store \<Rightarrow> h3_store" where
  "acquire_slot client s = (if h3_slots s client = 0 then s else take_permit client s)"

text \<open>An owned permit is dropped.\<close>

definition release_slot :: "nat \<Rightarrow> h3_store \<Rightarrow> h3_store" where
  "release_slot client s = s\<lparr>h3_slots := (h3_slots s)(client := h3_slots s client + 1),
     h3_held := (h3_held s)(client := h3_held s client - 1)\<rparr>"

text \<open>A new connection, with its number.\<close>

definition new_client :: "h3_store \<Rightarrow> nat \<times> h3_store" where
  "new_client s = (h3_conns s, s\<lparr>h3_conns := h3_conns s + 1,
     h3_slots := (h3_slots s)(h3_conns s := DOH_H3_MAX_INFLIGHT_PER_CONN)\<rparr>)"

subsection \<open>One pool\<close>

definition pool_new :: DohH3Pool where "pool_new = \<lparr>pl_clients = [], pl_next = 0\<rparr>"

definition has_clients :: "DohH3Pool \<Rightarrow> bool" where "has_clients p \<longleftrightarrow> pl_clients p \<noteq> []"

definition needs_new_client :: "DohH3Pool \<Rightarrow> bool" where
  "needs_new_client p \<longleftrightarrow> length (pl_clients p) < DOH_H3_POOL_SIZE"

text \<open>\<open>self.next.fetch_add(1, ..)\<close>.\<close>

definition fetch_next :: "DohH3Pool \<Rightarrow> nat \<times> DohH3Pool" where
  "fetch_next p = (unat (pl_next p), p\<lparr>pl_next := pl_next p + 1\<rparr>)"

definition pick_client :: "DohH3Pool \<Rightarrow> nat option \<times> DohH3Pool" where
  "pick_client p =
    (if pl_clients p = [] then (None, p)
     else let (k, p) = fetch_next p; idx = k mod length (pl_clients p) in
       (Some (pl_clients p ! idx), p))"

fun try_slots :: "nat list \<Rightarrow> nat \<Rightarrow> nat list \<Rightarrow> h3_store \<Rightarrow> (nat \<times> h3_store) option" where
  "try_slots cs start [] s = None"
| "try_slots cs start (offset # offsets) s =
    (let client = cs ! ((start + offset) mod length cs) in
     case try_acquire_slot client s of
       Some s \<Rightarrow> Some (client, s)
     | None \<Rightarrow> try_slots cs start offsets s)"

definition add_or_pick :: "DohH3Pool \<Rightarrow> nat \<Rightarrow> (nat \<times> bool) \<times> DohH3Pool" where
  "add_or_pick p candidate =
    (if length (pl_clients p) < DOH_H3_POOL_SIZE
     then ((candidate, True), p\<lparr>pl_clients := pl_clients p @ [candidate]\<rparr>)
     else let (k, p) = fetch_next p; idx = k mod length (pl_clients p) in
       ((pl_clients p ! idx, False), p))"

definition drain_clients :: "DohH3Pool \<Rightarrow> nat list \<times> DohH3Pool" where
  "drain_clients p = (pl_clients p, p\<lparr>pl_clients := []\<rparr>)"

definition update_pool :: "nat \<Rightarrow> (DohH3Pool \<Rightarrow> 'r \<times> DohH3Pool) \<Rightarrow> h3_store \<Rightarrow> 'r \<times> h3_store" where
  "update_pool a f s = (case f (h3_heap s a) of (r, p) \<Rightarrow> (r, s\<lparr>h3_heap := (h3_heap s)(a := p)\<rparr>))"

definition try_pick_client_with_slot :: "nat \<Rightarrow> h3_store \<Rightarrow> nat option \<times> h3_store" where
  "try_pick_client_with_slot a s =
    (if pl_clients (h3_heap s a) = [] then (None, s)
     else
       let (k, s) = update_pool a fetch_next s; cs = pl_clients (h3_heap s a); start = k mod length cs in
       case try_slots cs start [0..<length cs] s of
         None \<Rightarrow> (None, s)
       | Some (client, s) \<Rightarrow> (Some client, s))"

subsection \<open>The table of pools\<close>

definition load_or_init_doh_h3_pool :: "string \<Rightarrow> h3_store \<Rightarrow> nat \<times> h3_store" where
  "load_or_init_doh_h3_pool key s =
    (case h3_pools s key of
       Some a \<Rightarrow> (a, s)
     | None \<Rightarrow> (h3_used s, s\<lparr>h3_heap := (h3_heap s)(h3_used s := pool_new), h3_used := h3_used s + 1,
                h3_pools := (h3_pools s)(key \<mapsto> h3_used s)\<rparr>))"

definition doh_h3_client_cached :: "string \<Rightarrow> h3_store \<Rightarrow> bool" where
  "doh_h3_client_cached key s = (case h3_pools s key of Some a \<Rightarrow> has_clients (h3_heap s a) | None \<Rightarrow> False)"

definition reset_doh_h3_client :: "string \<Rightarrow> h3_store \<Rightarrow> h3_store" where
  "reset_doh_h3_client key s =
    (case h3_pools s key of
       None \<Rightarrow> s
     | Some a \<Rightarrow> snd (update_pool a drain_clients (s\<lparr>h3_pools := (h3_pools s)(key := None)\<rparr>)))"

subsection \<open>A connection with a permit\<close>

text \<open>\<open>create k\<close> is the outcome of the k-th attempt to connect.\<close>

record h3_world =
  hw_create :: "nat \<Rightarrow> H3Failure + unit"
  hw_others :: "nat \<Rightarrow> h3_store \<Rightarrow> h3_store"

definition wait_for_slot :: "nat \<Rightarrow> h3_store \<Rightarrow> (H3Failure + nat) \<times> h3_store" where
  "wait_for_slot client s = (Inr client, acquire_slot client s)"

definition insert_candidate :: "h3_world \<Rightarrow> nat \<Rightarrow> h3_store \<Rightarrow> (H3Failure + nat) \<times> h3_store" where
  "insert_candidate w a s =
    (let (candidate, s) = new_client s;
         ((selected, inserted), s) = update_pool a (\<lambda>p. add_or_pick p candidate) s
     in wait_for_slot selected (hw_others w 3 s))"

definition doh_h3_client :: "h3_world \<Rightarrow> string \<Rightarrow> h3_store \<Rightarrow> (H3Failure + nat) \<times> h3_store" where
  "doh_h3_client w key s =
    (let (a, s) = load_or_init_doh_h3_pool key s;
         (picked, s) = try_pick_client_with_slot a (hw_others w 0 s) in
     case picked of
       Some client \<Rightarrow> (Inr client, s)
     | None \<Rightarrow>
         let s = hw_others w 1 s in
         if needs_new_client (h3_heap s a) then
           let s = hw_others w 2 s in
           case hw_create w 0 of
             Inl err \<Rightarrow>
               (case try_pick_client_with_slot a s of
                  (Some client, s) \<Rightarrow> (Inr client, s)
                | (None, s) \<Rightarrow>
                    (case update_pool a pick_client (hw_others w 4 s) of
                       (Some existing, s) \<Rightarrow> wait_for_slot existing (hw_others w 5 s)
                     | (None, s) \<Rightarrow> (Inl err, s)))
           | Inr _ \<Rightarrow> insert_candidate w a s
         else
           (case try_pick_client_with_slot a (hw_others w 6 s) of
              (Some client, s) \<Rightarrow> (Inr client, s)
            | (None, s) \<Rightarrow>
                (case update_pool a pick_client (hw_others w 7 s) of
                   (Some existing, s) \<Rightarrow> wait_for_slot existing (hw_others w 8 s)
                 | (None, s) \<Rightarrow>
                     let s = hw_others w 9 s in
                     (case hw_create w 1 of
                        Inl err \<Rightarrow> (Inl err, s)
                      | Inr _ \<Rightarrow> insert_candidate w a s))))"

subsection \<open>The steps of all tasks\<close>

text \<open>
  A step of some task on the shared store: one of the operations above. A candidate is a connection
  that was made; a permit is dropped by a request that owns one.
\<close>

inductive pool_step :: "h3_store \<Rightarrow> h3_store \<Rightarrow> bool" where
  load: "pool_step s (snd (load_or_init_doh_h3_pool key s))"
| try_pick: "pool_step s (snd (try_pick_client_with_slot a s))"
| pick: "pool_step s (snd (update_pool a pick_client s))"
| connect: "pool_step s (snd (new_client s))"
| add: "candidate < h3_conns s \<Longrightarrow> pool_step s (snd (update_pool a (\<lambda>p. add_or_pick p candidate) s))"
| wait: "pool_step s (acquire_slot client s)"
| release: "0 < h3_held s client \<Longrightarrow> pool_step s (release_slot client s)"
| reset: "pool_step s (reset_doh_h3_client key s)"

definition empty_store :: h3_store where
  "empty_store = \<lparr>h3_heap = (\<lambda>_. pool_new), h3_used = 0, h3_pools = (\<lambda>_. None), h3_conns = 0,
     h3_slots = (\<lambda>_. 0), h3_held = (\<lambda>_. 0)\<rparr>"

text \<open>Whatever the other tasks do, they take steps.\<close>

definition others_step :: "h3_world \<Rightarrow> bool" where
  "others_step w \<longleftrightarrow> (\<forall>k s. pool_step\<^sup>*\<^sup>* s (hw_others w k s))"

subsection \<open>The invariant\<close>

definition pool_ok :: "nat \<Rightarrow> DohH3Pool \<Rightarrow> bool" where
  "pool_ok conns p \<longleftrightarrow> length (pl_clients p) \<le> 2 \<and> set (pl_clients p) \<subseteq> {..<conns}"

definition permits_ok :: "h3_store \<Rightarrow> bool" where
  "permits_ok s \<longleftrightarrow> (\<forall>c. h3_slots s c + h3_held s c = (if c < h3_conns s then 64 else 0))"

definition store_ok :: "h3_store \<Rightarrow> bool" where
  "store_ok s \<longleftrightarrow> (\<forall>a. pool_ok (h3_conns s) (h3_heap s a)) \<and> permits_ok s"

lemma permits_ok_moved:
  "permits_ok s \<Longrightarrow> h3_conns s' = h3_conns s \<Longrightarrow>
   (\<And>c. h3_slots s' c + h3_held s' c = h3_slots s c + h3_held s c) \<Longrightarrow> permits_ok s'"
  by (simp add: permits_ok_def)

lemma permits_okD: "permits_ok s \<Longrightarrow> h3_slots s c + h3_held s c = (if c < h3_conns s then 64 else 0)"
  by (simp add: permits_ok_def)

lemma pool_ok_mono: "pool_ok n p \<Longrightarrow> n \<le> m \<Longrightarrow> pool_ok m p"
  by (auto simp: pool_ok_def)

text \<open>An operation on a pool, done under its mutex, that keeps the pool within its bounds.\<close>

locale pool_operation =
  fixes f :: "DohH3Pool \<Rightarrow> 'r \<times> DohH3Pool" and conns :: nat
  assumes keeps: "pool_ok conns p \<Longrightarrow> pool_ok conns (snd (f p))"
begin

lemma update_ok: "store_ok s \<Longrightarrow> h3_conns s = conns \<Longrightarrow> store_ok (snd (update_pool a f s))"
  using keeps [of "h3_heap s a"] by (auto simp: update_pool_def store_ok_def permits_ok_def simp del: add_is_0 split: prod.splits if_splits)

end

lemma update_pool_conns [simp]:
  "h3_conns (snd (update_pool a f s)) = h3_conns s" "h3_slots (snd (update_pool a f s)) = h3_slots s"
  "h3_held (snd (update_pool a f s)) = h3_held s"
  by (simp_all add: update_pool_def split: prod.split)

interpretation next_op: pool_operation fetch_next conns for conns
  by standard (simp add: fetch_next_def pool_ok_def)

interpretation pick_op: pool_operation pick_client conns for conns
  by standard (simp add: pick_client_def pool_ok_def fetch_next_def Let_def)

interpretation drain_op: pool_operation drain_clients conns for conns
  by standard (simp add: drain_clients_def pool_ok_def)

lemma add_keeps: "candidate < conns \<Longrightarrow> pool_ok conns p \<Longrightarrow> pool_ok conns (snd (add_or_pick p candidate))"
  by (auto simp: add_or_pick_def pool_ok_def fetch_next_def DOH_H3_POOL_SIZE_def)

lemma add_ok:
  assumes "store_ok s" "candidate < h3_conns s"
  shows "store_ok (snd (update_pool a (\<lambda>p. add_or_pick p candidate) s))"
proof -
  have "pool_operation (\<lambda>p. add_or_pick p candidate) (h3_conns s)" by standard (rule add_keeps [OF assms(2)])
  from pool_operation.update_ok [OF this assms(1)] show ?thesis by simp
qed

lemma take_permit_ok: "store_ok s \<Longrightarrow> 0 < h3_slots s c \<Longrightarrow> store_ok (take_permit c s)"
  unfolding store_ok_def by (auto simp: take_permit_def intro: permits_ok_moved)

lemma acquire_slot_ok: "store_ok s \<Longrightarrow> store_ok (acquire_slot c s)"
  using take_permit_ok [of s c] by (simp add: acquire_slot_def)

lemma release_slot_ok: "store_ok s \<Longrightarrow> 0 < h3_held s c \<Longrightarrow> store_ok (release_slot c s)"
  unfolding store_ok_def by (auto simp: release_slot_def intro: permits_ok_moved)

lemma new_client_ok: "store_ok s \<Longrightarrow> store_ok (snd (new_client s))"
proof -
  assume s: "store_ok s"
  then have p: "permits_ok s" by (simp add: store_ok_def)
  have "h3_held s (h3_conns s) = 0" using permits_okD [OF p, of "h3_conns s"] by simp
  then have "permits_ok (snd (new_client s))"
    unfolding permits_ok_def
    by (auto simp: new_client_def DOH_H3_MAX_INFLIGHT_PER_CONN_def permits_okD [OF p] simp del: add_is_0)
  with s show ?thesis by (auto simp: store_ok_def new_client_def intro: pool_ok_mono)
qed

lemma try_slots_Some:
  "try_slots cs start os s = Some (client, s') \<Longrightarrow> cs \<noteq> [] \<Longrightarrow>
   client \<in> set cs \<and> 0 < h3_slots s client \<and> s' = take_permit client s"
  by (induction cs start os s rule: try_slots.induct)
    (auto simp: try_acquire_slot_def Let_def split: if_splits)

lemma try_slots_None:
  "try_slots cs start os s = None \<Longrightarrow> offset \<in> set os \<Longrightarrow> h3_slots s (cs ! ((start + offset) mod length cs)) = 0"
  by (induction cs start os s rule: try_slots.induct)
    (auto simp: try_acquire_slot_def Let_def split: option.splits if_splits)

text \<open>What \<open>try_pick_client_with_slot\<close> does: nothing but advancing the counter, or taking a free permit of a pooled connection.\<close>

lemma try_pick_cases:
  assumes "try_pick_client_with_slot a s = (r, s')"
  obtains (empty) "r = None" "s' = s" "pl_clients (h3_heap s a) = []"
    | (busy) "r = None" "s' = snd (update_pool a fetch_next s)"
    | (free) c where "r = Some c" "c \<in> set (pl_clients (h3_heap s a))" "0 < h3_slots s c"
        "s' = take_permit c (snd (update_pool a fetch_next s))"
proof (cases "pl_clients (h3_heap s a) = []")
  case True
  with assms show thesis by (intro empty) (simp_all add: try_pick_client_with_slot_def)
next
  case False
  let ?cs = "pl_clients (h3_heap s a)"
  obtain k s1 where u: "update_pool a fetch_next s = (k, s1)" by fastforce
  then have s1: "snd (update_pool a fetch_next s) = s1" "pl_clients (h3_heap s1 a) = ?cs" "h3_slots s1 = h3_slots s"
    by (auto simp: update_pool_def fetch_next_def)
  let ?t = "try_slots ?cs (k mod length ?cs) [0..<length ?cs] s1"
  have t: "(case ?t of None \<Rightarrow> (None, s1) | Some (client, s) \<Rightarrow> (Some client, s)) = (r, s')"
    using assms False s1(2) by (simp add: try_pick_client_with_slot_def u Let_def)
  show thesis
  proof (cases ?t)
    case None
    with t s1 show thesis by (intro busy) simp_all
  next
    case (Some x)
    obtain c s2 where x: "x = (c, s2)" by fastforce
    from try_slots_Some [OF Some [unfolded x] False] Some x t s1 show thesis by (intro free [of c]) simp_all
  qed
qed

lemma try_pick_ok: "store_ok s \<Longrightarrow> store_ok (snd (try_pick_client_with_slot a s))"
proof -
  assume s: "store_ok s"
  obtain r s' where r: "try_pick_client_with_slot a s = (r, s')" by fastforce
  from r show ?thesis
    by (cases rule: try_pick_cases) (use s r in \<open>auto intro!: take_permit_ok next_op.update_ok\<close>)
qed

lemma reset_ok: "store_ok s \<Longrightarrow> store_ok (reset_doh_h3_client key s)"
proof -
  assume s: "store_ok s"
  have "store_ok (s\<lparr>h3_pools := (h3_pools s)(key := None)\<rparr>)" using s by (simp add: store_ok_def permits_ok_def)
  with s show ?thesis by (auto simp: reset_doh_h3_client_def intro!: drain_op.update_ok split: option.splits)
qed

lemma load_or_init_ok: "store_ok s \<Longrightarrow> store_ok (snd (load_or_init_doh_h3_pool key s))"
  unfolding store_ok_def
  by (auto simp: load_or_init_doh_h3_pool_def pool_ok_def pool_new_def intro: permits_ok_moved split: option.split)

lemma pool_step_ok: "pool_step s s' \<Longrightarrow> store_ok s \<Longrightarrow> store_ok s'"
  by (induction rule: pool_step.induct)
    (simp_all add: load_or_init_ok try_pick_ok pick_op.update_ok new_client_ok add_ok acquire_slot_ok release_slot_ok reset_ok)

lemma pool_step_conns: "pool_step s s' \<Longrightarrow> h3_conns s \<le> h3_conns s'"
proof (induction rule: pool_step.induct)
  case (try_pick s a)
  obtain r s' where r: "try_pick_client_with_slot a s = (r, s')" by fastforce
  then show ?case by (cases rule: try_pick_cases) (simp_all add: r take_permit_def)
qed (simp_all add: load_or_init_doh_h3_pool_def new_client_def acquire_slot_def take_permit_def release_slot_def
    reset_doh_h3_client_def split: option.split)

lemma pool_steps_ok: "pool_step\<^sup>*\<^sup>* s s' \<Longrightarrow> store_ok s \<Longrightarrow> store_ok s'"
  by (induction rule: rtranclp_induct) (auto intro: pool_step_ok)

lemma pool_steps_conns: "pool_step\<^sup>*\<^sup>* s s' \<Longrightarrow> h3_conns s \<le> h3_conns s'"
  by (induction rule: rtranclp_induct) (auto dest: pool_step_conns)

lemma empty_store_ok: "store_ok empty_store"
  by (simp add: store_ok_def permits_ok_def pool_ok_def empty_store_def pool_new_def)

subsection \<open>Asking for a connection takes steps\<close>

text \<open>The outcome of a task: it has taken steps, and owns a permit of the connection it got.\<close>

definition obtained :: "h3_store \<Rightarrow> (H3Failure + nat) \<times> h3_store \<Rightarrow> bool" where
  "obtained s out \<longleftrightarrow> pool_step\<^sup>*\<^sup>* s (snd out) \<and> (\<forall>c. fst out = Inr c \<longrightarrow> 0 < h3_held (snd out) c)"

lemma obtained_Inl: "pool_step\<^sup>*\<^sup>* s s' \<Longrightarrow> obtained s (Inl e, s')"
  by (simp add: obtained_def)

lemma obtained_try_pick:
  assumes "pool_step\<^sup>*\<^sup>* s s1" "try_pick_client_with_slot a s1 = (Some c, s')"
  shows "obtained s (Inr c, s')"
proof -
  have "pool_step\<^sup>*\<^sup>* s s'" using assms pool_step.try_pick [of s1 a] by (simp add: rtranclp.rtrancl_into_rtrancl)
  moreover from assms(2) have "0 < h3_held s' c" by (cases rule: try_pick_cases) (simp_all add: take_permit_def)
  ultimately show ?thesis by (simp add: obtained_def)
qed

lemma obtained_wait:
  assumes "pool_step\<^sup>*\<^sup>* s s1" "store_ok s" "c < h3_conns s1"
  shows "obtained s (wait_for_slot c s1)"
proof -
  have "pool_step\<^sup>*\<^sup>* s (acquire_slot c s1)" using assms(1) pool_step.wait by (rule rtranclp.rtrancl_into_rtrancl)
  moreover have "h3_slots s1 c + h3_held s1 c = 64"
    using pool_steps_ok [OF assms(1,2)] assms(3) by (simp add: store_ok_def permits_ok_def)
  ultimately show ?thesis by (simp add: obtained_def wait_for_slot_def acquire_slot_def take_permit_def)
qed

lemma others_reach: "others_step w \<Longrightarrow> pool_step\<^sup>*\<^sup>* s s1 \<Longrightarrow> pool_step\<^sup>*\<^sup>* s (hw_others w k s1)"
  unfolding others_step_def by (blast intro: rtranclp_trans)

lemma obtained_try_pick_else:
  assumes "pool_step\<^sup>*\<^sup>* s s1" "\<And>s2. pool_step\<^sup>*\<^sup>* s s2 \<Longrightarrow> obtained s (g s2)"
  shows "obtained s (case try_pick_client_with_slot a s1 of (None, s2) \<Rightarrow> g s2 | (Some c, s2) \<Rightarrow> (Inr c, s2))"
proof -
  obtain r s2 where r: "try_pick_client_with_slot a s1 = (r, s2)" by fastforce
  have "pool_step\<^sup>*\<^sup>* s s2" using assms(1) pool_step.try_pick [of s1 a] r by (simp add: rtranclp.rtrancl_into_rtrancl)
  with assms r obtained_try_pick [OF assms(1)] show ?thesis by (cases r) simp_all
qed

lemma pick_client_member:
  assumes "pick_client p = (Some c, p')"
  shows "c \<in> set (pl_clients p)"
proof -
  have ne: "pl_clients p \<noteq> []" and c: "c = pl_clients p ! (unat (pl_next p) mod length (pl_clients p))"
    using assms by (auto simp: pick_client_def fetch_next_def Let_def split: if_splits)
  from ne show ?thesis unfolding c by simp
qed

lemma obtained_pick_else:
  assumes "store_ok s" "pool_step\<^sup>*\<^sup>* s s1" "\<And>s2. pool_step\<^sup>*\<^sup>* s s2 \<Longrightarrow> obtained s (g s2)"
    and "\<And>c s2. pool_step\<^sup>*\<^sup>* s s2 \<Longrightarrow> c < h3_conns s2 \<Longrightarrow> obtained s (h c s2)"
  shows "obtained s (case update_pool a pick_client s1 of (None, s2) \<Rightarrow> g s2 | (Some c, s2) \<Rightarrow> h c s2)"
proof -
  obtain r p where p: "pick_client (h3_heap s1 a) = (r, p)" by fastforce
  obtain s2 where r: "update_pool a pick_client s1 = (r, s2)" using p by (simp add: update_pool_def)
  have s2: "pool_step\<^sup>*\<^sup>* s s2" "h3_conns s2 = h3_conns s1"
    using assms(2) pool_step.pick [of s1 a] r update_pool_conns(1) [of a pick_client s1]
    by (simp_all add: rtranclp.rtrancl_into_rtrancl)
  have "c < h3_conns s2" if "r = Some c" for c
    using pick_client_member [of "h3_heap s1 a" c p] p that pool_steps_ok [OF assms(2,1)] s2(2)
    by (auto simp: store_ok_def pool_ok_def)
  with assms(3,4) s2(1) r show ?thesis by (cases r) simp_all
qed

lemma add_or_pick_member: "fst (fst (add_or_pick p candidate)) \<in> insert candidate (set (pl_clients p))"
proof (cases "length (pl_clients p) < 2")
  case False
  then have "pl_clients p \<noteq> []" by auto
  then have "pl_clients p ! (unat (pl_next p) mod length (pl_clients p)) \<in> set (pl_clients p)" by simp
  with False show ?thesis by (simp add: add_or_pick_def fetch_next_def DOH_H3_POOL_SIZE_def)
qed (simp add: add_or_pick_def DOH_H3_POOL_SIZE_def)

lemma insert_candidate_obtained:
  assumes "others_step w" "store_ok s" "pool_step\<^sup>*\<^sup>* s s1"
  shows "obtained s (insert_candidate w a s1)"
proof -
  let ?c = "h3_conns s1"
  obtain s2 where n: "new_client s1 = (?c, s2)" "h3_conns s2 = ?c + 1" by (simp add: new_client_def)
  obtain c i s3 where s3: "update_pool a (\<lambda>p. add_or_pick p ?c) s2 = ((c, i), s3)" by (metis surj_pair)
  have r2: "pool_step\<^sup>*\<^sup>* s s2" using assms(3) pool_step.connect [of s1] n(1) by (simp add: rtranclp.rtrancl_into_rtrancl)
  have r3: "pool_step\<^sup>*\<^sup>* s s3" using r2 pool_step.add [of ?c s2 a] s3 n(2) by (simp add: rtranclp.rtrancl_into_rtrancl)
  have "c < h3_conns s2"
    using add_or_pick_member [of "h3_heap s2 a" ?c] s3 n(2) pool_steps_ok [OF r2 assms(2)]
    by (auto simp: update_pool_def store_ok_def pool_ok_def split: prod.splits)
  then have "c < h3_conns s3" using update_pool_conns(1) [of a "\<lambda>p. add_or_pick p ?c" s2] s3 by simp
  then have "c < h3_conns (hw_others w 3 s3)"
    using pool_steps_conns [of s3 "hw_others w 3 s3"] assms(1) by (auto simp: others_step_def intro: less_le_trans)
  with obtained_wait [OF others_reach [OF assms(1) r3] assms(2)] show ?thesis
    by (simp add: insert_candidate_def n(1) s3 del: split_paired_All)
qed

text \<open>A task that asks for a connection only takes steps, whatever the others do, and ends as the owner of a permit.\<close>

lemma doh_h3_client_obtained:
  assumes "others_step w" "store_ok s"
  shows "obtained s (doh_h3_client w key s)"
proof -
  obtain a s1 where i: "load_or_init_doh_h3_pool key s = (a, s1)" by fastforce
  have s1: "pool_step\<^sup>*\<^sup>* s s1" using pool_step.load [of s key] i by simp
  note reach = others_reach [OF assms(1)]
  have wait: "obtained s (wait_for_slot c (hw_others w k s2))" if "pool_step\<^sup>*\<^sup>* s s2" "c < h3_conns s2" for c k s2
    using obtained_wait [OF reach [OF that(1)] assms(2)] that(2) pool_steps_conns [of s2 "hw_others w k s2"] assms(1)
    by (force simp: others_step_def)
  show ?thesis
    unfolding doh_h3_client_def i Let_def prod.case
    apply (rule obtained_try_pick_else [OF reach [OF s1]])
    apply (simp only: split: if_split)
    apply (intro conjI impI)
    subgoal for s2
      by (cases "hw_create w 0")
        (simp_all add: obtained_try_pick_else obtained_pick_else assms(2) obtained_Inl reach wait
          insert_candidate_obtained [OF assms])
    subgoal for s2
      by (cases "hw_create w 1")
        (simp_all add: obtained_try_pick_else obtained_pick_else assms(2) obtained_Inl reach wait
          insert_candidate_obtained [OF assms])
    done
qed

lemma rotation_covers: "(i :: nat) < n \<Longrightarrow> \<exists>offset < n. (start + offset) mod n = i"
proof -
  assume i: "i < n"
  let ?o = "(i + (n - start mod n)) mod n"
  have "start mod n < n" using i by simp
  then have n: "start mod n + (i + (n - start mod n)) = i + n" by simp
  have "(start + ?o) mod n = (start mod n + (i + (n - start mod n))) mod n"
    by (simp add: mod_simps)
  also note n
  finally have "(start + ?o) mod n = i" using i by simp
  then show ?thesis using i by (intro exI [of _ ?o]) simp
qed

lemma try_pick_complete:
  assumes "try_pick_client_with_slot a s = (None, s')" "c \<in> set (pl_clients (h3_heap s a))"
  shows "h3_slots s c = 0"
proof -
  let ?cs = "pl_clients (h3_heap s a)" and ?start = "unat (pl_next (h3_heap s a)) mod length (pl_clients (h3_heap s a))"
  obtain i where i: "i < length ?cs" "c = ?cs ! i" using assms(2) by (auto simp: in_set_conv_nth)
  have "?cs \<noteq> []" using assms(2) by auto
  then obtain s1 where t: "try_slots ?cs ?start [0..<length ?cs] s1 = None" and s1: "h3_slots s1 = h3_slots s"
    using assms(1) by (auto simp: try_pick_client_with_slot_def update_pool_def fetch_next_def Let_def split: option.splits)
  obtain offset where "offset < length ?cs" "(?start + offset) mod length ?cs = i"
    using rotation_covers [OF i(1)] by blast
  with try_slots_None [OF t, of offset] i s1 show ?thesis by simp
qed

subsection \<open>Properties of the pool\<close>

text \<open>
  C29 (invariant): in every state that tasks can reach by the steps of the pools, taken in any order, no
  pool holds more than two connections, and the free and the owned permits of a connection are 64
  together, so that at most 64 requests use it. A task that asks for an HTTP/3 connection only takes such
  steps, whatever its attempts to connect yield and whatever steps the other tasks take between
  its own; when it gets a connection it owns a permit of it, which it can give back.
\<close>

theorem pool_bounds_hold:
  assumes "pool_step\<^sup>*\<^sup>* empty_store s" "others_step w"
  shows "(\<forall>a. length (pl_clients (h3_heap s a)) \<le> 2)
    \<and> (\<forall>c. h3_slots s c + h3_held s c = (if c < h3_conns s then 64 else 0))
    \<and> pool_step\<^sup>*\<^sup>* s (snd (doh_h3_client w key s))
    \<and> (case fst (doh_h3_client w key s) of
         Inl _ \<Rightarrow> True
       | Inr c \<Rightarrow> 0 < h3_held (snd (doh_h3_client w key s)) c)"
proof -
  have ok: "store_ok s" using pool_steps_ok [OF assms(1) empty_store_ok] .
  have "obtained s (doh_h3_client w key s)" by (rule doh_h3_client_obtained [OF assms(2) ok])
  with ok show ?thesis by (auto simp: obtained_def store_ok_def pool_ok_def permits_okD simp del: add_is_0 split: sum.split)
qed

definition quiet_world :: h3_world where
  "quiet_world = \<lparr>hw_create = (\<lambda>_. Inr ()), hw_others = (\<lambda>_ s. s)\<rparr>"

theorem pool_bounds_hold_witness:
  "fst (doh_h3_client quiet_world ''https://dns.example/'' empty_store) = Inr 0
   \<and> 0 < h3_held (snd (doh_h3_client quiet_world ''https://dns.example/'' empty_store)) 0"
proof -
  have o: "others_step quiet_world" by (simp add: others_step_def quiet_world_def)
  have "fst (doh_h3_client quiet_world ''https://dns.example/'' empty_store) = Inr 0"
    by (simp add: doh_h3_client_def load_or_init_doh_h3_pool_def empty_store_def quiet_world_def
        update_pool_def try_pick_client_with_slot_def pool_new_def needs_new_client_def DOH_H3_POOL_SIZE_def
        insert_candidate_def add_or_pick_def new_client_def wait_for_slot_def)
  with pool_bounds_hold [OF rtranclp.rtrancl_refl o, of "''https://dns.example/''"] show ?thesis by simp
qed

text \<open>
  While some pooled connection of the upstream has a free permit, and no other task intervenes, the
  request gets a pooled connection that had a free permit, without waiting and without connecting.
\<close>

lemma free_connection_is_reused:
  assumes "h3_pools s key = Some a" "c \<in> set (pl_clients (h3_heap s a))" "0 < h3_slots s c"
    and "\<And>s. hw_others w 0 s = s"
  shows "\<exists>c' \<in> set (pl_clients (h3_heap s a)). 0 < h3_slots s c' \<and> fst (doh_h3_client w key s) = Inr c'"
proof -
  obtain r s' where r: "try_pick_client_with_slot a s = (r, s')" by fastforce
  from r show ?thesis
  proof (cases rule: try_pick_cases)
    case busy
    with try_pick_complete [OF _ assms(2)] r assms(3) show ?thesis by fastforce
  qed (use assms r in \<open>auto simp: doh_h3_client_def load_or_init_doh_h3_pool_def\<close>)
qed

end
