(* ===== verification/H3_Pending.thy ===== *)
theory H3_Pending
  imports H3_Pool Net_Addr "HOL-Library.AList"
begin

text \<open>
  The requests in flight on one HTTP/3 connection (\<open>DohH3Pending\<close> and the event loop of
  \<open>DohH3Client\<close> in \<open>src/libdoh/src/lib.rs\<close>).

  A task registers a request under a new number together with the sender of its result channel;
  the QUIC driver announces the stream that carries the request; headers, body and resets arrive
  per stream; a dropped guard clears its request. The two hash maps are association lists, a sender
  is the number of its channel, and \<open>lp_sent\<close> records what was sent on which channel. The
  loop is a fold over the events in the order in which they are handled.

  The lemmas show that no channel gets two results, that a result reaches only the request its
  stream was announced for, and that the end of the loop leaves no registered request waiting.
\<close>

type_synonym h3_result = "H3Failure + packet"

definition h3f_retry :: "DoHError \<Rightarrow> H3Failure" where
  "h3f_retry err = \<lparr>h3f_err = err, h3f_retryable = True\<rparr>"

record DohH3Pending =
  by_request :: "(u64 \<times> nat) list"
  by_stream :: "(u64 \<times> u64) list"

subsection \<open>The body of a response\<close>

datatype InboundFrame = BodyFrame packet bool | OtherFrame

fun read_body_loop :: "InboundFrame list \<Rightarrow> packet \<Rightarrow> packet \<times> bool" where
  "read_body_loop [] body = (body, False)"
| "read_body_loop (BodyFrame data fin # frames) body =
    (if fin then (body @ data, True) else read_body_loop frames (body @ data))"
| "read_body_loop (OtherFrame # frames) body = read_body_loop frames body"

definition read_h3_response_body :: "InboundFrame list \<Rightarrow> h3_result" where
  "read_h3_response_body frames =
    (case read_body_loop frames [] of
       (body, seen_fin) \<Rightarrow> if seen_fin then Inr body else Inl (h3f_retry UpstreamIssue))"

subsection \<open>The pending table\<close>

definition register :: "u64 \<Rightarrow> nat \<Rightarrow> DohH3Pending \<Rightarrow> DohH3Pending" where
  "register request_id sender st = st\<lparr>by_request := AList.update request_id sender (by_request st)\<rparr>"

definition clear_pending_h3_request :: "u64 \<Rightarrow> DohH3Pending \<Rightarrow> DohH3Pending" where
  "clear_pending_h3_request request_id st =
    st\<lparr>by_request := AList.delete request_id (by_request st),
       by_stream := filter (\<lambda>(_, rid). rid \<noteq> request_id) (by_stream st)\<rparr>"

text \<open>The sends of an operation are pairs of a channel and a result.\<close>

definition complete_pending_h3_stream ::
  "u64 \<Rightarrow> h3_result \<Rightarrow> DohH3Pending \<Rightarrow> DohH3Pending \<times> (nat \<times> h3_result) list" where
  "complete_pending_h3_stream stream_id result st =
    (case map_of (by_stream st) stream_id of
       None \<Rightarrow> (st, [])
     | Some request_id \<Rightarrow>
         (st\<lparr>by_stream := AList.delete stream_id (by_stream st),
             by_request := AList.delete request_id (by_request st)\<rparr>,
          case map_of (by_request st) request_id of None \<Rightarrow> [] | Some sender \<Rightarrow> [(sender, result)]))"

definition fail_all_pending_h3_requests ::
  "bool \<Rightarrow> DohH3Pending \<Rightarrow> DohH3Pending \<times> (nat \<times> h3_result) list" where
  "fail_all_pending_h3_requests retryable st =
    (st\<lparr>by_stream := [], by_request := []\<rparr>,
     map (\<lambda>(_, sender). (sender, Inl \<lparr>h3f_err = UpstreamIssue, h3f_retryable = retryable\<rparr>)) (by_request st))"

definition new_outbound_request :: "u64 \<Rightarrow> u64 \<Rightarrow> DohH3Pending \<Rightarrow> DohH3Pending" where
  "new_outbound_request stream_id request_id st =
    (if map_of (by_request st) request_id \<noteq> None
     then st\<lparr>by_stream := AList.update stream_id request_id (by_stream st)\<rparr> else st)"

subsection \<open>The event loop\<close>

definition response_status :: "(string \<times> string) list \<Rightarrow> nat" where
  "response_status headers =
    (case List.find (\<lambda>(name, _). name = '':status'') headers of
       None \<Rightarrow> 500
     | Some (_, v) \<Rightarrow> (case parse_uint 65536 v of None \<Rightarrow> 500 | Some n \<Rightarrow> n))"

definition is_no_rebuild_h3_error :: "h3_error \<Rightarrow> bool" where
  "is_no_rebuild_h3_error err \<longleftrightarrow> err = TlsFail \<or> err = CryptoFail"

definition is_retryable_h3_error :: "h3_error \<Rightarrow> bool" where
  "is_retryable_h3_error err \<longleftrightarrow> \<not> is_no_rebuild_h3_error err"

fun is_no_rebuild_h3_connection_error :: "H3ConnectionError \<Rightarrow> bool" where
  "is_no_rebuild_h3_connection_error (H3Connection h3_err) = is_no_rebuild_h3_error h3_err"
| "is_no_rebuild_h3_connection_error NonexistentStream = True"
| "is_no_rebuild_h3_connection_error OtherConnectionError = False"

definition is_retryable_h3_connection_error :: "H3ConnectionError \<Rightarrow> bool" where
  "is_retryable_h3_connection_error err \<longleftrightarrow> \<not> is_no_rebuild_h3_connection_error err"

text \<open>
  \<open>Register\<close> and \<open>Clear\<close> are steps of the requesting tasks; the others are handled by the loop:
  the end of a body task, the events of the driver, and the end of its channel.
\<close>

datatype h3_event =
    Register u64 nat
  | Clear u64
  | BodyDone u64 "InboundFrame list"
  | NewOutboundRequest u64 u64
  | IncomingHeaders u64 "(string \<times> string) list"
  | ConnectionError h3_error
  | ConnectionShutdown "H3ConnectionError option"
  | ResetStream u64
  | StreamClosed u64
  | OtherEvent
  | ChannelEnd

record h3_loop =
  lp_pending :: DohH3Pending
  lp_bodies :: "u64 list"
  lp_running :: bool
  lp_sent :: "(nat \<times> h3_result) list"

definition sending :: "h3_loop \<Rightarrow> DohH3Pending \<times> (nat \<times> h3_result) list \<Rightarrow> h3_loop" where
  "sending lp r = lp\<lparr>lp_pending := fst r, lp_sent := lp_sent lp @ snd r\<rparr>"

definition stopping :: "h3_loop \<Rightarrow> bool \<Rightarrow> h3_loop" where
  "stopping lp retryable =
    (sending lp (fail_all_pending_h3_requests retryable (lp_pending lp)))\<lparr>lp_running := False, lp_bodies := []\<rparr>"

fun loop_event :: "h3_event \<Rightarrow> h3_loop \<Rightarrow> h3_loop" where
  "loop_event (BodyDone stream_id frames) lp =
    (if stream_id \<in> set (lp_bodies lp) then
       sending (lp\<lparr>lp_bodies := remove1 stream_id (lp_bodies lp)\<rparr>)
         (complete_pending_h3_stream stream_id (read_h3_response_body frames) (lp_pending lp))
     else lp)"
| "loop_event (NewOutboundRequest stream_id request_id) lp =
    lp\<lparr>lp_pending := new_outbound_request stream_id request_id (lp_pending lp)\<rparr>"
| "loop_event (IncomingHeaders stream_id headers) lp =
    (if response_status headers \<noteq> 200 then
       sending lp (complete_pending_h3_stream stream_id
         (Inl \<lparr>h3f_err = UpstreamIssue, h3f_retryable = False\<rparr>) (lp_pending lp))
     else lp\<lparr>lp_bodies := lp_bodies lp @ [stream_id]\<rparr>)"
| "loop_event (ConnectionError err) lp = stopping lp (is_retryable_h3_error err)"
| "loop_event (ConnectionShutdown reason) lp =
    stopping lp (case reason of None \<Rightarrow> True | Some err \<Rightarrow> is_retryable_h3_connection_error err)"
| "loop_event (ResetStream stream_id) lp =
    sending lp (complete_pending_h3_stream stream_id (Inl (h3f_retry UpstreamIssue)) (lp_pending lp))"
| "loop_event (StreamClosed stream_id) lp =
    sending lp (complete_pending_h3_stream stream_id (Inl (h3f_retry UpstreamIssue)) (lp_pending lp))"
| "loop_event ChannelEnd lp = stopping lp True"
| "loop_event _ lp = lp"

fun h3_step :: "h3_loop \<Rightarrow> h3_event \<Rightarrow> h3_loop" where
  "h3_step lp (Register request_id sender) = lp\<lparr>lp_pending := register request_id sender (lp_pending lp)\<rparr>"
| "h3_step lp (Clear request_id) = lp\<lparr>lp_pending := clear_pending_h3_request request_id (lp_pending lp)\<rparr>"
| "h3_step lp event = (if lp_running lp then loop_event event lp else lp)"

definition h3_start :: h3_loop where
  "h3_start = \<lparr>lp_pending = \<lparr>by_request = [], by_stream = []\<rparr>, lp_bodies = [], lp_running = True, lp_sent = []\<rparr>"

definition h3_run :: "h3_event list \<Rightarrow> h3_loop" where
  "h3_run events = foldl h3_step h3_start events"

subsection \<open>Every channel gets at most one result\<close>

text \<open>
  An operation on the pending table hands out senders: it sends only on channels it removes, once
  on each, and adds none.
\<close>

definition chans :: "DohH3Pending \<Rightarrow> nat list" where "chans st = map snd (by_request st)"

locale pending_operation =
  fixes f :: "DohH3Pending \<Rightarrow> DohH3Pending \<times> (nat \<times> h3_result) list"
  assumes keeps: "set (by_request (fst (f st))) \<subseteq> set (by_request st)"
    and keeps_distinct: "distinct (chans st) \<Longrightarrow> distinct (chans (fst (f st)))"
    and sends: "distinct (chans st) \<Longrightarrow> distinct (map fst (snd (f st)))
      \<and> fst ` set (snd (f st)) \<subseteq> set (chans st) - set (chans (fst (f st)))"

text \<open>Registered channels are waiting or served, not both, and served once.\<close>

fun senders :: "h3_event list \<Rightarrow> nat list" where
  "senders [] = []"
| "senders (Register rid ch # evs) = ch # senders evs"
| "senders (_ # evs) = senders evs"

definition served :: "h3_loop \<Rightarrow> nat list" where "served lp = map fst (lp_sent lp)"

definition chan_inv :: "nat set \<Rightarrow> h3_loop \<Rightarrow> bool" where
  "chan_inv A lp \<longleftrightarrow> distinct (chans (lp_pending lp)) \<and> distinct (served lp)
     \<and> set (chans (lp_pending lp)) \<inter> set (served lp) = {}
     \<and> set (chans (lp_pending lp)) \<union> set (served lp) \<subseteq> A"

context pending_operation begin

lemma sending_inv:
  assumes "chan_inv A lp" "lp_pending lp' = lp_pending lp" "lp_sent lp' = lp_sent lp"
  shows "chan_inv A (sending lp' (f (lp_pending lp)))"
proof -
  let ?st = "lp_pending lp"
  have d: "distinct (chans ?st)" using assms(1) by (simp add: chan_inv_def)
  have sub: "set (chans (fst (f ?st))) \<subseteq> set (chans ?st)"
    using keeps [of ?st] by (auto simp: chans_def)
  have "chan_inv A (lp\<lparr>lp_pending := fst (f ?st), lp_sent := lp_sent lp @ snd (f ?st)\<rparr>)"
    using assms(1) sends [OF d] keeps_distinct [OF d] sub
    by (auto simp: chan_inv_def served_def)
  then show ?thesis using assms(2,3) by (simp add: sending_def chan_inv_def served_def)
qed

end

lemma delete_mem: "(a, b) \<in> set (AList.delete k al) \<Longrightarrow> (a, b) \<in> set al"
  by (auto simp: AList.delete_eq)

lemma distinct_snd_delete: "distinct (map snd al) \<Longrightarrow> distinct (map snd (AList.delete k al))"
  by (simp add: AList.delete_eq distinct_map_filter)

lemma delete_removes: "distinct (map snd al) \<Longrightarrow> map_of al k = Some v \<Longrightarrow> v \<notin> snd ` set (AList.delete k al)"
proof
  assume d: "distinct (map snd al)" and m: "map_of al k = Some v" and "v \<in> snd ` set (AList.delete k al)"
  then obtain j where j: "(j, v) \<in> set (AList.delete k al)" by auto
  then have "(j, v) \<in> set al" "j \<noteq> k" by (auto simp: AList.delete_eq)
  moreover have "(k, v) \<in> set al" using m by (rule map_of_SomeD)
  ultimately show False using d by (metis distinct_map inj_onD prod.inject snd_conv)
qed

interpretation complete: pending_operation "complete_pending_h3_stream stream_id result" for stream_id result
proof
  fix st
  show "set (by_request (fst (complete_pending_h3_stream stream_id result st))) \<subseteq> set (by_request st)"
    by (auto simp: complete_pending_h3_stream_def split: option.splits dest: delete_mem)
  assume d: "distinct (chans st)"
  then show "distinct (chans (fst (complete_pending_h3_stream stream_id result st)))"
    by (auto simp: complete_pending_h3_stream_def chans_def distinct_snd_delete split: option.splits)
  show "distinct (map fst (snd (complete_pending_h3_stream stream_id result st)))
      \<and> fst ` set (snd (complete_pending_h3_stream stream_id result st)) \<subseteq> set (chans st)
         - set (chans (fst (complete_pending_h3_stream stream_id result st)))"
    using d delete_removes [of "by_request st"]
    by (auto simp: complete_pending_h3_stream_def chans_def map_of_SomeD split: option.splits
        intro: rev_image_eqI dest: map_of_SomeD)
qed

interpretation fail_all: pending_operation "fail_all_pending_h3_requests retryable" for retryable
  by standard (force simp: fail_all_pending_h3_requests_def chans_def split_beta comp_def)+

interpretation clear: pending_operation "\<lambda>st. (clear_pending_h3_request request_id st, [])" for request_id
  by unfold_locales (auto simp: clear_pending_h3_request_def chans_def distinct_snd_delete dest: delete_mem)

interpretation announce: pending_operation "\<lambda>st. (new_outbound_request stream_id request_id st, [])" for stream_id request_id
  by standard (auto simp: new_outbound_request_def chans_def)

lemma stopping_inv: "chan_inv A lp \<Longrightarrow> chan_inv A (stopping lp retryable)"
  using fail_all.sending_inv [of A lp lp retryable] by (simp add: stopping_def chan_inv_def served_def)

lemma loop_event_inv:
  assumes "chan_inv A lp"
  shows "chan_inv A (loop_event ev lp)"
proof (cases ev)
  case (BodyDone stream_id frames)
  then show ?thesis
    using assms complete.sending_inv [OF assms, of "lp\<lparr>lp_bodies := remove1 stream_id (lp_bodies lp)\<rparr>" stream_id
        "read_h3_response_body frames"] by simp
next
  case (NewOutboundRequest stream_id request_id)
  then show ?thesis using announce.sending_inv [OF assms refl refl, of stream_id request_id]
    by (simp add: sending_def)
next
  case (IncomingHeaders stream_id headers)
  then show ?thesis
    using assms complete.sending_inv [OF assms refl refl, of stream_id "Inl \<lparr>h3f_err = UpstreamIssue, h3f_retryable = False\<rparr>"]
    by (simp add: chan_inv_def served_def)
qed (use assms stopping_inv complete.sending_inv [OF assms refl refl] in simp_all)

lemma map_snd_update:
  "ch \<notin> snd ` set al \<Longrightarrow> distinct (map snd al) \<Longrightarrow>
   distinct (map snd (AList.update k ch al)) \<and> snd ` set (AList.update k ch al) \<subseteq> insert ch (snd ` set al)"
  by (induction al) auto

lemma senders_append: "senders (xs @ ys) = senders xs @ senders ys"
  by (induction xs rule: senders.induct) simp_all

lemma h3_step_cases:
  obtains (register) rid ch where "ev = Register rid ch" | (clear) rid where "ev = Clear rid"
    | (handled) "h3_step lp ev = loop_event ev lp" | (ignored) "h3_step lp ev = lp"
  by (cases ev; cases "lp_running lp") auto

lemma h3_step_inv:
  assumes "chan_inv (set (senders evs)) lp" "distinct (senders (evs @ [ev]))"
  shows "chan_inv (set (senders (evs @ [ev]))) (h3_step lp ev)"
proof -
  have mono: "chan_inv (set (senders (evs @ [ev]))) lp" using assms(1) unfolding chan_inv_def senders_append by auto
  show ?thesis
  proof (cases rule: h3_step_cases [where ev = ev and lp = lp])
    case (register rid ch)
    note Register = register
    have "ch \<notin> set (senders evs)" using assms(2) by (simp add: senders_append Register)
    then have "ch \<notin> set (chans (lp_pending lp))" "ch \<notin> set (served lp)" using assms(1) by (auto simp: chan_inv_def)
    moreover let ?lp = "h3_step lp ev"
    have "distinct (chans (lp_pending ?lp)) \<and> set (chans (lp_pending ?lp)) \<subseteq> insert ch (set (chans (lp_pending lp)))"
      using calculation(1) map_snd_update [of ch "by_request (lp_pending lp)" rid] assms(1)
      by (simp add: Register chan_inv_def register_def chans_def)
    moreover have "served ?lp = served lp" "set (senders (evs @ [ev])) = insert ch (set (senders evs))"
      by (simp_all add: served_def Register senders_append)
    ultimately show ?thesis using assms(1) unfolding chan_inv_def by auto
  next
    case (clear rid)
    then show ?thesis using clear.sending_inv [OF mono refl refl, of rid] by (simp add: sending_def)
  next
    case handled
    with loop_event_inv [OF mono] show ?thesis by simp
  qed (use mono in simp)
qed

lemma h3_run_snoc: "h3_run (evs @ [ev]) = h3_step (h3_run evs) ev"
  by (simp add: h3_run_def)

lemma h3_run_inv: "distinct (senders evs) \<Longrightarrow> chan_inv (set (senders evs)) (h3_run evs)"
proof (induction evs rule: rev_induct)
  case Nil
  then show ?case by (simp add: h3_run_def h3_start_def chan_inv_def chans_def served_def)
next
  case (snoc ev evs)
  then have "chan_inv (set (senders evs)) (h3_run evs)" by (simp add: senders_append)
  from h3_step_inv [OF this snoc.prems] show ?case by (simp add: h3_run_snoc)
qed


subsection \<open>A result belongs to the request\<close>

definition status_ok :: "u64 \<Rightarrow> h3_event list \<Rightarrow> bool" where
  "status_ok s evs \<longleftrightarrow> (\<exists>headers. IncomingHeaders s headers \<in> set evs \<and> response_status headers = 200)"

definition body_for :: "nat \<Rightarrow> packet \<Rightarrow> h3_event list \<Rightarrow> bool" where
  "body_for ch body evs \<longleftrightarrow> (\<exists>rid s frames. Register rid ch \<in> set evs \<and> NewOutboundRequest s rid \<in> set evs
     \<and> status_ok s evs \<and> BodyDone s frames \<in> set evs \<and> read_h3_response_body frames = Inr body)"

definition origin_inv :: "h3_event list \<Rightarrow> h3_loop \<Rightarrow> bool" where
  "origin_inv evs lp \<longleftrightarrow>
     (\<forall>(rid, ch) \<in> set (by_request (lp_pending lp)). Register rid ch \<in> set evs)
   \<and> (\<forall>(s, rid) \<in> set (by_stream (lp_pending lp)). NewOutboundRequest s rid \<in> set evs)
   \<and> (\<forall>s \<in> set (lp_bodies lp). status_ok s evs)
   \<and> (\<forall>ch body. (ch, Inr body) \<in> set (lp_sent lp) \<longrightarrow> body_for ch body evs)"

lemma origin_mono: "origin_inv evs lp \<Longrightarrow> set evs \<subseteq> set evs' \<Longrightarrow> origin_inv evs' lp"
  unfolding origin_inv_def body_for_def status_ok_def by fastforce

lemma update_mem: "(a, b) \<in> set (AList.update k v al) \<Longrightarrow> (a, b) = (k, v) \<or> (a, b) \<in> set al"
  by (induction al) (auto split: if_splits)

lemma complete_origin:
  assumes "origin_inv evs lp" "\<And>body. result = Inr body \<Longrightarrow> \<exists>frames. status_ok s evs
      \<and> BodyDone s frames \<in> set evs \<and> read_h3_response_body frames = Inr body"
    "lp_pending lp' = lp_pending lp" "lp_sent lp' = lp_sent lp" "set (lp_bodies lp') \<subseteq> set (lp_bodies lp)"
  shows "origin_inv evs (sending lp' (complete_pending_h3_stream s result (lp_pending lp)))"
proof (cases "map_of (by_stream (lp_pending lp)) s")
  case None
  then show ?thesis using assms by (auto simp: complete_pending_h3_stream_def sending_def origin_inv_def)
next
  case (Some rid)
  have out: "NewOutboundRequest s rid \<in> set evs"
    using assms(1) map_of_SomeD [OF Some] by (auto simp: origin_inv_def)
  have "body_for ch body evs" if "map_of (by_request (lp_pending lp)) rid = Some ch" "result = Inr body" for ch body
  proof -
    have "Register rid ch \<in> set evs" using assms(1) map_of_SomeD [OF that(1)] by (auto simp: origin_inv_def)
    with out assms(2) [OF that(2)] show ?thesis unfolding body_for_def by blast
  qed
  with Some assms(1,3-5) show ?thesis
    by (auto simp: complete_pending_h3_stream_def sending_def origin_inv_def dest: delete_mem split: option.splits)
qed

lemma stopping_origin: "origin_inv evs lp \<Longrightarrow> origin_inv evs (stopping lp retryable)"
  by (auto simp: stopping_def sending_def fail_all_pending_h3_requests_def origin_inv_def)

lemma loop_event_origin:
  assumes "origin_inv evs lp" "ev \<in> set evs"
  shows "origin_inv evs (loop_event ev lp)"
proof (cases ev)
  case (BodyDone s frames)
  show ?thesis
  proof (cases "s \<in> set (lp_bodies lp)")
    case True
    then have "status_ok s evs" using assms(1) by (simp add: origin_inv_def)
    then have "origin_inv evs (sending (lp\<lparr>lp_bodies := remove1 s (lp_bodies lp)\<rparr>)
        (complete_pending_h3_stream s (read_h3_response_body frames) (lp_pending lp)))"
      using assms BodyDone by (intro complete_origin) (auto dest: subsetD [OF set_remove1_subset])
    with BodyDone True show ?thesis by simp
  qed (use BodyDone assms in simp)
next
  case (NewOutboundRequest s rid)
  then show ?thesis using assms by (auto simp: new_outbound_request_def origin_inv_def dest!: update_mem)
next
  case (IncomingHeaders s headers)
  show ?thesis
  proof (cases "response_status headers = 200")
    case True
    then have "status_ok s evs" using assms(2) IncomingHeaders by (auto simp: status_ok_def)
    with True IncomingHeaders assms show ?thesis by (auto simp: origin_inv_def)
  next
    case False
    have "origin_inv evs (sending lp (complete_pending_h3_stream s
        (Inl \<lparr>h3f_err = UpstreamIssue, h3f_retryable = False\<rparr>) (lp_pending lp)))"
      by (rule complete_origin [OF assms(1)]) auto
    with False IncomingHeaders show ?thesis by simp
  qed
next
  case (ResetStream s)
  have "origin_inv evs (sending lp (complete_pending_h3_stream s (Inl (h3f_retry UpstreamIssue)) (lp_pending lp)))"
    by (rule complete_origin [OF assms(1)]) auto
  with ResetStream show ?thesis by simp
next
  case (StreamClosed s)
  have "origin_inv evs (sending lp (complete_pending_h3_stream s (Inl (h3f_retry UpstreamIssue)) (lp_pending lp)))"
    by (rule complete_origin [OF assms(1)]) auto
  with StreamClosed show ?thesis by simp
qed (use assms stopping_origin in simp_all)

lemma h3_run_origin: "origin_inv evs (h3_run evs)"
proof (induction evs rule: rev_induct)
  case Nil
  show ?case by (simp add: h3_run_def h3_start_def origin_inv_def)
next
  case (snoc ev evs)
  have o: "origin_inv (evs @ [ev]) (h3_run evs)" using snoc by (rule origin_mono) auto
  show ?case
  proof (cases rule: h3_step_cases [where ev = ev and lp = "h3_run evs"])
    case (register rid ch)
    then show ?thesis using o by (auto simp: h3_run_snoc origin_inv_def register_def dest!: update_mem)
  next
    case (clear rid)
    then show ?thesis using o by (auto simp: h3_run_snoc origin_inv_def clear_pending_h3_request_def dest: delete_mem)
  next
    case handled
    with loop_event_origin [OF o, of ev] show ?thesis by (simp add: h3_run_snoc)
  qed (use o in \<open>simp add: h3_run_snoc\<close>)
qed


subsection \<open>No request is forgotten\<close>

text \<open>A registered request that was not cleared waits or was served, when request numbers are not reused.\<close>

fun numbers :: "h3_event list \<Rightarrow> u64 list" where
  "numbers [] = []"
| "numbers (Register rid ch # evs) = rid # numbers evs"
| "numbers (_ # evs) = numbers evs"

lemma numbers_append: "numbers (xs @ ys) = numbers xs @ numbers ys"
  by (induction xs rule: numbers.induct) simp_all

lemma Register_mem: "Register rid ch \<in> set evs \<Longrightarrow> rid \<in> set (numbers evs) \<and> ch \<in> set (senders evs)"
proof (induction evs)
  case (Cons ev evs)
  then show ?case by (cases ev) auto
qed simp

definition accounted :: "u64 \<Rightarrow> nat \<Rightarrow> h3_loop \<Rightarrow> bool" where
  "accounted rid ch lp \<longleftrightarrow> map_of (by_request (lp_pending lp)) rid = Some ch \<or> ch \<in> set (served lp)"

lemma complete_accounted:
  assumes "accounted rid ch lp" "lp_pending lp' = lp_pending lp" "lp_sent lp' = lp_sent lp"
  shows "accounted rid ch (sending lp' (complete_pending_h3_stream s result (lp_pending lp)))"
  using assms
  by (auto simp: accounted_def sending_def served_def complete_pending_h3_stream_def AList.delete_conv'
      split: option.splits)

lemma stopping_accounted: "accounted rid ch lp \<Longrightarrow> ch \<in> set (served (stopping lp retryable))"
  by (force simp: accounted_def stopping_def sending_def served_def fail_all_pending_h3_requests_def dest: map_of_SomeD)

lemma stopping_accounted': "accounted rid ch lp \<Longrightarrow> accounted rid ch (stopping lp retryable)"
  using stopping_accounted by (simp add: accounted_def)

lemma loop_event_accounted: "accounted rid ch lp \<Longrightarrow> accounted rid ch (loop_event ev lp)"
  by (cases ev)
    (auto intro: complete_accounted stopping_accounted', auto simp: accounted_def new_outbound_request_def served_def)

lemma h3_run_accounted:
  assumes "distinct (numbers evs)" "Register rid ch \<in> set evs" "Clear rid \<notin> set evs"
  shows "accounted rid ch (h3_run evs)"
  using assms
proof (induction evs rule: rev_induct)
  case (snoc ev evs)
  show ?case
  proof (cases "ev = Register rid ch")
    case True
    then show ?thesis by (simp add: h3_run_snoc accounted_def register_def AList.update_conv')
  next
    case False
    then have acc: "accounted rid ch (h3_run evs)" using snoc by (simp add: numbers_append)
    show ?thesis
    proof (cases rule: h3_step_cases [where ev = ev and lp = "h3_run evs"])
      case (register rid' ch')
      have "rid \<in> set (numbers evs)" using snoc.prems(2) False Register_mem [of rid ch evs] by auto
      then have "rid' \<noteq> rid" using snoc.prems(1) by (auto simp: register numbers_append)
      with acc register show ?thesis
        by (simp add: h3_run_snoc accounted_def served_def register_def AList.update_conv')
    next
      case (clear rid')
      then have "rid' \<noteq> rid" using snoc.prems(3) by auto
      with acc clear show ?thesis
        by (simp add: h3_run_snoc accounted_def served_def clear_pending_h3_request_def AList.delete_conv')
    next
      case handled
      with loop_event_accounted [OF acc] show ?thesis by (simp add: h3_run_snoc)
    qed (use acc in \<open>simp add: h3_run_snoc\<close>)
  qed
qed simp

fun stops :: "h3_event \<Rightarrow> bool" where
  "stops (ConnectionError _) = True"
| "stops (ConnectionShutdown _) = True"
| "stops ChannelEnd = True"
| "stops _ = False"

lemma served_mono: "set (served lp) \<subseteq> set (served (h3_step lp ev))"
  by (cases ev) (auto simp: served_def sending_def stopping_def)

lemma served_run_mono: "set (served (h3_run xs)) \<subseteq> set (served (h3_run (xs @ ys)))"
proof (induction ys rule: rev_induct)
  case (snoc y ys)
  have "h3_run (xs @ ys @ [y]) = h3_step (h3_run (xs @ ys)) y"
    using h3_run_snoc [of "xs @ ys" y] by simp
  with snoc served_mono show ?case by fastforce
qed simp

lemma stopped_served:
  assumes "distinct (numbers xs)" "Register rid ch \<in> set xs" "Clear rid \<notin> set xs" "stops e" "lp_running (h3_run xs)"
  shows "ch \<in> set (served (h3_run (xs @ e # ys)))"
proof -
  have "ch \<in> set (served (h3_step (h3_run xs) e))"
    using stopping_accounted [OF h3_run_accounted [OF assms(1-3)]] assms(4,5) by (cases e) simp_all
  with served_run_mono [of "xs @ [e]" ys] show ?thesis by (auto simp: h3_run_snoc)
qed

subsection \<open>Properties of the requests in flight\<close>

text \<open>
  C25 (safety): a response body is delivered on a channel only when the request registered with that
  channel was announced on some stream, that stream answered with status 200, and the body is the
  complete body of that stream, in every order of the events of any number of concurrent requests.
\<close>

theorem response_reaches_its_request:
  assumes "(ch, Inr body) \<in> set (lp_sent (h3_run evs))"
  shows "\<exists>rid s frames headers. Register rid ch \<in> set evs \<and> NewOutboundRequest s rid \<in> set evs
    \<and> IncomingHeaders s headers \<in> set evs \<and> response_status headers = 200
    \<and> BodyDone s frames \<in> set evs \<and> read_h3_response_body frames = Inr body"
  using h3_run_origin [of evs] assms unfolding origin_inv_def body_for_def status_ok_def by blast

definition two_requests :: "h3_event list" where
  "two_requests = [Register 1 10, Register 2 20, NewOutboundRequest 4 2, NewOutboundRequest 0 1,
     IncomingHeaders 4 [('':status'', ''200'')], IncomingHeaders 0 [('':status'', ''404'')],
     BodyDone 4 [BodyFrame [1, 2] False, OtherFrame, BodyFrame [3] True]]"

lemma two_requests_sent:
  "lp_sent (h3_run two_requests) = [(10, Inl \<lparr>h3f_err = UpstreamIssue, h3f_retryable = False\<rparr>), (20, Inr [1, 2, 3])]"
  by (simp add: h3_run_def two_requests_def h3_start_def register_def new_outbound_request_def response_status_def
      parse_uint_def to_digit_def sending_def complete_pending_h3_stream_def read_h3_response_body_def)

theorem response_reaches_its_request_witness:
  "\<exists>rid s. Register rid 20 \<in> set two_requests \<and> NewOutboundRequest s rid \<in> set two_requests"
proof -
  have "(20, Inr [1, 2, 3]) \<in> set (lp_sent (h3_run two_requests))" by (simp add: two_requests_sent)
  from response_reaches_its_request [OF this] show ?thesis by blast
qed

text \<open>
  C26 (liveness): once the connection fails, is shut down or its driver ends, every request
  that was registered before and not given up has got exactly one result, provided that request
  numbers are not reused and every request has its own channel.
\<close>

theorem every_request_gets_one_result:
  assumes "distinct (senders (xs @ e # ys))" "distinct (numbers xs)"
    and "Register rid ch \<in> set xs" "Clear rid \<notin> set xs" "stops e" "lp_running (h3_run xs)"
  shows "\<exists>!result. (ch, result) \<in> set (lp_sent (h3_run (xs @ e # ys)))"
proof -
  obtain result where "(ch, result) \<in> set (lp_sent (h3_run (xs @ e # ys)))"
    using stopped_served [OF assms(2-6), of ys] by (auto simp: served_def)
  moreover have "distinct (map fst (lp_sent (h3_run (xs @ e # ys))))"
    using h3_run_inv [OF assms(1)] by (simp add: chan_inv_def served_def)
  ultimately show ?thesis by (intro ex1I [of _ result]) (auto dest: eq_key_imp_eq_value)
qed

theorem every_request_gets_one_result_witness:
  "\<exists>!result. (10, result) \<in> set (lp_sent (h3_run ([Register 1 10, NewOutboundRequest 0 1] @ ConnectionError TlsFail # [])))"
  by (rule every_request_gets_one_result [of _ _ _ 1]) (simp_all add: h3_run_def h3_start_def)

end
