(* ===== verification/Doh_Protocol.thy ===== *)
theory Doh_Protocol
  imports H3_Pending "HOL-Library.State_Monad"
begin

text \<open>
  One request to a DNS-over-HTTPS upstream: the choice between HTTP/3 and HTTP/2, the fallback, the
  retries, the back-off after failures and the rebuilding of clients (\<open>proxy_doh\<close> and its helpers
  in \<open>src/libdoh/src/lib.rs\<close>).

  The state of a request is the upstream record (its atomics included), the table of HTTP/3 pools
  and a counter. What the world answers (the clock, the name resolution, sockets, the protocol
  probes, the HTTP clients) is read from the environment under that counter, so that every question
  gets its own, arbitrary answer. Other requests do not touch the atomics meanwhile.

  The lemmas show that an upstream that answers over HTTP/2 is always answered from, that no
  HTTP/3 attempt is made while the back-off lasts, how failures lead to the back-off, and how often
  a request is attempted.
\<close>

definition DOH_PROTO_UNKNOWN :: byte where "DOH_PROTO_UNKNOWN = 0"
definition DOH_PROTO_H2 :: byte where "DOH_PROTO_H2 = 1"
definition DOH_PROTO_H3 :: byte where "DOH_PROTO_H3 = 2"
definition DOH_REQUEST_RETRY_LIMIT :: nat where "DOH_REQUEST_RETRY_LIMIT = 2"
definition DOH_MIN_REBUILD_INTERVAL_MS :: u64 where "DOH_MIN_REBUILD_INTERVAL_MS = 1000"
definition DOH_PROBE_TLS_TIMEOUT_SECS :: nat where "DOH_PROBE_TLS_TIMEOUT_SECS = 10"
definition H3_FAILURE_THRESHOLD :: u32 where "H3_FAILURE_THRESHOLD = 3"
definition H3_FAILURE_WINDOW_SECS :: u64 where "H3_FAILURE_WINDOW_SECS = 60"
definition H3_BACKOFF_SECS :: u64 where "H3_BACKOFF_SECS = 30"

lemmas proto_defs = DOH_PROTO_UNKNOWN_def DOH_PROTO_H2_def DOH_PROTO_H3_def

subsection \<open>Which errors are retried\<close>

definition is_no_rebuild_hyper_error :: "hyper_error \<Rightarrow> bool" where
  "is_no_rebuild_hyper_error err \<longleftrightarrow>
     hy_parse err \<or> hy_parse_too_large err \<or> hy_parse_status err \<or> hy_user err"

definition is_retryable_hyper_error :: "hyper_error \<Rightarrow> bool" where
  "is_retryable_hyper_error err \<longleftrightarrow> \<not> is_no_rebuild_hyper_error err"

definition is_no_rebuild_io_error :: "io_error \<Rightarrow> bool" where
  "is_no_rebuild_io_error err \<longleftrightarrow> io_kind err \<in> {InvalidInputKind, InvalidDataKind, UnsupportedKind,
     PermissionDeniedKind, AlreadyExistsKind, AddrInUseKind}"

function is_retryable_std_error :: "std_error \<Rightarrow> bool"
  and is_retryable_io_error :: "io_error \<Rightarrow> bool"
  and is_retryable_quic_error :: "std_error \<Rightarrow> bool" where
  "is_retryable_std_error err =
    (case err of
       StdIo io_err \<Rightarrow> is_retryable_io_error io_err
     | StdHyper hyper_err \<Rightarrow> is_retryable_hyper_error hyper_err
     | StdHandshake \<Rightarrow> is_retryable_quic_error err
     | StdH3Connection _ \<Rightarrow> is_retryable_quic_error err
     | StdH3 _ \<Rightarrow> is_retryable_quic_error err
     | StdOther \<Rightarrow> True)"
| "is_retryable_io_error err =
    (if is_no_rebuild_io_error err then False
     else case io_source err of Some source \<Rightarrow> is_retryable_std_error source | None \<Rightarrow> True)"
| "is_retryable_quic_error err =
    (case err of
       StdHandshake \<Rightarrow> True
     | StdH3Connection conn_err \<Rightarrow> is_retryable_h3_connection_error conn_err
     | StdIo io_err \<Rightarrow> is_retryable_io_error io_err
     | StdH3 h3_err \<Rightarrow> is_retryable_h3_error h3_err
     | _ \<Rightarrow> True)"
  by pat_completeness auto
termination
proof (relation "measure (\<lambda>x. case x of
    Inl e \<Rightarrow> 3 * size e + 2 | Inr (Inl e) \<Rightarrow> 3 * size e + 2 | Inr (Inr e) \<Rightarrow> 3 * size e + 1)",
    goal_cases)
  case (6 err source)
  then show ?case by (cases err) auto
qed auto

fun is_no_rebuild_doh_error :: "DoHError \<Rightarrow> bool" where
  "is_no_rebuild_doh_error Incomplete = True"
| "is_no_rebuild_doh_error InvalidData = True"
| "is_no_rebuild_doh_error TooLarge = True"
| "is_no_rebuild_doh_error StaleKey = True"
| "is_no_rebuild_doh_error TooManyTcpSessions = True"
| "is_no_rebuild_doh_error (Hyper hyper_err) = is_no_rebuild_hyper_error hyper_err"
| "is_no_rebuild_doh_error (Io io_err) = is_no_rebuild_io_error io_err"
| "is_no_rebuild_doh_error _ = False"

definition is_retryable_doh_error :: "DoHError \<Rightarrow> bool" where
  "is_retryable_doh_error err \<longleftrightarrow> \<not> is_no_rebuild_doh_error err"

text \<open>An error of the pooling HTTP client: whether connecting failed, and its source.\<close>

record HyperLegacyError =
  hl_connect :: bool
  hl_source :: "std_error option"

definition is_retryable_h2_client_error :: "HyperLegacyError \<Rightarrow> bool" where
  "is_retryable_h2_client_error err =
    (if hl_connect err then True
     else case hl_source err of Some source \<Rightarrow> is_retryable_std_error source | None \<Rightarrow> True)"

record H2Failure =
  h2f_err :: DoHError
  h2f_retryable :: bool

definition h2f_from_doh_error :: "DoHError \<Rightarrow> H2Failure" where
  "h2f_from_doh_error err = \<lparr>h2f_err = err, h2f_retryable = is_retryable_doh_error err\<rparr>"

definition h2f_from_hyper_legacy_error :: "HyperLegacyError \<Rightarrow> H2Failure" where
  "h2f_from_hyper_legacy_error err =
    (let timeout = (case hl_source err of Some (StdHyper e) \<Rightarrow> hy_timeout e | _ \<Rightarrow> False) in
     \<lparr>h2f_err = (if timeout then UpstreamTimeout else UpstreamIssue),
      h2f_retryable = is_retryable_h2_client_error err\<rparr>)"

definition h2f_from_hyper_error :: "hyper_error \<Rightarrow> H2Failure" where
  "h2f_from_hyper_error err =
    \<lparr>h2f_err = (if hy_timeout err then UpstreamTimeout else UpstreamIssue),
     h2f_retryable = is_retryable_hyper_error err\<rparr>"

definition h3f_from_doh_error :: "DoHError \<Rightarrow> H3Failure" where
  "h3f_from_doh_error err = \<lparr>h3f_err = err, h3f_retryable = is_retryable_doh_error err\<rparr>"

definition h3f_from_io :: "io_error \<Rightarrow> H3Failure" where
  "h3f_from_io err = \<lparr>h3f_err = Io err, h3f_retryable = is_retryable_io_error err\<rparr>"

definition h3f_from_boxed_sync :: "std_error \<Rightarrow> H3Failure" where
  "h3f_from_boxed_sync err =
    (let retryable = is_retryable_quic_error err in
     case err of
       StdIo io_err \<Rightarrow> \<lparr>h3f_err = Io io_err, h3f_retryable = retryable\<rparr>
     | _ \<Rightarrow> \<lparr>h3f_err = UpstreamIssue, h3f_retryable = retryable\<rparr>)"

text \<open>The copy of an \<open>io::Error\<close> keeps its kind and its text.\<close>

definition h3f_from_send_error :: "std_error \<Rightarrow> H3Failure" where
  "h3f_from_send_error err =
    (let retryable = is_retryable_std_error err in
     case err of
       StdIo io_err \<Rightarrow>
         \<lparr>h3f_err = Io (IoError (io_kind io_err) (Some StdOther) (io_text io_err)), h3f_retryable = retryable\<rparr>
     | _ \<Rightarrow> \<lparr>h3f_err = UpstreamIssue, h3f_retryable = retryable\<rparr>)"

subsection \<open>The upstream and the environment\<close>

record DohUpstream =
  du_url :: string
  du_host :: string
  du_port :: u16
  du_path :: string
  du_authority :: string
  du_h3_only :: bool
  protocol_hint :: byte
  h3_failures :: u32
  h3_last_failure_ms :: u64
  h3_backoff_until_ms :: u64
  h2_last_rebuild_ms :: u64
  h3_last_rebuild_ms :: u64
  h2_client :: "nat option"
  h2_target_addr :: "SocketAddr option"

record doh_run =
  r_up :: DohUpstream
  r_store :: h3_store
  r_tick :: nat

type_synonym 'a run = "(doh_run, 'a) state"

text \<open>Which of the two probes finishes first, and whether it succeeded.\<close>

datatype probe_race = H3First bool | TlsFirst bool

text \<open>
  The questions: \<open>de_uri_ok\<close> and \<open>de_request_ok\<close> are the URI parser and the request builder of the
  http crate; \<open>de_server_name_ok\<close> is the name check of rustls; \<open>de_h2_request\<close> is the status and the
  body of a response. \<open>de_cancelled\<close> is the state in which the time limit stopped the request, when
  it did.
\<close>

record doh_env =
  de_now :: "nat \<Rightarrow> u64"
  de_local :: SocketAddr
  de_bootstrap_dns :: "SocketAddr list"
  de_timeout :: duration
  de_resolve :: "nat \<Rightarrow> DoHError + SocketAddr list"
  de_udp_bind :: "nat \<Rightarrow> io_error + unit"
  de_udp_connect :: "nat \<Rightarrow> io_error + unit"
  de_race :: "nat \<Rightarrow> probe_race"
  de_native_roots :: "nat \<Rightarrow> bool"
  de_server_name_ok :: "string \<Rightarrow> bool"
  de_new_client :: "nat \<Rightarrow> nat"
  de_uri_ok :: "string \<Rightarrow> bool"
  de_request_ok :: "string \<Rightarrow> string \<Rightarrow> bool"
  de_h2_request :: "nat \<Rightarrow> string \<Rightarrow> packet \<Rightarrow> HyperLegacyError + (nat \<times> (hyper_error + packet))"
  de_quic_connect :: "nat \<Rightarrow> std_error + unit"
  de_others :: "nat \<Rightarrow> nat \<Rightarrow> h3_store \<Rightarrow> h3_store"
  de_h3_request :: "nat \<Rightarrow> nat \<Rightarrow> packet \<Rightarrow> h3_result"
  de_cancelled :: "doh_run \<Rightarrow> doh_run option"

definition ask :: "(nat \<Rightarrow> 'a) \<Rightarrow> 'a run" where
  "ask f = State (\<lambda>s. (f (r_tick s), s\<lparr>r_tick := r_tick s + 1\<rparr>))"

definition gets_up :: "(DohUpstream \<Rightarrow> 'a) \<Rightarrow> 'a run" where
  "gets_up f = State (\<lambda>s. (f (r_up s), s))"

definition modify_up :: "(DohUpstream \<Rightarrow> DohUpstream) \<Rightarrow> unit run" where
  "modify_up f = State (\<lambda>s. ((), s\<lparr>r_up := f (r_up s)\<rparr>))"

definition with_store :: "(h3_store \<Rightarrow> 'a \<times> h3_store) \<Rightarrow> 'a run" where
  "with_store f = State (\<lambda>s. case f (r_store s) of (a, st) \<Rightarrow> (a, s\<lparr>r_store := st\<rparr>))"

definition set_hint :: "byte \<Rightarrow> unit run" where
  "set_hint p = modify_up (\<lambda>u. u\<lparr>protocol_hint := p\<rparr>)"

definition no_action :: "unit run" where "no_action = State_Monad.return ()"

subsection \<open>Back-off and rebuilding\<close>

definition h3_backoff_active :: "doh_env \<Rightarrow> bool run" where
  "h3_backoff_active env = do {
     now \<leftarrow> ask (de_now env);
     gets_up (\<lambda>u. now < h3_backoff_until_ms u) }"

definition clear_h3_failures :: "unit run" where
  "clear_h3_failures = modify_up (\<lambda>u. u\<lparr>h3_failures := 0, h3_last_failure_ms := 0, h3_backoff_until_ms := 0\<rparr>)"

definition reset_h3_failure_counter :: "unit run" where
  "reset_h3_failure_counter = modify_up (\<lambda>u. u\<lparr>h3_failures := 0, h3_last_failure_ms := 0\<rparr>)"

text \<open>What \<open>record_h3_failure\<close> does to the upstream at a given time, and whether the back-off starts.\<close>

definition record_h3_failure_at :: "u64 \<Rightarrow> DohUpstream \<Rightarrow> bool \<times> DohUpstream" where
  "record_h3_failure_at now u =
    (let last = h3_last_failure_ms u;
         window_ms = H3_FAILURE_WINDOW_SECS * 1000;
         threshold = H3_FAILURE_THRESHOLD;
         count = (if last = 0 \<or> saturating_sub_u64 now last > window_ms then 1 else h3_failures u + 1);
         u = u\<lparr>h3_failures := count, h3_last_failure_ms := now\<rparr>
     in if threshold \<le> count
        then (True, u\<lparr>h3_failures := 0, h3_backoff_until_ms := saturating_add_u64 now (H3_BACKOFF_SECS * 1000)\<rparr>)
        else (False, u))"

definition record_h3_failure :: "doh_env \<Rightarrow> bool run" where
  "record_h3_failure env = do {
     now \<leftarrow> ask (de_now env);
     backoff \<leftarrow> gets_up (\<lambda>u. fst (record_h3_failure_at now u));
     modify_up (\<lambda>u. snd (record_h3_failure_at now u));
     State_Monad.return backoff }"

text \<open>\<open>can_rebuild\<close> on the atomic with the given reader and writer; without interference its loop runs once.\<close>

definition can_rebuild ::
  "doh_env \<Rightarrow> (DohUpstream \<Rightarrow> u64) \<Rightarrow> (u64 \<Rightarrow> DohUpstream \<Rightarrow> DohUpstream) \<Rightarrow> bool run" where
  "can_rebuild env load store = do {
     now \<leftarrow> ask (de_now env);
     prev \<leftarrow> gets_up load;
     if prev \<noteq> 0 \<and> saturating_sub_u64 now prev < DOH_MIN_REBUILD_INTERVAL_MS then State_Monad.return False
     else do { modify_up (store now); State_Monad.return True } }"

definition reset_doh_h2_client :: "unit run" where
  "reset_doh_h2_client = modify_up (\<lambda>u. u\<lparr>h2_client := None, h2_target_addr := None\<rparr>)"

definition maybe_reset_doh_h2_client :: "doh_env \<Rightarrow> unit run" where
  "maybe_reset_doh_h2_client env = do {
     b \<leftarrow> can_rebuild env h2_last_rebuild_ms (\<lambda>now u. u\<lparr>h2_last_rebuild_ms := now\<rparr>);
     if b then reset_doh_h2_client else no_action }"

definition doh_h3_client_cache_key :: "DohUpstream \<Rightarrow> string" where
  "doh_h3_client_cache_key u = du_url u"

definition maybe_reset_doh_h3_client :: "doh_env \<Rightarrow> unit run" where
  "maybe_reset_doh_h3_client env = do {
     b \<leftarrow> can_rebuild env h3_last_rebuild_ms (\<lambda>now u. u\<lparr>h3_last_rebuild_ms := now\<rparr>);
     key \<leftarrow> gets_up doh_h3_client_cache_key;
     if b then with_store (\<lambda>st. ((), reset_doh_h3_client key st)) else no_action }"

subsection \<open>Addresses and probes\<close>

definition family_mismatch_error :: DoHError where
  "family_mismatch_error =
    Io (IoError AddrNotAvailableKind (Some StdOther) ''local bind address family mismatch'')"

fun resolve_loop :: "doh_env \<Rightarrow> SocketAddr list \<Rightarrow> io_error option \<Rightarrow> bool \<Rightarrow> (DoHError + SocketAddr) run" where
  "resolve_loop env [] last_err family_mismatch = State_Monad.return
     (case last_err of
        Some err \<Rightarrow> Inl (Io err)
      | None \<Rightarrow> if family_mismatch then Inl family_mismatch_error else Inl UpstreamIssue)"
| "resolve_loop env (addr # addrs) last_err family_mismatch =
    (case local_bind_for_peer (de_local env) addr of
       None \<Rightarrow> resolve_loop env addrs last_err True
     | Some bind_addr \<Rightarrow> do {
         bound \<leftarrow> ask (de_udp_bind env);
         case bound of
           Inl err \<Rightarrow> State_Monad.return (Inl (Io err))
         | Inr _ \<Rightarrow> do {
             connected \<leftarrow> ask (de_udp_connect env);
             case connected of
               Inr _ \<Rightarrow> State_Monad.return (Inr addr)
             | Inl err \<Rightarrow> resolve_loop env addrs (Some err) family_mismatch } })"

definition resolve_doh_addr :: "doh_env \<Rightarrow> (DoHError + SocketAddr) run" where
  "resolve_doh_addr env = do {
     resolved \<leftarrow> ask (de_resolve env);
     case resolved of
       Inl err \<Rightarrow> State_Monad.return (Inl err)
     | Inr addrs \<Rightarrow> resolve_loop env addrs None False }"

definition select_doh_protocol :: "doh_env \<Rightarrow> (DoHError + byte) run" where
  "select_doh_protocol env = do {
     backoff \<leftarrow> h3_backoff_active env;
     if backoff then State_Monad.return (Inr DOH_PROTO_H2)
     else do {
       peer_addr \<leftarrow> resolve_doh_addr env;
       case peer_addr of
         Inl _ \<Rightarrow> State_Monad.return (Inr DOH_PROTO_H2)
       | Inr _ \<Rightarrow> do {
           race \<leftarrow> ask (de_race env);
           State_Monad.return (Inr (case race of
               H3First ok \<Rightarrow> if ok then DOH_PROTO_H3 else DOH_PROTO_H2
             | TlsFirst ok \<Rightarrow> if ok then DOH_PROTO_H2 else DOH_PROTO_H3)) } } }"


subsection \<open>HTTP/2\<close>

definition use_bootstrap_for_upstream_host :: "doh_env \<Rightarrow> DohUpstream \<Rightarrow> bool" where
  "use_bootstrap_for_upstream_host env u \<longleftrightarrow> de_bootstrap_dns env \<noteq> [] \<and> parse_ip_addr (du_host u) = None"

text \<open>The target address, when the host is resolved by the bootstrap servers.\<close>

definition h2_target :: "doh_env \<Rightarrow> bool \<Rightarrow> (DoHError + SocketAddr option) run" where
  "h2_target env use_bootstrap =
    (if use_bootstrap then do {
       resolved \<leftarrow> ask (de_resolve env);
       State_Monad.return (case resolved of
           Inl err \<Rightarrow> Inl err
         | Inr addrs \<Rightarrow>
             (case List.find (\<lambda>addr. local_bind_for_peer (de_local env) addr \<noteq> None) addrs of
                None \<Rightarrow> Inl family_mismatch_error
              | Some addr \<Rightarrow> Inr (Some addr))) }
     else State_Monad.return (Inr None))"

text \<open>The connector and pool settings are calls into hyper; a new client is its number.\<close>

definition doh_h2_client :: "doh_env \<Rightarrow> (DoHError + nat) run" where
  "doh_h2_client env = do {
     cached \<leftarrow> gets_up h2_client;
     case cached of
       Some client \<Rightarrow> State_Monad.return (Inr client)
     | None \<Rightarrow> do {
         use_bootstrap \<leftarrow> gets_up (use_bootstrap_for_upstream_host env);
         target \<leftarrow> h2_target env use_bootstrap;
         case target of
           Inl err \<Rightarrow> State_Monad.return (Inl err)
         | Inr target_addr \<Rightarrow> do {
             roots \<leftarrow> ask (de_native_roots env);
             name_ok \<leftarrow> gets_up (\<lambda>u. de_server_name_ok env (du_host u));
             if \<not> roots \<or> (use_bootstrap \<and> \<not> name_ok) then State_Monad.return (Inl UpstreamIssue)
             else do {
               client \<leftarrow> ask (de_new_client env);
               modify_up (\<lambda>u. u\<lparr>h2_target_addr := target_addr, h2_client := Some client\<rparr>);
               State_Monad.return (Inr client) } } } }"

definition h2_uri :: "DohUpstream \<Rightarrow> string" where
  "h2_uri u =
    (let connect_authority = (case h2_target_addr u of
         Some addr \<Rightarrow> socket_addr_to_authority addr | None \<Rightarrow> du_authority u)
     in ''https://'' @ connect_authority @ du_path u)"

definition h2_response :: "HyperLegacyError + (nat \<times> (hyper_error + packet)) \<Rightarrow> H2Failure + packet" where
  "h2_response outcome =
    (case outcome of
       Inl err \<Rightarrow> Inl (h2f_from_hyper_legacy_error err)
     | Inr (status, body) \<Rightarrow>
         if status \<noteq> 200 then Inl \<lparr>h2f_err = UpstreamIssue, h2f_retryable = False\<rparr>
         else (case body of Inl err \<Rightarrow> Inl (h2f_from_hyper_error err) | Inr bytes \<Rightarrow> Inr bytes))"

definition doh_post_h2_once :: "doh_env \<Rightarrow> packet \<Rightarrow> (H2Failure + packet) run" where
  "doh_post_h2_once env query = do {
     client \<leftarrow> doh_h2_client env;
     case client of
       Inl err \<Rightarrow> State_Monad.return (Inl (h2f_from_doh_error err))
     | Inr _ \<Rightarrow> do {
         uri \<leftarrow> gets_up h2_uri;
         authority \<leftarrow> gets_up du_authority;
         if \<not> de_uri_ok env uri \<or> \<not> de_request_ok env uri authority
         then State_Monad.return (Inl \<lparr>h2f_err = InvalidData, h2f_retryable = False\<rparr>)
         else do {
           outcome \<leftarrow> ask (\<lambda>t. de_h2_request env t uri query);
           State_Monad.return (h2_response outcome) } } }"

text \<open>
  The retry loops. The last argument is the number of retries left, \<open>DOH_REQUEST_RETRY_LIMIT\<close> less
  \<open>retries\<close>.
\<close>

fun h2_retry_loop :: "doh_env \<Rightarrow> packet \<Rightarrow> bool \<Rightarrow> nat \<Rightarrow> (DoHError + packet) run" where
  "h2_retry_loop env query had_cached_client left = do {
     result \<leftarrow> doh_post_h2_once env query;
     case result of
       Inr packet \<Rightarrow> State_Monad.return (Inr packet)
     | Inl failure \<Rightarrow>
         (case (had_cached_client \<and> h2f_retryable failure, left) of
            (True, Suc left) \<Rightarrow> do {
              _ \<leftarrow> maybe_reset_doh_h2_client env;
              h2_retry_loop env query had_cached_client left }
          | _ \<Rightarrow> do {
              _ \<leftarrow> if h2f_retryable failure then maybe_reset_doh_h2_client env else no_action;
              State_Monad.return (Inl (h2f_err failure)) }) }"

definition doh_post_h2_with_retries :: "doh_env \<Rightarrow> packet \<Rightarrow> (DoHError + packet) run" where
  "doh_post_h2_with_retries env query = do {
     cached \<leftarrow> gets_up h2_client;
     h2_retry_loop env query (cached \<noteq> None) DOH_REQUEST_RETRY_LIMIT }"

subsection \<open>HTTP/3\<close>

definition create_doh_h3_client ::
  "SocketAddr \<Rightarrow> DoHError + SocketAddr \<Rightarrow> io_error + unit \<Rightarrow> io_error + unit \<Rightarrow> std_error + unit \<Rightarrow> H3Failure + unit" where
  "create_doh_h3_client local resolved bound connected quic =
    (case resolved of
       Inl err \<Rightarrow> Inl (h3f_from_doh_error err)
     | Inr peer_addr \<Rightarrow>
         (case local_bind_for_peer local peer_addr of
            None \<Rightarrow> Inl (h3f_from_io (IoError AddrNotAvailableKind (Some StdOther) ''local bind address family mismatch''))
          | Some _ \<Rightarrow>
              (case bound of
                 Inl err \<Rightarrow> Inl (h3f_from_io err)
               | Inr _ \<Rightarrow>
                   (case connected of
                      Inl err \<Rightarrow> Inl (h3f_from_io err)
                    | Inr _ \<Rightarrow>
                        (case quic of Inl err \<Rightarrow> Inl (h3f_from_boxed_sync err) | Inr _ \<Rightarrow> Inr ())))))"

text \<open>
  What a connection attempt during this request meets, and what the other tasks do to the pools
  meanwhile. Attempts resolve the address afresh.
\<close>

definition h3_world_of :: "doh_env \<Rightarrow> nat \<Rightarrow> doh_run \<Rightarrow> h3_world" where
  "h3_world_of env t s =
    \<lparr>hw_create = (\<lambda>k. create_doh_h3_client (de_local env) (fst (run_state (resolve_doh_addr env) (s\<lparr>r_tick := t + 2 * k\<rparr>)))
        (de_udp_bind env (t + 2 * k + 1)) (de_udp_connect env (t + 2 * k + 1)) (de_quic_connect env (t + k))),
     hw_others = de_others env t\<rparr>"

text \<open>The permit of a request is dropped when the request ends; the other tasks work meanwhile.\<close>

definition doh_post_h3_once :: "doh_env \<Rightarrow> packet \<Rightarrow> h3_result run" where
  "doh_post_h3_once env query = do {
     s \<leftarrow> State_Monad.get;
     key \<leftarrow> gets_up doh_h3_client_cache_key;
     t \<leftarrow> ask (\<lambda>t. t);
     client \<leftarrow> with_store (doh_h3_client (h3_world_of env t s) key);
     case client of
       Inl failure \<Rightarrow> State_Monad.return (Inl failure)
     | Inr client \<Rightarrow> do {
         result \<leftarrow> ask (\<lambda>t. de_h3_request env t client query);
         _ \<leftarrow> with_store (\<lambda>st. ((), release_slot client (de_others env t 10 st)));
         State_Monad.return result } }"

fun h3_retry_loop :: "doh_env \<Rightarrow> packet \<Rightarrow> bool \<Rightarrow> nat \<Rightarrow> h3_result run" where
  "h3_retry_loop env query had_cached_client left = do {
     result \<leftarrow> doh_post_h3_once env query;
     case result of
       Inr packet \<Rightarrow> State_Monad.return (Inr packet)
     | Inl failure \<Rightarrow>
         (case (had_cached_client \<and> h3f_retryable failure, left) of
            (True, Suc left) \<Rightarrow> do {
              _ \<leftarrow> maybe_reset_doh_h3_client env;
              h3_retry_loop env query had_cached_client left }
          | _ \<Rightarrow> do {
              _ \<leftarrow> if h3f_retryable failure then maybe_reset_doh_h3_client env else no_action;
              State_Monad.return (Inl failure) }) }"

definition doh_post_h3_with_retries :: "doh_env \<Rightarrow> packet \<Rightarrow> h3_result run" where
  "doh_post_h3_with_retries env query = do {
     s \<leftarrow> State_Monad.get;
     h3_retry_loop env query (doh_h3_client_cached (doh_h3_client_cache_key (r_up s)) (r_store s))
       DOH_REQUEST_RETRY_LIMIT }"

subsection \<open>One request\<close>

definition is_retryable_h3_failure :: "H3Failure \<Rightarrow> bool" where
  "is_retryable_h3_failure failure = h3f_retryable failure"

definition doh_h3_error_to_doh_error :: "H3Failure \<Rightarrow> DoHError" where
  "doh_h3_error_to_doh_error failure = h3f_err failure"

text \<open>The protocol of this request: the remembered one, or the outcome of a probe.\<close>

definition choose_protocol :: "doh_env \<Rightarrow> (DoHError + byte) run" where
  "choose_protocol env = do {
     hint \<leftarrow> gets_up protocol_hint;
     protocol \<leftarrow> if hint = DOH_PROTO_H3 then do {
         backoff \<leftarrow> h3_backoff_active env;
         State_Monad.return (if backoff then DOH_PROTO_H2 else hint) }
       else State_Monad.return hint;
     if protocol = DOH_PROTO_UNKNOWN then do {
       selected \<leftarrow> select_doh_protocol env;
       case selected of
         Inl err \<Rightarrow> State_Monad.return (Inl err)
       | Inr protocol \<Rightarrow> do {
           backoff \<leftarrow> if protocol = DOH_PROTO_H2 then h3_backoff_active env else State_Monad.return False;
           _ \<leftarrow> if \<not> (protocol = DOH_PROTO_H2 \<and> backoff) then set_hint protocol else no_action;
           State_Monad.return (Inr protocol) } }
     else State_Monad.return (Inr protocol) }"

definition after_h3_failure :: "doh_env \<Rightarrow> H3Failure \<Rightarrow> unit run" where
  "after_h3_failure env failure =
    (if h3f_retryable failure then do {
       h3_backoff \<leftarrow> record_h3_failure env;
       let reset_hint = is_retryable_h3_failure failure \<or> h3_backoff in
       if reset_hint then set_hint DOH_PROTO_UNKNOWN else no_action }
     else do {
       _ \<leftarrow> reset_h3_failure_counter;
       set_hint DOH_PROTO_H2 })"

definition proxy_doh_attempt :: "doh_env \<Rightarrow> packet \<Rightarrow> (DoHError + packet) run" where
  "proxy_doh_attempt env query = do {
     h3_only \<leftarrow> gets_up du_h3_only;
     if h3_only then do {
       result \<leftarrow> doh_post_h3_with_retries env query;
       State_Monad.return (case result of Inl failure \<Rightarrow> Inl (doh_h3_error_to_doh_error failure) | Inr p \<Rightarrow> Inr p) }
     else do {
       chosen \<leftarrow> choose_protocol env;
       case chosen of
         Inl err \<Rightarrow> State_Monad.return (Inl err)
       | Inr protocol \<Rightarrow>
           if protocol = DOH_PROTO_H3 then do {
             result \<leftarrow> doh_post_h3_with_retries env query;
             case result of
               Inr packet \<Rightarrow> do { _ \<leftarrow> clear_h3_failures; State_Monad.return (Inr packet) }
             | Inl failure \<Rightarrow> do {
                 _ \<leftarrow> after_h3_failure env failure;
                 doh_post_h2_with_retries env query } }
           else doh_post_h2_with_retries env query } }"

text \<open>The time limit: a stopped request rebuilds its clients and forgets the protocol.\<close>

definition after_timeout :: "doh_env \<Rightarrow> (DoHError + packet) run" where
  "after_timeout env = do {
     _ \<leftarrow> maybe_reset_doh_h2_client env;
     _ \<leftarrow> maybe_reset_doh_h3_client env;
     h3_only \<leftarrow> gets_up du_h3_only;
     _ \<leftarrow> if \<not> h3_only then set_hint DOH_PROTO_UNKNOWN else no_action;
     State_Monad.return (Inl UpstreamTimeout) }"

definition proxy_doh :: "doh_env \<Rightarrow> packet \<Rightarrow> (DoHError + packet) run" where
  "proxy_doh env query = do {
     s \<leftarrow> State_Monad.get;
     case (if de_timeout env = 0 then None else de_cancelled env s) of
       None \<Rightarrow> proxy_doh_attempt env query
     | Some stopped \<Rightarrow> do { _ \<leftarrow> State_Monad.set stopped; after_timeout env } }"

subsection \<open>Running a request\<close>

lemma run_basics [simp]:
  "run_state (ask f) s = (f (r_tick s), s\<lparr>r_tick := r_tick s + 1\<rparr>)"
  "run_state (gets_up g) s = (g (r_up s), s)"
  "run_state (modify_up h) s = ((), s\<lparr>r_up := h (r_up s)\<rparr>)"
  "run_state (with_store k) s = (case k (r_store s) of (a, st) \<Rightarrow> (a, s\<lparr>r_store := st\<rparr>))"
  "run_state (set_hint p) s = ((), s\<lparr>r_up := (r_up s)\<lparr>protocol_hint := p\<rparr>\<rparr>)"
  "run_state no_action s = ((), s)"
  by (simp_all add: ask_def gets_up_def modify_up_def with_store_def set_hint_def no_action_def)

lemma run_backoff [simp]:
  "run_state (h3_backoff_active env) s =
     (de_now env (r_tick s) < h3_backoff_until_ms (r_up s), s\<lparr>r_tick := r_tick s + 1\<rparr>)"
  by (simp add: h3_backoff_active_def)

subsection \<open>HTTP/2 answers\<close>

text \<open>
  Where an HTTP/2 request of an upstream goes: to the target of the client that is cached, else to an
  address that the bootstrap servers give for its host, else to its own authority.
\<close>

definition h2_targets :: "doh_env \<Rightarrow> DohUpstream \<Rightarrow> SocketAddr option set" where
  "h2_targets env u =
    (if h2_client u \<noteq> None then {h2_target_addr u}
     else if use_bootstrap_for_upstream_host env u
       then {Some addr | addr. (\<exists>t addrs. de_resolve env t = Inr addrs \<and> addr \<in> set addrs)
               \<and> local_bind_for_peer (de_local env) addr \<noteq> None}
     else {None})"

text \<open>
  The upstream can be reached over HTTP/2: a client for it can be built when none is cached, the URI
  that leads to it is one, and it answers the query there with a body and status 200, at every time.
\<close>

definition h2_available :: "doh_env \<Rightarrow> DohUpstream \<Rightarrow> packet \<Rightarrow> bool" where
  "h2_available env u query \<longleftrightarrow>
     (h2_client u = None \<longrightarrow> (\<forall>t. de_native_roots env t))
   \<and> (h2_client u = None \<and> use_bootstrap_for_upstream_host env u \<longrightarrow> de_server_name_ok env (du_host u)
        \<and> (\<forall>t. \<exists>addrs. de_resolve env t = Inr addrs \<and> (\<exists>addr \<in> set addrs. local_bind_for_peer (de_local env) addr \<noteq> None)))
   \<and> (\<forall>target \<in> h2_targets env u. let uri = h2_uri (u\<lparr>h2_target_addr := target\<rparr>) in
        de_uri_ok env uri \<and> de_request_ok env uri (du_authority u)
      \<and> (\<forall>t. \<exists>p. de_h2_request env t uri query = Inr (200, Inr p)))"

text \<open>What an HTTP/2 request depends on; the attempts over HTTP/3 leave it alone.\<close>

definition same_h2 :: "DohUpstream \<Rightarrow> DohUpstream \<Rightarrow> bool" where
  "same_h2 u u' \<longleftrightarrow> du_host u' = du_host u \<and> du_path u' = du_path u \<and> du_authority u' = du_authority u
     \<and> h2_client u' = h2_client u \<and> h2_target_addr u' = h2_target_addr u"

lemma h2_available_same:
  assumes "h2_available env u query" "same_h2 u u'"
  shows "h2_available env u' query"
proof -
  have uri: "h2_uri (u'\<lparr>h2_target_addr := target\<rparr>) = h2_uri (u\<lparr>h2_target_addr := target\<rparr>)" for target
    using assms(2) by (simp add: h2_uri_def same_h2_def split: option.split)
  have host: "use_bootstrap_for_upstream_host env u' = use_bootstrap_for_upstream_host env u"
    "h2_targets env u' = h2_targets env u" "h2_client u' = h2_client u" "du_host u' = du_host u"
    "du_authority u' = du_authority u"
    using assms(2) by (simp_all add: use_bootstrap_for_upstream_host_def h2_targets_def same_h2_def)
  show ?thesis using assms(1) by (simp only: h2_available_def uri host)
qed

definition keeps_h2 :: "'a run \<Rightarrow> bool" where
  "keeps_h2 m \<longleftrightarrow> (\<forall>s. same_h2 (r_up s) (r_up (snd (run_state m s))))"

lemma keeps_h2D: "keeps_h2 m \<Longrightarrow> run_state m s = (a, s') \<Longrightarrow> same_h2 (r_up s) (r_up s')"
  unfolding keeps_h2_def by (metis snd_conv)

lemma same_h2_trans: "same_h2 u v \<Longrightarrow> same_h2 v w \<Longrightarrow> same_h2 u w"
  by (simp add: same_h2_def)

lemma keeps_h2_bind [intro!]: "keeps_h2 m \<Longrightarrow> (\<And>a. keeps_h2 (f a)) \<Longrightarrow> keeps_h2 (State_Monad.bind m f)"
  unfolding keeps_h2_def by (auto intro: same_h2_trans split: prod.split)

lemma keeps_h2_basics [simp, intro!]:
  "keeps_h2 (ask f)" "keeps_h2 (gets_up g)" "keeps_h2 (with_store k)" "keeps_h2 (set_hint p)" "keeps_h2 no_action"
  "keeps_h2 (State_Monad.return a)" "keeps_h2 State_Monad.get"
  by (simp_all add: keeps_h2_def same_h2_def split: prod.split)

lemma keeps_h2_modify [intro!]: "(\<And>u. same_h2 u (h u)) \<Longrightarrow> keeps_h2 (modify_up h)"
  by (simp add: keeps_h2_def)

lemma h2_target_Inr:
  assumes "h2_available env u query" "h2_client u = None"
  shows "\<exists>target s'. run_state (h2_target env (use_bootstrap_for_upstream_host env u)) s = (Inr target, s')
    \<and> r_up s' = r_up s \<and> target \<in> h2_targets env u"
proof (cases "use_bootstrap_for_upstream_host env u")
  case True
  let ?ok = "\<lambda>addr. local_bind_for_peer (de_local env) addr \<noteq> None"
  obtain addrs where a: "de_resolve env (r_tick s) = Inr addrs" "\<exists>addr \<in> set addrs. ?ok addr"
    using assms True unfolding h2_available_def by blast
  then obtain addr where f: "List.find ?ok addrs = Some addr" by (cases "List.find ?ok addrs") (auto simp: find_None_iff)
  then have "addr \<in> set addrs" "?ok addr" by (auto simp: find_Some_iff)
  with True assms(2) a(1) f show ?thesis by (auto simp: h2_target_def h2_targets_def)
qed (use assms(2) in \<open>simp add: h2_target_def h2_targets_def\<close>)

lemma doh_h2_client_Inr:
  assumes "h2_available env (r_up s) query"
  shows "\<exists>client s'. run_state (doh_h2_client env) s = (Inr client, s')
    \<and> (\<exists>target \<in> h2_targets env (r_up s). h2_uri (r_up s') = h2_uri ((r_up s)\<lparr>h2_target_addr := target\<rparr>))
    \<and> du_authority (r_up s') = du_authority (r_up s)"
proof (cases "h2_client (r_up s)")
  case None
  have avail: "de_native_roots env t"
    "use_bootstrap_for_upstream_host env (r_up s) \<Longrightarrow> de_server_name_ok env (du_host (r_up s))" for t
    using assms None unfolding h2_available_def by blast+
  obtain target s' where "run_state (h2_target env (use_bootstrap_for_upstream_host env (r_up s))) s = (Inr target, s')"
    "r_up s' = r_up s" "target \<in> h2_targets env (r_up s)"
    using h2_target_Inr [OF assms None] by blast
  with None avail show ?thesis by (auto simp: doh_h2_client_def h2_uri_def intro!: bexI [of _ target] split: option.split)
qed (auto simp: doh_h2_client_def h2_targets_def h2_uri_def)

lemma doh_post_h2_once_Inr:
  assumes "h2_available env (r_up s) query"
  shows "\<exists>p s'. run_state (doh_post_h2_once env query) s = (Inr p, s')"
proof -
  obtain client s1 target where c: "run_state (doh_h2_client env) s = (Inr client, s1)"
    and t: "target \<in> h2_targets env (r_up s)" "h2_uri (r_up s1) = h2_uri ((r_up s)\<lparr>h2_target_addr := target\<rparr>)"
    "du_authority (r_up s1) = du_authority (r_up s)"
    using doh_h2_client_Inr [OF assms] by blast
  have ok: "de_uri_ok env (h2_uri (r_up s1))" "de_request_ok env (h2_uri (r_up s1)) (du_authority (r_up s1))"
    "\<exists>p. de_h2_request env (r_tick s1) (h2_uri (r_up s1)) query = Inr (200, Inr p)"
    using assms t unfolding h2_available_def by (simp_all add: Let_def)
  with c show ?thesis by (auto simp: doh_post_h2_once_def h2_response_def)
qed

lemma doh_post_h2_with_retries_Inr:
  assumes "h2_available env (r_up s) query"
  shows "\<exists>p s'. run_state (doh_post_h2_with_retries env query) s = (Inr p, s')"
proof -
  obtain p s' where "run_state (doh_post_h2_once env query) s = (Inr p, s')"
    using doh_post_h2_once_Inr [OF assms] by blast
  then show ?thesis by (simp add: doh_post_h2_with_retries_def h2_retry_loop.simps)
qed

subsection \<open>Choosing the protocol\<close>

lemma select_doh_protocol_Inr: "\<exists>proto s'. run_state (select_doh_protocol env) s = (Inr proto, s')"
proof (cases "de_now env (r_tick s) < h3_backoff_until_ms (r_up s)")
  case False
  obtain r s1 where "run_state (resolve_doh_addr env) (s\<lparr>r_tick := r_tick s + 1\<rparr>) = (r, s1)" by fastforce
  with False show ?thesis by (cases r) (simp_all add: select_doh_protocol_def)
qed (simp add: select_doh_protocol_def)

lemma choose_protocol_Inr: "\<exists>proto s'. run_state (choose_protocol env) s = (Inr proto, s')"
proof -
  define start where "start = (if protocol_hint (r_up s) = DOH_PROTO_H3
      then (if de_now env (r_tick s) < h3_backoff_until_ms (r_up s) then DOH_PROTO_H2 else DOH_PROTO_H3,
            s\<lparr>r_tick := r_tick s + 1\<rparr>)
      else (protocol_hint (r_up s), s))"
  obtain proto s1 where "run_state (select_doh_protocol env) (snd start) = (Inr proto, s1)"
    using select_doh_protocol_Inr by blast
  then show ?thesis
    by (auto simp: choose_protocol_def start_def proto_defs split: if_splits)
qed

subsection \<open>HTTP/3 leaves the HTTP/2 client alone\<close>

lemma resolve_loop_keeps: "keeps_h2 (resolve_loop env addrs last_err family_mismatch)"
  by (induction env addrs last_err family_mismatch rule: resolve_loop.induct)
    (auto split: option.split sum.split)

lemma resolve_doh_addr_keeps [intro!]: "keeps_h2 (resolve_doh_addr env)"
  by (auto simp: resolve_doh_addr_def resolve_loop_keeps split: sum.split)

lemma h3_backoff_active_keeps [intro!]: "keeps_h2 (h3_backoff_active env)"
  by (auto simp: h3_backoff_active_def)

lemma choose_protocol_keeps: "keeps_h2 (choose_protocol env)"
  by (auto simp: choose_protocol_def select_doh_protocol_def split: sum.split)

lemma maybe_reset_doh_h3_client_keeps [intro!]: "keeps_h2 (maybe_reset_doh_h3_client env)"
  by (auto simp: maybe_reset_doh_h3_client_def can_rebuild_def same_h2_def)

lemma doh_post_h3_once_keeps: "keeps_h2 (doh_post_h3_once env query)"
  by (auto simp: doh_post_h3_once_def split: sum.split)

lemma h3_retry_loop_keeps: "keeps_h2 (h3_retry_loop env query had_cached_client left)"
  by (induction left; subst h3_retry_loop.simps)
    (auto simp: doh_post_h3_once_keeps simp del: h3_retry_loop.simps split: sum.split bool.split)

lemma doh_post_h3_with_retries_keeps: "keeps_h2 (doh_post_h3_with_retries env query)"
  by (auto simp: doh_post_h3_with_retries_def h3_retry_loop_keeps simp del: h3_retry_loop.simps)

lemma after_h3_failure_keeps: "keeps_h2 (after_h3_failure env failure)"
  by (auto simp: after_h3_failure_def record_h3_failure_def record_h3_failure_at_def reset_h3_failure_counter_def
      same_h2_def Let_def)

text \<open>While the back-off lasts, the protocol is HTTP/2 and nothing but the clock is consulted.\<close>

lemma choose_protocol_backoff:
  assumes "\<And>t. de_now env t < h3_backoff_until_ms (r_up s)"
  shows "\<exists>proto k. run_state (choose_protocol env) s = (Inr proto, s\<lparr>r_tick := r_tick s + k\<rparr>)
    \<and> proto \<noteq> DOH_PROTO_H3 \<and> k \<le> 2"
proof -
  consider "protocol_hint (r_up s) = DOH_PROTO_H3" | "protocol_hint (r_up s) = DOH_PROTO_UNKNOWN"
    | "protocol_hint (r_up s) \<noteq> DOH_PROTO_H3" "protocol_hint (r_up s) \<noteq> DOH_PROTO_UNKNOWN" by blast
  then show ?thesis
  proof cases
    case 1
    then show ?thesis using assms
      by (intro exI [of _ DOH_PROTO_H2] exI [of _ 1]) (simp add: choose_protocol_def proto_defs)
  next
    case 2
    then show ?thesis using assms
      by (intro exI [of _ DOH_PROTO_H2] exI [of _ 2])
        (simp add: choose_protocol_def select_doh_protocol_def proto_defs)
  next
    case 3
    then show ?thesis
      by (intro exI [of _ "protocol_hint (r_up s)"] exI [of _ 0]) (simp add: choose_protocol_def)
  qed
qed

lemma proxy_doh_backoff:
  assumes "\<not> du_h3_only (r_up s)" "\<And>t. de_now env t < h3_backoff_until_ms (r_up s)"
  shows "\<exists>k \<le> 2. run_state (proxy_doh_attempt env query) s
    = run_state (doh_post_h2_with_retries env query) (s\<lparr>r_tick := r_tick s + k\<rparr>)"
proof -
  obtain proto k where c: "run_state (choose_protocol env) s = (Inr proto, s\<lparr>r_tick := r_tick s + k\<rparr>)"
    "proto \<noteq> DOH_PROTO_H3" "k \<le> 2" using choose_protocol_backoff [OF assms(2)] by blast
  then show ?thesis using assms(1) by (intro exI [of _ k]) (simp add: proxy_doh_attempt_def)
qed

lemma proxy_doh_available:
  assumes "h2_available env (r_up s) query" "\<not> du_h3_only (r_up s)"
  shows "\<exists>p s'. run_state (proxy_doh_attempt env query) s = (Inr p, s')"
proof -
  obtain proto s1 where c: "run_state (choose_protocol env) s = (Inr proto, s1)"
    using choose_protocol_Inr by blast
  have s1: "same_h2 (r_up s) (r_up s1)" by (rule keeps_h2D [OF choose_protocol_keeps c])
  show ?thesis
  proof (cases "proto = DOH_PROTO_H3")
    case False
    with c assms(2) doh_post_h2_with_retries_Inr [OF h2_available_same [OF assms(1) s1]] show ?thesis
      by (simp add: proxy_doh_attempt_def)
  next
    case True
    obtain r s2 where h3: "run_state (doh_post_h3_with_retries env query) s1 = (r, s2)" by fastforce
    have s2: "same_h2 (r_up s) (r_up s2)"
      by (rule same_h2_trans [OF s1 keeps_h2D [OF doh_post_h3_with_retries_keeps h3]])
    show ?thesis
    proof (cases r)
      case (Inr p)
      with c True h3 assms(2) show ?thesis by (simp add: proxy_doh_attempt_def clear_h3_failures_def)
    next
      case (Inl failure)
      obtain s3 where f: "run_state (after_h3_failure env failure) s2 = ((), s3)"
        by (cases "run_state (after_h3_failure env failure) s2") auto
      have "same_h2 (r_up s) (r_up s3)" by (rule same_h2_trans [OF s2 keeps_h2D [OF after_h3_failure_keeps f]])
      with f Inl c True h3 assms doh_post_h2_with_retries_Inr [OF h2_available_same] show ?thesis
        by (auto simp: proxy_doh_attempt_def)
    qed
  qed
qed

subsection \<open>Counting failures\<close>

lemma record_h3_failure_below:
  "h3_failures u < H3_FAILURE_THRESHOLD \<Longrightarrow> h3_failures (snd (record_h3_failure_at now u)) < H3_FAILURE_THRESHOLD"
  by (auto simp: record_h3_failure_at_def H3_FAILURE_THRESHOLD_def Let_def not_le)


lemma record_h3_failure_first:
  "h3_last_failure_ms u = 0 \<Longrightarrow> record_h3_failure_at t u = (False, u\<lparr>h3_failures := 1, h3_last_failure_ms := t\<rparr>)"
  by (simp add: record_h3_failure_at_def H3_FAILURE_THRESHOLD_def Let_def word_le_nat_alt)

lemma record_h3_failure_next:
  assumes "h3_last_failure_ms u = t" "t \<noteq> 0" "saturating_sub_u64 t' t \<le> H3_FAILURE_WINDOW_SECS * 1000"
  shows "record_h3_failure_at t' u =
    (if h3_failures u + 1 < H3_FAILURE_THRESHOLD
     then (False, u\<lparr>h3_failures := h3_failures u + 1, h3_last_failure_ms := t'\<rparr>)
     else (True, u\<lparr>h3_failures := 0, h3_last_failure_ms := t',
       h3_backoff_until_ms := saturating_add_u64 t' (H3_BACKOFF_SECS * 1000)\<rparr>))"
  using assms by (auto simp: record_h3_failure_at_def Let_def not_le not_less)

text \<open>The failures at the given times, one after the other: which of them started the back-off.\<close>

fun record_failures :: "u64 list \<Rightarrow> DohUpstream \<Rightarrow> bool list \<times> DohUpstream" where
  "record_failures [] u = ([], u)"
| "record_failures (t # ts) u =
    (case record_h3_failure_at t u of (b, u) \<Rightarrow>
     case record_failures ts u of (bs, u) \<Rightarrow> (b # bs, u))"

subsection \<open>Properties of a request\<close>

text \<open>
  C28 (liveness): whatever happens over HTTP/3 (probes, connections, requests, other tasks on the
  pools) and whatever protocol is remembered, a request to an upstream that is not restricted to
  HTTP/3 yields a packet, unless the time limit stops it, when this upstream can be reached over HTTP/2:
  a client for its host can be built or is cached, and at its own URI it answers the query with status 200.
\<close>

theorem http2_rescues_request:
  assumes "h2_available env (r_up s) query" "\<not> du_h3_only (r_up s)"
  shows "\<exists>p s'. run_state (proxy_doh_attempt env query) s = (Inr p, s')"
  using assms by (rule proxy_doh_available)

definition sample_upstream :: DohUpstream where
  "sample_upstream = \<lparr>du_url = ''https://dns.example/dns-query'', du_host = ''dns.example'', du_port = 443,
     du_path = ''/dns-query'', du_authority = ''dns.example'', du_h3_only = False, protocol_hint = 2,
     h3_failures = 0, h3_last_failure_ms = 0, h3_backoff_until_ms = 0, h2_last_rebuild_ms = 0,
     h3_last_rebuild_ms = 0, h2_client = None, h2_target_addr = None\<rparr>"

text \<open>HTTP/3 connections fail, HTTP/2 requests to the URI of the upstream are echoed.\<close>

definition sample_doh_env :: doh_env where
  "sample_doh_env = \<lparr>de_now = (\<lambda>t. 1000 + of_nat t), de_local = SocketV4 (Octets4 0 0 0 0) 0, de_bootstrap_dns = [],
     de_timeout = 0, de_resolve = (\<lambda>_. Inr [SocketV4 (Octets4 192 0 2 7) 443]), de_udp_bind = (\<lambda>_. Inr ()),
     de_udp_connect = (\<lambda>_. Inr ()), de_race = (\<lambda>_. H3First True), de_native_roots = (\<lambda>_. True),
     de_server_name_ok = (\<lambda>host. host = ''dns.example''), de_new_client = id,
     de_uri_ok = (\<lambda>uri. uri = ''https://dns.example/dns-query''),
     de_request_ok = (\<lambda>uri authority. uri = ''https://dns.example/dns-query'' \<and> authority = ''dns.example''),
     de_h2_request = (\<lambda>_ uri query. if uri = ''https://dns.example/dns-query'' then Inr (200, Inr query) else Inr (404, Inr [])), de_quic_connect = (\<lambda>_. Inl StdHandshake),
     de_others = (\<lambda>_ _ st. st), de_h3_request = (\<lambda>_ _ _. Inl (h3f_retry UpstreamIssue)), de_cancelled = (\<lambda>_. None)\<rparr>"

lemma sample_available: "h2_available sample_doh_env sample_upstream query"
  by (simp add: h2_available_def sample_doh_env_def sample_upstream_def h2_targets_def use_bootstrap_for_upstream_host_def
      h2_uri_def)

theorem http2_rescues_request_witness:
  "\<exists>p s'. run_state (proxy_doh_attempt sample_doh_env [1, 2, 3])
     \<lparr>r_up = sample_upstream, r_store = empty_store, r_tick = 0\<rparr> = (Inr p, s')"
  by (rule http2_rescues_request) (simp_all add: sample_available, simp add: sample_upstream_def)

text \<open>
  while the back-off lasts (on every reading of the clock), a request to an upstream
  that is not restricted to HTTP/3 is exactly an HTTP/2 request, started after at most two more
  readings of the clock: no probe, no HTTP/3 attempt, and the remembered protocol stays.
\<close>

lemma backoff_uses_http2_only:
  assumes "\<not> du_h3_only (r_up s)" "\<And>t. de_now env t < h3_backoff_until_ms (r_up s)"
  shows "\<exists>k \<le> 2. run_state (proxy_doh_attempt env query) s
    = run_state (doh_post_h2_with_retries env query) (s\<lparr>r_tick := r_tick s + k\<rparr>)"
  using assms by (rule proxy_doh_backoff)

text \<open>
  from a clean record, the third of three failures no more than the window apart
  starts the back-off, the first two do not; the back-off ends at the saturated sum of the time of
  the third failure and the back-off length, and counting starts again.
\<close>

lemma third_failure_starts_backoff:
  assumes "h3_last_failure_ms u = 0" "t1 \<noteq> 0" "t2 \<noteq> 0"
    and "saturating_sub_u64 t2 t1 \<le> H3_FAILURE_WINDOW_SECS * 1000"
    and "saturating_sub_u64 t3 t2 \<le> H3_FAILURE_WINDOW_SECS * 1000"
  shows "record_failures [t1, t2, t3] u = ([False, False, True],
    u\<lparr>h3_failures := 0, h3_last_failure_ms := t3,
      h3_backoff_until_ms := saturating_add_u64 t3 (H3_BACKOFF_SECS * 1000)\<rparr>)"
proof -
  let ?u1 = "u\<lparr>h3_failures := 1, h3_last_failure_ms := t1\<rparr>"
  let ?u2 = "u\<lparr>h3_failures := 2, h3_last_failure_ms := t2\<rparr>"
  have "record_h3_failure_at t2 ?u1 = (False, ?u2)"
    using record_h3_failure_next [of ?u1 t1 t2] assms(2,4) by (simp add: H3_FAILURE_THRESHOLD_def)
  moreover have "record_h3_failure_at t3 ?u2 = (True, u\<lparr>h3_failures := 0, h3_last_failure_ms := t3,
      h3_backoff_until_ms := saturating_add_u64 t3 (H3_BACKOFF_SECS * 1000)\<rparr>)"
    using record_h3_failure_next [of ?u2 t2 t3] assms(3,5) by (simp add: H3_FAILURE_THRESHOLD_def)
  ultimately show ?thesis using record_h3_failure_first [OF assms(1), of t1] by simp
qed

end
