(* ===== verification/Proxy.thy ===== *)
theory Proxy
  imports Fastest_Addr Edns_Ecs
begin

text \<open>
  The path of a query through the server (\<open>_proxy\<close>, \<open>run_with_timeout\<close>, \<open>proxy_dns_udp_tcp\<close> and
  \<open>dns_exchange_over_stream\<close> in \<open>src/libdoh/src/lib.rs\<close>, \<open>exchange\<close> and \<open>exchange_single\<close> in
  \<open>src/libdoh/src/upstream/mod.rs\<close>): the query is given an OPT record and a client subnet, the
  configured strategy asks the upstreams, and the answer is checked, dated and padded.

  The settings are the fields of \<open>Globals\<close> that the code reads. The environment of the strategies
  is that of \<open>Fastest_Addr\<close>; an exchange returns it with the statistics and the address cache it
  leaves behind.

  The lemmas show that the path never panics unless a client subnet is added to a query that does
  not decode, what the upstreams are sent, and where the answer and its time to live come from.
\<close>

definition MAX_DNS_QUESTION_LEN :: nat where "MAX_DNS_QUESTION_LEN = 512"
definition MAX_DNS_RESPONSE_LEN :: nat where "MAX_DNS_RESPONSE_LEN = 4096"
definition MIN_DNS_PACKET_LEN :: nat where "MIN_DNS_PACKET_LEN = 17"
definition UDP_TCP_RATIO :: nat where "UDP_TCP_RATIO = 8"

subsection \<open>Settings\<close>

datatype UpstreamMode = LoadBalance | Parallel | FastestAddr

definition upstream_mode_from_str :: "string \<Rightarrow> UpstreamMode option" where
  "upstream_mode_from_str v =
    (if v = ''load_balance'' then Some LoadBalance
     else if v = ''parallel'' then Some Parallel
     else if v = ''fastest_addr'' then Some FastestAddr
     else None)"

record 'u Globals =
  g_upstreams :: "'u list"
  g_upstream_mode :: UpstreamMode
  g_path :: string
  g_max_clients :: nat
  g_timeout :: duration
  g_min_ttl :: u32
  g_max_ttl :: u32
  g_err_ttl :: u32
  g_disable_post :: bool
  g_allow_odoh_post :: bool
  g_enable_ecs :: bool
  g_ecs_prefix_v4 :: byte
  g_ecs_prefix_v6 :: byte
  g_odoh_configs_path :: string

subsection \<open>The strategies\<close>

definition exchange ::
  "UpstreamMode \<Rightarrow> ('u, 'f, 'z) fastest_env_scheme \<Rightarrow> packet \<Rightarrow> 'u list
    \<Rightarrow> (unit, ExchangeOutcome \<times> ('u, 'f, 'z) fastest_env_scheme) res" where
  "exchange mode env query upstreams =
    (if upstreams = [] then
       Ok (\<lparr>o_packet = Inl UpstreamIssue, o_query_stats = \<lparr>qs_main = [], qs_fallback = []\<rparr>\<rparr>, env)
     else
       let load_balance = rbind (exchange_load_balance env query upstreams) (\<lambda>(out, rtt). Ok (out, env\<lparr>ex_rtt := rtt\<rparr>))
       in case mode of
         Parallel \<Rightarrow> rbind (exchange_parallel env query upstreams) (\<lambda>out. Ok (out, env))
       | FastestAddr \<Rightarrow>
           rbind (query_qtype query) (\<lambda>qtype.
           if qtype = Some RR_A \<or> qtype = Some RR_AAAA
           then rbind (exchange_fastest_addr env query upstreams) (\<lambda>(out, c). Ok (out, env\<lparr>fe_cache := c\<rparr>))
           else load_balance)
       | LoadBalance \<Rightarrow> load_balance)"

subsection \<open>One upstream\<close>

record DotUpstream =
  dot_host :: string
  dot_port :: u16

datatype 'd Upstream = Dns SocketAddr | Doh 'd | Dot DotUpstream

text \<open>
  The outcome of a future and the time it takes; a time limit of zero is none. The DNS-over-HTTPS
  client limits its own time.
\<close>

definition run_with_timeout :: "duration \<Rightarrow> (DoHError, 'a) res \<times> duration \<Rightarrow> (DoHError, 'a) res" where
  "run_with_timeout timeout fut =
    (if timeout = 0 then fst fut else if snd fut \<le> timeout then fst fut else Err UpstreamTimeout)"

definition exchange_single ::
  "duration \<Rightarrow> (SocketAddr \<Rightarrow> packet \<Rightarrow> (DoHError, packet) res \<times> duration)
    \<Rightarrow> ('d \<Rightarrow> packet \<Rightarrow> (DoHError, packet) res) \<Rightarrow> (DotUpstream \<Rightarrow> packet \<Rightarrow> (DoHError, packet) res \<times> duration)
    \<Rightarrow> packet \<Rightarrow> 'd Upstream \<Rightarrow> (DoHError, packet) res" where
  "exchange_single timeout proxy_dns_udp_tcp proxy_doh proxy_dot query upstream =
    (case upstream of
       Dns server_address \<Rightarrow> run_with_timeout timeout (proxy_dns_udp_tcp server_address query)
     | Doh doh_upstream \<Rightarrow> proxy_doh doh_upstream query
     | Dot dot_upstream \<Rightarrow> run_with_timeout timeout (proxy_dot dot_upstream query))"

definition upstream_address :: "('d \<Rightarrow> string) \<Rightarrow> 'd Upstream \<Rightarrow> string" where
  "upstream_address url upstream =
    (case upstream of
       Dns addr \<Rightarrow> show_socket_addr addr
     | Doh doh \<Rightarrow> url doh
     | Dot dot \<Rightarrow> ''tls://'' @ dot_host dot @ '':'' @ show_nat (unat (dot_port dot)))"

text \<open>
  A byte stream: the outcome of the k-th write or flush, what the peer sends when it has got the given
  octets, and the error behind that. An open stream also counts its operations and holds what was
  written and how much was read.
\<close>

record stream =
  st_write :: "nat \<Rightarrow> io_error + unit"
  st_reply :: "packet \<Rightarrow> packet"
  st_end :: io_error

record open_stream = stream +
  st_ops :: nat
  st_written :: packet
  st_read :: nat

definition opened :: "stream \<Rightarrow> open_stream" where
  "opened s = stream.extend s \<lparr>st_ops = 0, st_written = [], st_read = 0\<rparr>"

definition io_result :: "io_error + 'a \<Rightarrow> (DoHError, 'a) res" where
  "io_result r = (case r of Inl e \<Rightarrow> Err (Io e) | Inr a \<Rightarrow> Ok a)"

definition write_all :: "open_stream \<Rightarrow> packet \<Rightarrow> (DoHError, open_stream) res" where
  "write_all s octets =
    rbind (io_result (st_write s (st_ops s))) (\<lambda>_.
      Ok (s\<lparr>st_ops := st_ops s + 1, st_written := st_written s @ octets\<rparr>))"

definition flush :: "open_stream \<Rightarrow> (DoHError, open_stream) res" where
  "flush s = rbind (io_result (st_write s (st_ops s))) (\<lambda>_. Ok (s\<lparr>st_ops := st_ops s + 1\<rparr>))"

definition read_exact :: "open_stream \<Rightarrow> nat \<Rightarrow> (DoHError, packet \<times> open_stream) res" where
  "read_exact s n =
    (let input = drop (st_read s) (st_reply s (st_written s)) in
     if n \<le> length input then Ok (take n input, s\<lparr>st_read := st_read s + n\<rparr>) else Err (Io (st_end s)))"

definition framed_exchange :: "stream \<Rightarrow> packet \<Rightarrow> (DoHError, packet) res" where
  "framed_exchange s query =
    rbind (write_all (opened s) (u16_be (of_nat (length query)))) (\<lambda>s.
    rbind (write_all s query) (\<lambda>s.
    rbind (flush s) (\<lambda>s.
    rbind (read_exact s 2) (\<lambda>(len_buf, s).
      let packet_len = unat (get_u16 len_buf 0) in
      if \<not> (MIN_DNS_PACKET_LEN \<le> packet_len \<and> packet_len \<le> MAX_DNS_RESPONSE_LEN) then Err UpstreamIssue
      else rbind (read_exact s packet_len) (\<lambda>(packet, _). Ok packet)))))"

text \<open>What the peer has got before the first read: the length in two octets, and the query.\<close>

definition framed :: "packet \<Rightarrow> packet" where
  "framed query = u16_be (of_nat (length query)) @ query"

definition dns_exchange_over_stream :: "stream \<Rightarrow> packet \<Rightarrow> (DoHError, packet) res" where
  "dns_exchange_over_stream s query =
    (if length query > 65535 then Err TooLarge else framed_exchange s query)"

text \<open>\<open>connect\<close> binds and connects a TCP socket.\<close>

definition connect_tcp_with_local_bind ::
  "(SocketAddr \<Rightarrow> SocketAddr \<Rightarrow> io_error + unit) \<Rightarrow> SocketAddr \<Rightarrow> SocketAddr \<Rightarrow> io_error + unit" where
  "connect_tcp_with_local_bind connect local_bind_address peer_addr =
    (case local_bind_for_peer local_bind_address peer_addr of
       None \<Rightarrow> Inl (IoError AddrNotAvailableKind (Some StdOther) ''local bind address family mismatch'')
     | Some bind_addr \<Rightarrow> connect bind_addr peer_addr)"

text \<open>
  A UDP socket bound to the given address, with the datagram that comes in after the query was sent to
  the server, and the TCP connection opened after a truncated answer.
\<close>

record dns_net =
  dn_bind :: "SocketAddr \<Rightarrow> io_error + unit"
  dn_send :: "SocketAddr \<Rightarrow> SocketAddr \<Rightarrow> packet \<Rightarrow> io_error + unit"
  dn_recv :: "SocketAddr \<Rightarrow> packet \<Rightarrow> io_error + (packet \<times> SocketAddr)"
  dn_connect :: "SocketAddr \<Rightarrow> SocketAddr \<Rightarrow> io_error + unit"
  dn_nodelay :: "io_error + unit"
  dn_stream :: stream
  dn_clients :: nat

definition proxy_dns_udp_tcp ::
  "nat \<Rightarrow> SocketAddr \<Rightarrow> dns_net \<Rightarrow> packet \<Rightarrow> SocketAddr \<Rightarrow> (DoHError, packet) res" where
  "proxy_dns_udp_tcp max_clients local_bind_address net query server_address =
    rbind (io_result (dn_bind net local_bind_address)) (\<lambda>_.
    rbind (io_result (dn_send net local_bind_address server_address query)) (\<lambda>_.
    rbind (io_result (dn_recv net server_address query)) (\<lambda>(datagram, response_server_address).
      let packet = take MAX_DNS_RESPONSE_LEN datagram in
      if length packet < MIN_DNS_PACKET_LEN \<or> server_address \<noteq> response_server_address then Err UpstreamIssue
      else
        rbind (map_err (\<lambda>_. UpstreamIssue) (is_truncated packet)) (\<lambda>truncated.
        if \<not> truncated then Ok packet
        else if max_clients \<ge> UDP_TCP_RATIO \<and> dn_clients net \<ge> max_clients div UDP_TCP_RATIO
        then Err TooManyTcpSessions
        else
          rbind (io_result (connect_tcp_with_local_bind (dn_connect net) local_bind_address server_address)) (\<lambda>_.
          rbind (io_result (dn_nodelay net)) (\<lambda>_.
          framed_exchange (dn_stream net) query))))))"

subsection \<open>The path of a query\<close>

record DnsResponse =
  dr_packet :: packet
  dr_ttl :: u32
  dr_query_stats :: QueryStatistics

text \<open>The query as the upstreams get it. A failed rewriting is ignored, but what it changed stays.\<close>

definition proxy_request :: "'u Globals \<Rightarrow> packet \<Rightarrow> ip_addr option \<Rightarrow> (DoHError, packet) res" where
  "proxy_request g query client_ip =
    (if length query < MIN_DNS_PACKET_LEN then Err Incomplete
     else
       (case set_edns_max_payload_size query (of_nat MAX_DNS_RESPONSE_LEN) of
          (_, Panic) \<Rightarrow> Panic
        | (query, _) \<Rightarrow>
            (case (if g_enable_ecs g then client_ip else None) of
               None \<Rightarrow> Ok query
             | Some ip \<Rightarrow>
                 (case add_ecs_to_packet query ip (g_ecs_prefix_v4 g) (g_ecs_prefix_v6 g) of
                    (_, Panic) \<Rightarrow> Panic
                  | (query, _) \<Rightarrow> Ok query))))"

text \<open>The answer as the client gets it.\<close>

definition proxy_response :: "'u Globals \<Rightarrow> packet \<Rightarrow> QueryStatistics \<Rightarrow> (DoHError, DnsResponse) res" where
  "proxy_response g packet query_stats =
    rbind (map_err (\<lambda>_. UpstreamIssue) (is_recoverable_error packet)) (\<lambda>recoverable.
    rbind (if recoverable then Ok (g_err_ttl g)
           else map_err (\<lambda>_. UpstreamIssue) (min_ttl packet (g_min_ttl g) (g_max_ttl g) (g_err_ttl g))) (\<lambda>ttl.
    case add_edns_padding packet of
      (_, Panic) \<Rightarrow> Panic
    | (packet, _) \<Rightarrow> Ok \<lparr>dr_packet = packet, dr_ttl = ttl, dr_query_stats = query_stats\<rparr>))"

definition proxy ::
  "'u Globals \<Rightarrow> ('u, 'f, 'z) fastest_env_scheme \<Rightarrow> packet \<Rightarrow> ip_addr option
    \<Rightarrow> (DoHError, DnsResponse) res \<times> ('u, 'f, 'z) fastest_env_scheme" where
  "proxy g env query client_ip =
    (case proxy_request g query client_ip of
       Err e \<Rightarrow> (Err e, env)
     | Panic \<Rightarrow> (Panic, env)
     | Ok query \<Rightarrow>
         (case exchange (g_upstream_mode g) env query (g_upstreams g) of
            Ok (out, env) \<Rightarrow>
              (case o_packet out of
                 Inl e \<Rightarrow> (Err e, env)
               | Inr packet \<Rightarrow> (proxy_response g packet (o_query_stats out), env))
          | _ \<Rightarrow> (Panic, env)))"

subsection \<open>Exchanging\<close>

definition exchange_ready :: "UpstreamMode \<Rightarrow> ('u, 'f, 'z) fastest_env_scheme \<Rightarrow> bool" where
  "exchange_ready mode env \<longleftrightarrow>
    (case mode of LoadBalance \<Rightarrow> True | Parallel \<Rightarrow> all_arrive env | FastestAddr \<Rightarrow> fastest_ready env)"

definition exchange_outcome ::
  "UpstreamMode \<Rightarrow> ('u, 'f, 'z) fastest_env_scheme \<Rightarrow> packet \<Rightarrow> 'u list \<Rightarrow> (unit, ExchangeOutcome) res" where
  "exchange_outcome mode env query upstreams = rbind (exchange mode env query upstreams) (\<lambda>(out, _). Ok out)"

lemma rbind_Ok_fst: "rbind (rbind r (\<lambda>(a, b). Ok (a, f b))) (\<lambda>(a, _). Ok a) = rbind r (\<lambda>(a, _). Ok a)"
  by (cases r) auto

lemma rbind_Ok_pair: "rbind (rbind r (\<lambda>a. Ok (a, c))) (\<lambda>(a, _). Ok a) = r"
  by (cases r) auto

lemma query_qtype_Ok: "\<exists>t. query_qtype p = Ok t"
  using qtype_from_packet_not_Panic [of p]
  by (auto simp: query_qtype_def qtype_from_packet_def Let_def read_u16_def split: res.splits)

lemma exchange_outcome_cases:
  assumes "upstreams \<noteq> []"
  shows "exchange_outcome mode env query upstreams =
    (case mode of
       Parallel \<Rightarrow> exchange_parallel env query upstreams
     | FastestAddr \<Rightarrow> (if query_qtype query \<in> {Ok (Some RR_A), Ok (Some RR_AAAA) :: (unit, rr_type option) res}
         then fastest_exchange env query upstreams else lb_exchange env query upstreams)
     | LoadBalance \<Rightarrow> lb_exchange env query upstreams)"
proof -
  obtain t where "query_qtype query = (Ok t :: (unit, rr_type option) res)" using query_qtype_Ok by blast
  then show ?thesis
    using assms
    by (cases mode) (simp_all add: exchange_outcome_def exchange_def Let_def fastest_exchange_def lb_exchange_def
        rbind_Ok_fst rbind_Ok_pair del: rbind_eq_Ok)
qed

lemma exchange_outcome_empty: "exchange_outcome mode env query [] =
    Ok \<lparr>o_packet = Inl UpstreamIssue, o_query_stats = \<lparr>qs_main = [], qs_fallback = []\<rparr>\<rparr>"
  by (simp add: exchange_outcome_def exchange_def)

lemma readdressed_refl: "readdressed p p"
  by (simp add: readdressed_def)

interpretation dispatch: exchange_strategy "exchange_outcome mode" "exchange_ready mode" readdressed for mode
proof unfold_locales
  fix env :: "('u, 'f, 'z) fastest_env_scheme" and query and upstreams :: "'u list" and out p e u
  assume ready: "exchange_ready mode env"
  let ?strategy = "\<lambda>r. exchange_outcome mode env query upstreams = r"
  consider (empty) "upstreams = []"
    | (balance) "upstreams \<noteq> []" "?strategy (lb_exchange env query upstreams)"
    | (parallel) "upstreams \<noteq> []" "all_arrive env" "?strategy (exchange_parallel env query upstreams)"
    | (fastest) "upstreams \<noteq> []" "fastest_ready env" "?strategy (fastest_exchange env query upstreams)"
  proof (cases "upstreams = []")
    case False
    with ready exchange_outcome_cases [OF False, of mode env query] that show ?thesis
      by (cases mode) (auto simp: exchange_ready_def split: if_splits)
  qed (rule that)
  note strategies = this
  show "\<exists>out. exchange_outcome mode env query upstreams = Ok out"
    by (cases rule: strategies)
      (simp_all add: exchange_outcome_empty load_balance.exch_returns parallel.exch_returns fastest.exch_returns)
  assume o: "exchange_outcome mode env query upstreams = Ok out"
  show "\<exists>u \<in> set upstreams. \<exists>reply. sent_by env query u reply \<and> validate_packet reply \<and> readdressed reply p"
    if "o_packet out = Inr p"
    using o that load_balance.exch_sound [of env query upstreams out p] parallel.exch_sound [of env query upstreams out p]
      fastest.exch_sound [of env query upstreams out p]
    by (cases rule: strategies) (auto simp: exchange_outcome_empty intro: readdressed_refl)
  show "\<not> answers env query u" if "o_packet out = Inl e" "u \<in> set upstreams"
    using o that load_balance.exch_complete [of env query upstreams out e u]
      parallel.exch_complete [of env query upstreams out e u] fastest.exch_complete [of env query upstreams out e u]
    by (cases rule: strategies) auto
qed

lemma exchange_Ok:
  assumes "exchange_ready mode env"
  obtains out env' where "exchange mode env query upstreams = Ok (out, env')"
    "exchange_outcome mode env query upstreams = Ok out"
  using dispatch.exch_returns [OF assms, of query upstreams] unfolding exchange_outcome_def by auto

subsection \<open>The request\<close>

text \<open>The OPT record as the upstreams get it: the new payload size, and the client subnet unless there is one.\<close>

definition client_subnet :: "'u Globals \<Rightarrow> ip_addr option \<Rightarrow> packet option" where
  "client_subnet g client_ip = (if g_enable_ecs g then
     map_option (\<lambda>ip. build_ecs_option ip (g_ecs_prefix_v4 g) (g_ecs_prefix_v6 g)) client_ip else None)"

definition prepared_opt :: "packet option \<Rightarrow> edns_option list \<Rightarrow> ResourceRecord \<Rightarrow> ResourceRecord" where
  "prepared_opt subnet opts r =
    (let r = r\<lparr>rr_rr_class := 4096\<rparr> in
     case subnet of
       None \<Rightarrow> r
     | Some d \<Rightarrow> if EDNS_CLIENT_SUBNET \<in> fst ` set opts then r else rr_add_option (EDNS_CLIENT_SUBNET, d) r)"

lemma proxy_request_split:
  assumes "17 \<le> length query" "set_edns_max_payload_size query 4096 = (query', Ok ())"
    "\<And>ip. add_ecs_to_packet query' ip (g_ecs_prefix_v4 g) (g_ecs_prefix_v6 g) =
       (add (build_ecs_option ip (g_ecs_prefix_v4 g) (g_ecs_prefix_v6 g)), Ok ())"
  shows "proxy_request g query client_ip =
    Ok (case client_subnet g client_ip of None \<Rightarrow> query' | Some d \<Rightarrow> add d)"
proof -
  have "of_nat MAX_DNS_RESPONSE_LEN = (4096 :: u16)" by (simp add: MAX_DNS_RESPONSE_LEN_def)
  then show ?thesis
    using assms by (cases client_ip) (simp_all add: proxy_request_def MIN_DNS_PACKET_LEN_def client_subnet_def)
qed

lemma enc_msg_min_length:
  assumes "wf_msg m" "length (m_questions m) = 1"
  shows "17 \<le> length (enc_msg m)"
proof -
  obtain q where q: "m_questions m = [q]" using assms(2) by (cases "m_questions m") auto
  have "1 \<le> name_wire_len (q_name q)" by (simp add: name_wire_len_def)
  with q assms show ?thesis by (simp add: enc_msg_def wire_simps)
qed

lemma proxy_request_fresh:
  assumes "wf_msg m" "length (m_questions m) = 1" "length (enc_msg m) + 11 \<le> 4096"
    "length (m_additionals m) < 65535" "\<not> list_ex is_opt (m_additionals m)"
  shows "proxy_request g (enc_msg m) client_ip =
    Ok (enc_msg (m\<lparr>m_additionals := m_additionals m @ [prepared_opt (client_subnet g client_ip) [] (opt_rr 4096 [])]\<rparr>))"
proof -
  let ?m = "msg_set_payload 4096 m"
  have m: "?m = m\<lparr>m_additionals := m_additionals m @ [opt_rr 4096 []]\<rparr>"
    using assms(5) by (simp add: msg_set_payload_def)
  have "filter is_opt (m_additionals m) = []" using assms(5) by (auto simp: list_ex_iff filter_empty_conv)
  then have s: "set_edns_max_payload_size (enc_msg m) 4096 = (enc_msg ?m, Ok ())"
    using assms by (intro set_edns_enc) auto
  have wf: "wf_msg ?m" using assms by (intro wf_msg_set_payload)
  have len: "length (enc_msg ?m) \<le> 4096" using assms(3) sample_opt(2) [of 4096]
    by (simp add: m enc_msg_additionals length_enc_prefix)
  have root: "list_all (\<lambda>x. \<not> is_root_opt x) (m_additionals m)"
    using assms(5) by (auto simp: list_ex_iff list_all_iff is_root_opt_def)
  have "add_ecs_to_packet (enc_msg ?m) ip p4 p6 = (if EDNS_CLIENT_SUBNET \<in> fst ` set ([] :: edns_option list) then enc_msg ?m
     else enc_msg (?m\<lparr>m_additionals := m_additionals m @
       rr_add_option (EDNS_CLIENT_SUBNET, build_ecs_option ip p4 p6) (opt_rr 4096 []) # []\<rparr>), Ok ())" for ip p4 p6
    using assms root sample_options
    by (intro add_ecs_enc [OF wf _ len]) (simp_all add: m)
  then have a: "add_ecs_to_packet (enc_msg ?m) ip p4 p6 = (enc_msg (m\<lparr>m_additionals := m_additionals m @
       [rr_add_option (EDNS_CLIENT_SUBNET, build_ecs_option ip p4 p6) (opt_rr 4096 [])]\<rparr>), Ok ())" for ip p4 p6
    by (simp add: m)
  have "(opt_rr 4096 [])\<lparr>rr_rr_class := 4096\<rparr> = opt_rr 4096 []" by (simp add: opt_rr_def)
  then show ?thesis
    using proxy_request_split [OF enc_msg_min_length [OF assms(1,2)] s a, where g = g and client_ip = client_ip] m
    by (simp add: prepared_opt_def split: option.splits)
qed

lemma proxy_request_opt:
  assumes "wf_msg m" "length (m_questions m) = 1" "length (enc_msg m) \<le> 4096" "length (m_additionals m) < 65535"
    and ar: "m_additionals m = rs @ r # ts" "is_root_opt r" "\<not> list_ex is_opt (rs @ ts)"
    and opts: "rr_rdata r = enc_options opts" "list_all wf_option opts"
  shows "proxy_request g (enc_msg m) client_ip =
    Ok (enc_msg (m\<lparr>m_additionals := rs @ prepared_opt (client_subnet g client_ip) opts r # ts\<rparr>))"
proof -
  let ?m = "msg_set_payload 4096 m" and ?r = "r\<lparr>rr_rr_class := 4096\<rparr>"
  have no: "\<not> is_opt x" if "x \<in> set rs \<union> set ts" for x using ar(3) that by (auto simp: list_ex_iff)
  have opt: "is_opt r" using ar(2) by (simp add: is_root_opt_def)
  have "map (rr_set_payload 4096) xs = xs" if "set xs \<subseteq> set rs \<union> set ts" for xs
    using that no by (intro map_idI) (auto simp: rr_set_payload_def)
  then have m: "?m = m\<lparr>m_additionals := rs @ ?r # ts\<rparr>"
    using opt by (simp add: msg_set_payload_def ar(1) rr_set_payload_def)
  have "filter is_opt rs = []" "filter is_opt ts = []" using no by (auto simp: filter_empty_conv)
  then have "length (filter is_opt (m_additionals m)) \<le> 1" using ar(1) by simp
  then have s: "set_edns_max_payload_size (enc_msg m) 4096 = (enc_msg ?m, Ok ())"
    using assms opt by (intro set_edns_enc) auto
  have wf: "wf_msg ?m" using assms by (intro wf_msg_set_payload)
  have "length (enc_rr ?r) = length (enc_rr r)" by (simp add: wire_simps)
  then have len: "length (enc_msg ?m) \<le> 4096" using assms(3) ar(1)
    by (simp add: m enc_msg_def)
  have root: "list_all (\<lambda>x. \<not> is_root_opt x) rs" "is_root_opt ?r" "rr_rdata ?r = enc_options opts"
    using no ar(2) opts(1) by (auto simp: list_all_iff is_root_opt_def is_opt_def)
  have "add_ecs_to_packet (enc_msg ?m) ip p4 p6 = (if EDNS_CLIENT_SUBNET \<in> fst ` set opts then enc_msg ?m
     else enc_msg (?m\<lparr>m_additionals := rs @
       rr_add_option (EDNS_CLIENT_SUBNET, build_ecs_option ip p4 p6) ?r # ts\<rparr>), Ok ())" for ip p4 p6
    using assms(2) root opts(2) by (intro add_ecs_enc [OF wf _ len]) (simp_all add: m)
  then have a: "add_ecs_to_packet (enc_msg ?m) ip p4 p6 = ((\<lambda>d. if EDNS_CLIENT_SUBNET \<in> fst ` set opts then enc_msg ?m
     else enc_msg (?m\<lparr>m_additionals := rs @ rr_add_option (EDNS_CLIENT_SUBNET, d) ?r # ts\<rparr>))
       (build_ecs_option ip p4 p6), Ok ())" for ip p4 p6 by simp
  show ?thesis
    using proxy_request_split [OF enc_msg_min_length [OF assms(1,2)] s a, where g = g and client_ip = client_ip] m
    by (auto simp: prepared_opt_def split: option.splits)
qed

subsection \<open>The response\<close>

lemma readdressed_length: "readdressed reply p \<Longrightarrow> length p = length reply"
proof -
  have "fst (rewrite_answer_ips_in_place reply ip) = fst (rewrite_answer_ips_in_packet reply ip)" for ip
    by (simp add: rewrite_answer_ips_in_place_def split_beta)
  then show "readdressed reply p \<Longrightarrow> length p = length reply"
    using rewrite_in_packet_safe [of reply] by (auto simp: readdressed_def) (metis fst_conv)
qed

lemma validate_length: "validate_packet p \<Longrightarrow> 12 \<le> length p"
  by (auto simp: validate_packet_def is_ok_iff elim: msg_unpack_OkE)

lemma is_recoverable_error_Ok: "12 \<le> length p \<Longrightarrow> \<exists>b. is_recoverable_error p = Ok b"
  by (simp add: is_recoverable_error_def rcode_def del: rbind_eq_Ok)

text \<open>The time to live of an answer: that for errors, or that of the packet.\<close>

definition dated :: "'u Globals \<Rightarrow> packet \<Rightarrow> u32 \<Rightarrow> bool" where
  "dated g p ttl \<longleftrightarrow>
    (case is_recoverable_error p of
       Ok True \<Rightarrow> ttl = g_err_ttl g
     | Ok False \<Rightarrow> min_ttl p (g_min_ttl g) (g_max_ttl g) (g_err_ttl g) = Ok ttl
     | _ \<Rightarrow> False)"

lemma proxy_response_cases:
  assumes "12 \<le> length p"
  shows "proxy_response g p stats \<noteq> Panic"
    and "min_ttl p (g_min_ttl g) (g_max_ttl g) (g_err_ttl g) = Ok t \<Longrightarrow> \<exists>r. proxy_response g p stats = Ok r"
    and "proxy_response g p stats = Ok r \<Longrightarrow> dr_packet r = fst (add_edns_padding p) \<and> dated g p (dr_ttl r)"
proof -
  obtain b where b: "is_recoverable_error p = Ok b" using is_recoverable_error_Ok [OF assms] by blast
  obtain p' u where pad: "add_edns_padding p = (p', u)" "u \<noteq> Panic"
    using add_edns_padding_not_Panic [of p] by (metis prod.collapse)
  have fin: "(case add_edns_padding p of (_, Panic) \<Rightarrow> Panic
      | (packet, _) \<Rightarrow> Ok \<lparr>dr_packet = packet, dr_ttl = t, dr_query_stats = stats\<rparr>)
      = (Ok \<lparr>dr_packet = p', dr_ttl = t, dr_query_stats = stats\<rparr> :: (DoHError, DnsResponse) res)" for t
    using pad by (cases u) auto
  let ?ttl = "min_ttl p (g_min_ttl g) (g_max_ttl g) (g_err_ttl g)"
  have e: "proxy_response g p stats = (if b then Ok \<lparr>dr_packet = p', dr_ttl = g_err_ttl g, dr_query_stats = stats\<rparr>
      else rbind (map_err (\<lambda>_. UpstreamIssue) ?ttl) (\<lambda>t. Ok \<lparr>dr_packet = p', dr_ttl = t, dr_query_stats = stats\<rparr>))"
    unfolding proxy_response_def b map_err.simps rbind.simps fin by simp
  show "proxy_response g p stats \<noteq> Panic"
    using min_ttl_not_Panic by (simp add: e rbind_eq_Panic)
  show "\<exists>r. proxy_response g p stats = Ok r" if "?ttl = Ok t"
    using that by (simp add: e del: rbind_eq_Ok)
  assume o: "proxy_response g p stats = Ok r"
  with pad show "dr_packet r = fst (add_edns_padding p) \<and> dated g p (dr_ttl r)"
    by (cases ?ttl) (auto simp: e b dated_def split: if_splits)
qed

lemma proxy_exchanged:
  assumes "exchange_ready (g_upstream_mode g) env" "proxy_request g query client_ip = Ok query'"
  obtains (failed) e env' where "proxy g env query client_ip = (Err e, env')"
      "\<And>u. u \<in> set (g_upstreams g) \<Longrightarrow> \<not> answers env query' u"
    | (answered) u reply p stats env' where "u \<in> set (g_upstreams g)" "sent_by env query' u reply" "validate_packet reply"
      "readdressed reply p" "12 \<le> length p" "proxy g env query client_ip = (proxy_response g p stats, env')"
proof -
  obtain out env' where x: "exchange (g_upstream_mode g) env query' (g_upstreams g) = Ok (out, env')"
    "exchange_outcome (g_upstream_mode g) env query' (g_upstreams g) = Ok out"
    using exchange_Ok [OF assms(1)] by blast
  show thesis
  proof (cases "o_packet out")
    case (Inl e)
    with x(1) assms(2) have "proxy g env query client_ip = (Err e, env')" by (simp add: proxy_def)
    from failed [OF this dispatch.exch_complete [OF assms(1) x(2) Inl]] show thesis by blast
  next
    case (Inr p)
    obtain u reply where r: "u \<in> set (g_upstreams g)" "sent_by env query' u reply" "validate_packet reply" "readdressed reply p"
      using dispatch.exch_sound [OF assms(1) x(2) Inr] by blast
    moreover have "12 \<le> length p" using validate_length [OF r(3)] readdressed_length [OF r(4)] by simp
    moreover have "proxy g env query client_ip = (proxy_response g p (o_query_stats out), env')"
      using x(1) Inr assms(2) by (simp add: proxy_def)
    ultimately show thesis by (rule answered)
  qed
qed

lemma proxy_request_not_Panic:
  assumes "client_subnet g client_ip = None"
  shows "proxy_request g query client_ip \<noteq> Panic"
proof -
  have "(if g_enable_ecs g then client_ip else None) = None"
    using assms by (auto simp: client_subnet_def split: if_splits)
  with set_edns_not_Panic [of query "of_nat MAX_DNS_RESPONSE_LEN"] show ?thesis
    by (auto simp: proxy_request_def split: prod.splits res.splits)
qed

lemma cut_off_start: "ecs_additional_start cut_off_query = Ok (19, 1)"
  by code_simp

lemma cut_off_edns: "set_edns_max_payload_size cut_off_query 4096 = (cut_off_query, Err E_ShortPacket)"
  by code_simp

lemma add_ecs_cut_off_any: "snd (add_ecs_to_packet cut_off_query ip p4 p6) = Panic"
proof -
  have "find_opt_record cut_off_query 19 1 = Panic" by code_simp
  then show ?thesis by (simp add: add_ecs_to_packet_def cut_off_start)
qed

subsection \<open>Properties of the path\<close>

text \<open>
  for every byte string as the query, every answer of the upstreams and every setting,
  serving a query to which no client subnet is added never panics, under every strategy.
\<close>

lemma proxy_never_panics:
  assumes "exchange_ready (g_upstream_mode g) env" "client_subnet g client_ip = None"
  shows "fst (proxy g env query client_ip) \<noteq> Panic"
proof (cases "proxy_request g query client_ip")
  case (Ok query')
  from assms(1) Ok show ?thesis
    by (cases rule: proxy_exchanged) (simp_all add: proxy_response_cases(1))
qed (use proxy_request_not_Panic [OF assms(2)] in \<open>simp_all add: proxy_def\<close>)

definition sample_globals :: "nat Globals" where
  "sample_globals = \<lparr>g_upstreams = [0, 1], g_upstream_mode = LoadBalance, g_path = ''/dns-query'', g_max_clients = 512,
     g_timeout = 10, g_min_ttl = 10, g_max_ttl = 604800, g_err_ttl = 2, g_disable_post = False,
     g_allow_odoh_post = False, g_enable_ecs = False, g_ecs_prefix_v4 = 24, g_ecs_prefix_v6 = 56,
     g_odoh_configs_path = ''/.well-known/odohconfigs''\<rparr>"

text \<open>
  C9 (error): when client subnets are enabled, there is a query of 20 octets that panics the server
  for every client address, every environment and every other setting: the upstreams are not even
  asked.
\<close>

theorem proxy_panics_on_cut_off_query:
  assumes "g_enable_ecs g"
  shows "proxy g env cut_off_query (Some ip) = (Panic, env) \<and> length cut_off_query = 20"
proof -
  have "of_nat MAX_DNS_RESPONSE_LEN = (4096 :: u16)" by (simp add: MAX_DNS_RESPONSE_LEN_def)
  moreover have "length cut_off_query = 20" by (simp add: cut_off_query_def)
  moreover obtain q where "add_ecs_to_packet cut_off_query ip (g_ecs_prefix_v4 g) (g_ecs_prefix_v6 g) = (q, Panic)"
    using add_ecs_cut_off_any by (metis prod.collapse)
  ultimately show ?thesis
    using assms by (simp add: proxy_def proxy_request_def MIN_DNS_PACKET_LEN_def cut_off_edns)
qed

theorem proxy_panics_on_cut_off_query_witness:
  "proxy (sample_globals\<lparr>g_enable_ecs := True\<rparr>) sample_fastest cut_off_query (Some (V4 (Octets4 192 0 2 1))) = (Panic, sample_fastest)"
  using proxy_panics_on_cut_off_query [of "sample_globals\<lparr>g_enable_ecs := True\<rparr>" sample_fastest "V4 (Octets4 192 0 2 1)"]
  by simp

text \<open>
  C8 (refinement): for a well-formed one-question query, the upstreams get exactly the query whose
  OPT record (added when there is none) advertises 4096 octets and carries the client subnet of the
  settings, unless the client sent one itself.
\<close>

theorem upstreams_get_prepared_query:
  assumes "wf_msg m" "length (m_questions m) = 1" "length (enc_msg m) + 11 \<le> 4096" "length (m_additionals m) < 65535"
  shows "(\<not> list_ex is_opt (m_additionals m) \<longrightarrow> proxy_request g (enc_msg m) client_ip =
      Ok (enc_msg (m\<lparr>m_additionals := m_additionals m @ [prepared_opt (client_subnet g client_ip) [] (opt_rr 4096 [])]\<rparr>)))
    \<and> (\<forall>rs r ts opts. m_additionals m = rs @ r # ts \<and> is_root_opt r \<and> \<not> list_ex is_opt (rs @ ts)
        \<and> rr_rdata r = enc_options opts \<and> list_all wf_option opts \<longrightarrow>
      proxy_request g (enc_msg m) client_ip =
        Ok (enc_msg (m\<lparr>m_additionals := rs @ prepared_opt (client_subnet g client_ip) opts r # ts\<rparr>)))"
proof (intro conjI allI impI)
  show "proxy_request g (enc_msg m) client_ip =
      Ok (enc_msg (m\<lparr>m_additionals := m_additionals m @ [prepared_opt (client_subnet g client_ip) [] (opt_rr 4096 [])]\<rparr>))"
    if "\<not> list_ex is_opt (m_additionals m)" using assms that by (rule proxy_request_fresh)
  have "length (enc_msg m) \<le> 4096" using assms(3) by simp
  then show "proxy_request g (enc_msg m) client_ip =
        Ok (enc_msg (m\<lparr>m_additionals := rs @ prepared_opt (client_subnet g client_ip) opts r # ts\<rparr>))"
    if "m_additionals m = rs @ r # ts \<and> is_root_opt r \<and> \<not> list_ex is_opt (rs @ ts)
        \<and> rr_rdata r = enc_options opts \<and> list_all wf_option opts" for rs r ts opts
    using proxy_request_opt [OF assms(1,2) _ assms(4)] that by blast
qed

theorem upstreams_get_prepared_query_witness:
  "proxy_request (sample_globals\<lparr>g_enable_ecs := True\<rparr>) (enc_msg sample_query) (Some (V4 (Octets4 192 0 2 1)))
   = Ok (enc_msg (sample_query\<lparr>m_additionals := [opt_rr 4096 [0, 8, 0, 7, 0, 1, 24, 0, 192, 0, 2]]\<rparr>))"
proof -
  have "prepared_opt (client_subnet (sample_globals\<lparr>g_enable_ecs := True\<rparr>) (Some (V4 (Octets4 192 0 2 1)))) [] (opt_rr 4096 [])
      = opt_rr 4096 [0, 8, 0, 7, 0, 1, 24, 0, 192, 0, 2]"
    by (simp add: prepared_opt_def client_subnet_def sample_globals_def rr_add_option_def opt_rr_def enc_option_def
        EDNS_CLIENT_SUBNET_def FAMILY_IPV4_def div_ceil8_def u16_be_def)
  then show ?thesis
    using upstreams_get_prepared_query [OF wf_sample_query sample_query_one_question(1),
        of "sample_globals\<lparr>g_enable_ecs := True\<rparr>" "Some (V4 (Octets4 192 0 2 1))"] sample_query_one_question
    by (simp add: enc_sample_query_length)
qed

text \<open>
  an answer the client gets is the padded form of a decodable reply that one of
  the configured upstreams sent to the prepared query (or of such a reply rewritten to one of its
  own addresses); its time to live is the configured one for errors, or that of the packet. No answer means that no upstream answers, or that the reply has no time to live.
\<close>

lemma answer_comes_from_upstream:
  assumes "exchange_ready (g_upstream_mode g) env" "proxy_request g query client_ip = Ok query'"
    and "fst (proxy g env query client_ip) = Ok r"
  shows "\<exists>u \<in> set (g_upstreams g). \<exists>reply p. sent_by env query' u reply \<and> validate_packet reply
    \<and> readdressed reply p \<and> dr_packet r = fst (add_edns_padding p) \<and> dated g p (dr_ttl r)"
  using assms(1,2)
proof (cases rule: proxy_exchanged)
  case (answered u reply p stats env')
  with assms(3) proxy_response_cases(3) [of p g stats r] show ?thesis by auto
qed (use assms(3) in simp)


lemma sample_min_ttl: "\<exists>t. min_ttl (enc_msg sample_msg) lo hi err = Ok t"
proof -
  have "msg_unpack (enc_msg sample_msg) = Ok sample_msg"
    using msg_unpack_enc [OF wf_sample_msg] by (simp add: sample_msg_def)
  moreover have "length (enc_msg sample_msg) \<le> 4096" "length (m_questions sample_msg) = 1" "msg_rrs sample_msg \<noteq> []"
    by (simp_all add: enc_msg_def sample_msg_def wire_simps sample_name_def name_wire_len_def msg_rrs_def)
  ultimately show ?thesis by (simp add: min_ttl_unpacked)
qed

lemma sample_proxy:
  "\<exists>r. fst (proxy sample_globals sample_fastest (enc_msg sample_query) None) = Ok r"
proof -
  obtain q where q: "proxy_request sample_globals (enc_msg sample_query) None = Ok q"
    using proxy_request_fresh [OF wf_sample_query sample_query_one_question(1), of sample_globals None]
      sample_query_one_question by (simp add: enc_sample_query_length)
  have "answers sample_fastest q 1"
    by (simp add: answers_def sample_fastest_def sample_env_def exchange_env.defs validate_sample)
  then obtain out v where out: "lb_exchange sample_fastest q [0, 1] = Ok out"
    "\<exists>p. o_packet out = Inr p \<and> sent_by sample_fastest q v p"
    using load_balance.one_answer_suffices [where env = sample_fastest and u = 1 and upstreams = "[0, 1]" and query = q] by auto
  have "sent_by sample_fastest q v p \<Longrightarrow> p = enc_msg sample_msg" for p
    by (auto simp: sent_by_def sample_fastest_def sample_env_def exchange_env.defs split: if_splits)
  with out have p: "o_packet out = Inr (enc_msg sample_msg)" by auto
  have "exchange_ready LoadBalance sample_fastest" by (simp add: exchange_ready_def)
  from exchange_Ok [OF this, of q "[0, 1]"] obtain out' env' where
    x: "exchange LoadBalance sample_fastest q [0, 1] = Ok (out', env')" "exchange_outcome LoadBalance sample_fastest q [0, 1] = Ok out'"
    by blast
  then have "out' = out" using out(1) exchange_outcome_cases [of "[0, 1]" LoadBalance sample_fastest q] by simp
  with x(1) q p have "fst (proxy sample_globals sample_fastest (enc_msg sample_query) None)
      = proxy_response sample_globals (enc_msg sample_msg) (o_query_stats out)"
    by (simp add: proxy_def sample_globals_def)
  moreover have "12 \<le> length (enc_msg sample_msg)" using validate_length [OF validate_sample] .
  ultimately show ?thesis using proxy_response_cases(2) sample_min_ttl by metis
qed

end
