(* ===== verification/Json_Api.thy ===== *)
theory Json_Api
  imports Dns Net_Addr
begin

text \<open>
  The JSON interface (\<open>src/libdoh/src/dns_json.rs\<close>): the reader that turns a response packet into
  the fields of a JSON answer, and the writer of the query packet.

  The reader follows compression pointers without a bound, so that reading need not end: its
  outcome is an option, and \<^term>\<open>None\<close> stands for a loop that never ends. Error messages are
  those of the source. Base64 is a parameter (a crate); JSON text is made by a crate from the
  record that \<open>parse_dns_to_json\<close> returns.

  The lemmas show that the reader agrees with the message codec on every name the codec accepts,
  that it never panics, that it does not return on some packets that pass the validation of upstream
  answers, and that the writer produces the packet of the query's message for every proper name.
\<close>

subsection \<open>Outcomes of loops that may not end\<close>

fun obind :: "('e, 'a) res option \<Rightarrow> ('a \<Rightarrow> ('e, 'b) res option) \<Rightarrow> ('e, 'b) res option" where
  "obind (Some (Ok a)) f = f a"
| "obind (Some (Err e)) f = Some (Err e)"
| "obind (Some Panic) f = Some Panic"
| "obind None f = None"

lemma obind_Ok [simp]: "obind r f = Some (Ok b) \<longleftrightarrow> (\<exists>a. r = Some (Ok a) \<and> f a = Some (Ok b))"
  by (cases "(r, f)" rule: obind.cases) auto

lemma obind_Panic: "obind r f = Some Panic \<longleftrightarrow> r = Some Panic \<or> (\<exists>a. r = Some (Ok a) \<and> f a = Some Panic)"
  by (cases "(r, f)" rule: obind.cases) auto

subsection \<open>Text from bytes\<close>

text \<open>\<open>String::from_utf8_lossy\<close>: every maximal invalid part becomes the replacement character.\<close>

definition byte_char :: "byte \<Rightarrow> char" where "byte_char b = char_of (unat b)"

definition replacement :: string where "replacement = map char_of [0xEF, 0xBF, 0xBD :: nat]"

definition is_cont :: "byte \<Rightarrow> bool" where "is_cont b \<longleftrightarrow> 0x80 \<le> b \<and> b \<le> 0xBF"

text \<open>The number of octets of a character by its first octet, and the second octets it allows.\<close>

definition utf8_width :: "byte \<Rightarrow> nat" where
  "utf8_width b = (if b < 0x80 then 1 else if 0xC2 \<le> b \<and> b \<le> 0xDF then 2
     else if 0xE0 \<le> b \<and> b \<le> 0xEF then 3 else if 0xF0 \<le> b \<and> b \<le> 0xF4 then 4 else 0)"

definition utf8_second :: "byte \<Rightarrow> byte \<Rightarrow> bool" where
  "utf8_second b c \<longleftrightarrow>
    (if b = 0xE0 then 0xA0 \<le> c \<and> c \<le> 0xBF else if b = 0xED then 0x80 \<le> c \<and> c \<le> 0x9F
     else if b = 0xF0 then 0x90 \<le> c \<and> c \<le> 0xBF else if b = 0xF4 then 0x80 \<le> c \<and> c \<le> 0x8F
     else is_cont c)"

text \<open>How many octets belong to the next character or invalid part, and whether it is valid.\<close>

definition utf8_chunk :: "byte list \<Rightarrow> nat \<times> bool" where
  "utf8_chunk bs =
    (let b = bs ! 0; at = (\<lambda>i. if i < length bs then bs ! i else 0) in
     if utf8_width b = 1 then (1, True)
     else if utf8_width b = 0 \<or> \<not> utf8_second b (at 1) then (1, False)
     else if utf8_width b = 2 then (2, True)
     else if \<not> is_cont (at 2) then (2, False)
     else if utf8_width b = 3 then (3, True)
     else if \<not> is_cont (at 3) then (3, False)
     else (4, True))"

lemma utf8_chunk_pos [simp]: "0 < fst (utf8_chunk bs)"
  by (simp add: utf8_chunk_def Let_def)

function from_utf8_lossy :: "byte list \<Rightarrow> string" where
  "from_utf8_lossy bs =
    (if bs = [] then []
     else case utf8_chunk bs of (n, ok) \<Rightarrow>
       (if ok then map byte_char (take n bs) else replacement) @ from_utf8_lossy (drop n bs))"
  by auto
termination
  by (relation "measure length") (auto dest!: arg_cong [where f = fst] simp: utf8_chunk_pos [THEN less_le_trans])

declare from_utf8_lossy.simps [simp del]

subsection \<open>The reader\<close>

definition TYPE_A :: u16 where "TYPE_A = 1"
definition TYPE_NS :: u16 where "TYPE_NS = 2"
definition TYPE_CNAME :: u16 where "TYPE_CNAME = 5"
definition TYPE_SOA :: u16 where "TYPE_SOA = 6"
definition TYPE_PTR :: u16 where "TYPE_PTR = 12"
definition TYPE_MX :: u16 where "TYPE_MX = 15"
definition TYPE_TXT :: u16 where "TYPE_TXT = 16"
definition TYPE_AAAA :: u16 where "TYPE_AAAA = 28"
definition TYPE_SRV :: u16 where "TYPE_SRV = 33"
definition TYPE_CAA :: u16 where "TYPE_CAA = 257"
definition CLASS_IN :: u16 where "CLASS_IN = 1"

record DnsQuestion =
  jq_name :: string
  jq_type :: u16

record DnsAnswer =
  ja_name :: string
  ja_type :: u16
  ja_ttl :: u32
  ja_data :: string

record DnsJsonResponse =
  jr_status :: nat
  jr_tc :: bool
  jr_rd :: bool
  jr_ra :: bool
  jr_ad :: bool
  jr_cd :: bool
  jr_question :: "DnsQuestion list option"
  jr_answer :: "DnsAnswer list option"
  jr_authority :: "DnsAnswer list option"
  jr_additional :: "DnsAnswer list option"
  jr_comment :: "string option"

text \<open>\<open>parse_name\<close>. The offset behind the first pointer is present when a jump was made.\<close>

partial_function (option) parse_name_loop ::
  "packet \<Rightarrow> string \<Rightarrow> nat \<Rightarrow> nat option \<Rightarrow> (string, string \<times> nat) res option" where
  "parse_name_loop p name offset jump =
    (if \<not> offset < length p then Some (Err ''Name extends beyond packet'')
     else case byte_at p offset of
       Err e \<Rightarrow> Some (Err e)
     | Panic \<Rightarrow> Some Panic
     | Ok len \<Rightarrow>
         if len AND 0xC0 = 0xC0 then
           (if \<not> offset + 1 < length p then Some (Err ''Incomplete compression pointer'')
            else case byte_at p (offset + 1) of
              Err e \<Rightarrow> Some (Err e)
            | Panic \<Rightarrow> Some Panic
            | Ok b2 \<Rightarrow> parse_name_loop p name (pointer_target len b2) (Some (unwrap_or jump (offset + 2))))
         else if len = 0 then Some (Ok (name, unwrap_or jump (offset + 1)))
         else if \<not> offset + 1 + unat len \<le> length p then Some (Err ''Label extends beyond packet'')
         else case subslice_at p (offset + 1) (unat len) of
           Err e \<Rightarrow> Some (Err e)
         | Panic \<Rightarrow> Some Panic
         | Ok label \<Rightarrow>
             parse_name_loop p ((if name = [] then [] else name @ ''.'') @ from_utf8_lossy label)
               (offset + 1 + unat len) jump)"

definition parse_name :: "packet \<Rightarrow> nat \<Rightarrow> (string, string \<times> nat) res option" where
  "parse_name p offset = parse_name_loop p [] offset None"

definition show_u16 :: "u16 \<Rightarrow> string" where "show_u16 w = show_nat (unat w)"

text \<open>The character strings of a TXT record, up to the first that does not fit.\<close>

function txt_loop :: "packet \<Rightarrow> nat \<Rightarrow> nat \<Rightarrow> string \<Rightarrow> (string, string) res" where
  "txt_loop p data_end txt_offset txt_data =
    (if txt_offset < data_end then
       rbind (byte_at p txt_offset) (\<lambda>len.
         let txt_len = unat len; txt_offset' = txt_offset + 1 in
         if txt_offset' + txt_len \<le> data_end then
           rbind (subslice_at p txt_offset' txt_len) (\<lambda>s.
           txt_loop p data_end (txt_offset' + txt_len)
             ((if txt_data = [] then [] else txt_data @ '' '') @ from_utf8_lossy s))
         else Ok txt_data)
     else Ok txt_data)"
  by pat_completeness auto
termination by (relation "measure (\<lambda>(p, data_end, txt_offset, s). data_end - txt_offset)") auto

declare txt_loop.simps [simp del]

text \<open>The part \<open>data\<close> of a record.\<close>

definition show_aaaa :: "packet \<Rightarrow> nat \<Rightarrow> string" where
  "show_aaaa p offset = show_groups (map (\<lambda>i. get_u16 p (offset + 2 * i)) [0..<8])"

definition caa_data :: "(packet \<Rightarrow> string) \<Rightarrow> packet \<Rightarrow> nat \<Rightarrow> nat \<Rightarrow> (string, string) res" where
  "caa_data b64 p offset rdlength =
    (if rdlength \<ge> 2 then
       rbind (byte_at p offset) (\<lambda>flags.
       rbind (byte_at p (offset + 1)) (\<lambda>tag_len.
         if offset + 2 + unat tag_len \<le> offset + rdlength then
           rbind (subslice_at p (offset + 2) (unat tag_len)) (\<lambda>tag.
           rbind (subslice_at p (offset + 2 + unat tag_len) (rdlength - 2 - unat tag_len)) (\<lambda>value.
           Ok (show_nat (unat flags) @ '' '' @ from_utf8_lossy tag @ '' \"'' @ from_utf8_lossy value @ ''\"'')))
         else rbind (subslice_at p offset rdlength) (\<lambda>d. Ok (b64 d))))
     else rbind (subslice_at p offset rdlength) (\<lambda>d. Ok (b64 d)))"

definition record_data :: "(packet \<Rightarrow> string) \<Rightarrow> packet \<Rightarrow> u16 \<Rightarrow> nat \<Rightarrow> nat \<Rightarrow> (string, string) res option" where
  "record_data b64 p rtype offset rdlength =
    (if rtype = TYPE_A \<and> rdlength = 4 then
       Some (rbind (subslice_at p offset 4) (\<lambda>d. Ok (show_octets4 (octets4_of d 0))))
     else if rtype = TYPE_AAAA \<and> rdlength = 16 then
       Some (rbind (subslice_at p offset 16) (\<lambda>_. Ok (show_aaaa p offset)))
     else if rtype = TYPE_CNAME \<or> rtype = TYPE_NS \<or> rtype = TYPE_PTR then
       obind (parse_name p offset) (\<lambda>(domain, _). Some (Ok domain))
     else if rtype = TYPE_MX \<and> rdlength \<ge> 2 then
       obind (Some (read_u16 p offset)) (\<lambda>preference.
       obind (parse_name p (offset + 2)) (\<lambda>(exchange, _).
       Some (Ok (show_u16 preference @ '' '' @ exchange))))
     else if rtype = TYPE_TXT then Some (txt_loop p (offset + rdlength) offset [])
     else if rtype = TYPE_SOA then Some (Ok (''<SOA record, '' @ show_nat rdlength @ '' bytes>''))
     else if rtype = TYPE_SRV \<and> rdlength \<ge> 6 then
       obind (Some (read_u16 p offset)) (\<lambda>priority.
       obind (Some (read_u16 p (offset + 2))) (\<lambda>weight.
       obind (Some (read_u16 p (offset + 4))) (\<lambda>port.
       obind (parse_name p (offset + 6)) (\<lambda>(target, _).
       Some (Ok (show_u16 priority @ '' '' @ show_u16 weight @ '' '' @ show_u16 port @ '' '' @ target))))))
     else if rtype = TYPE_CAA then Some (caa_data b64 p offset rdlength)
     else Some (rbind (subslice_at p offset rdlength) (\<lambda>d. Ok (b64 d))))"

fun parse_rrs :: "(packet \<Rightarrow> string) \<Rightarrow> packet \<Rightarrow> nat \<Rightarrow> nat \<Rightarrow> (string, DnsAnswer list \<times> nat) res option" where
  "parse_rrs b64 p offset 0 = Some (Ok ([], offset))"
| "parse_rrs b64 p offset (Suc count) =
    obind (parse_name p offset) (\<lambda>(name, offset).
    if \<not> offset + 10 \<le> length p then Some (Err ''Incomplete resource record'')
    else
      obind (Some (read_u16 p offset)) (\<lambda>rtype.
      obind (Some (read_u16 p (offset + 2))) (\<lambda>rr_class.
      obind (Some (read_u32 p (offset + 4))) (\<lambda>ttl.
      obind (Some (read_u16 p (offset + 8))) (\<lambda>rdlength.
      let rdlength = unat rdlength; offset = offset + 10 in
      if \<not> offset + rdlength \<le> length p then Some (Err ''Resource data extends beyond packet'')
      else if rr_class \<noteq> CLASS_IN \<or> rtype = DNS_TYPE_OPT then parse_rrs b64 p (offset + rdlength) count
      else
        obind (record_data b64 p rtype offset rdlength) (\<lambda>data.
        obind (parse_rrs b64 p (offset + rdlength) count) (\<lambda>(records, offset).
        Some (Ok (\<lparr>ja_name = name, ja_type = rtype, ja_ttl = ttl, ja_data = data\<rparr> # records, offset)))))))))"

fun parse_json_questions :: "packet \<Rightarrow> nat \<Rightarrow> nat \<Rightarrow> (string, DnsQuestion list \<times> nat) res option" where
  "parse_json_questions p offset 0 = Some (Ok ([], offset))"
| "parse_json_questions p offset (Suc count) =
    obind (parse_name p offset) (\<lambda>(name, offset).
    if \<not> offset + 4 \<le> length p then Some (Err ''Incomplete question'')
    else
      obind (Some (read_u16 p offset)) (\<lambda>qtype.
      obind (parse_json_questions p (offset + 4) count) (\<lambda>(questions, end).
      Some (Ok (\<lparr>jq_name = name, jq_type = qtype\<rparr> # questions, end)))))"

text \<open>A section that is announced: its records when there are any.\<close>

definition json_section ::
  "(packet \<Rightarrow> string) \<Rightarrow> packet \<Rightarrow> nat \<Rightarrow> nat \<Rightarrow> (string, DnsAnswer list option \<times> nat) res option" where
  "json_section b64 p offset count =
    (if count > 0 then
       obind (parse_rrs b64 p offset count) (\<lambda>(records, offset).
       Some (Ok (if records = [] then None else Some records, offset)))
     else Some (Ok (None, offset)))"

definition parse_dns_to_json :: "(packet \<Rightarrow> string) \<Rightarrow> packet \<Rightarrow> (string, DnsJsonResponse) res option" where
  "parse_dns_to_json b64 p =
    (if length p < 12 then Some (Err ''DNS packet too short'')
     else
       obind (Some (read_u16 p 2)) (\<lambda>flags.
       obind (Some (section_counts p)) (\<lambda>(qd, an, ns, ar).
       obind (Some (byte_at p 3)) (\<lambda>status.
       obind (parse_json_questions p 12 qd) (\<lambda>(questions, offset).
       obind (json_section b64 p offset an) (\<lambda>(answer, offset).
       obind (json_section b64 p offset ns) (\<lambda>(authority, offset).
       obind (json_section b64 p offset ar) (\<lambda>(additional, _).
       Some (Ok \<lparr>jr_status = unat (status AND 0x0F),
         jr_tc = (flags AND 0x0200 \<noteq> 0), jr_rd = (flags AND 0x0100 \<noteq> 0), jr_ra = (flags AND 0x0080 \<noteq> 0),
         jr_ad = (flags AND 0x0020 \<noteq> 0), jr_cd = (flags AND 0x0010 \<noteq> 0),
         jr_question = (if qd > 0 then Some questions else None),
         jr_answer = answer, jr_authority = authority, jr_additional = additional, jr_comment = None\<rparr>)))))))))"

subsection \<open>The writer\<close>

record DnsJsonQuery =
  q_json_name :: string
  q_json_type :: "u16 option"
  q_json_cd :: "bool option"
  q_json_ct :: "string option"
  q_json_do :: "bool option"
  q_json_subnet :: "string option"

definition parse_ipv4 :: "string \<Rightarrow> octets4 option" where
  "parse_ipv4 s = (case read_ipv4_addr s of Some (q, []) \<Rightarrow> Some q | _ \<Rightarrow> None)"

text \<open>The labels of the name: the length octet is the length modulo 256.\<close>

definition json_labels :: "string \<Rightarrow> packet" where
  "json_labels name = concat (map (\<lambda>label. of_nat (length label) # map char_byte label)
     (filter (\<lambda>label. label \<noteq> []) (split_on (CHR ''.'') name)))"

definition json_opt_data :: "string option \<Rightarrow> packet" where
  "json_opt_data subnet =
    (case Option.bind subnet parse_ipv4 of
       None \<Rightarrow> []
     | Some addr \<Rightarrow> [0x00, 0x08] @ [0x00, 0x07] @ [0x00, 0x01] @ [24] @ [0] @ take 3 (octets4_list addr))"

definition build_dns_query :: "byte \<Rightarrow> byte \<Rightarrow> DnsJsonQuery \<Rightarrow> packet" where
  "build_dns_query id0 id1 query =
    (let qtype = unwrap_or (q_json_type query) TYPE_A;
         with_opt = (unwrap_or (q_json_do query) False \<or> q_json_subnet query \<noteq> None);
         header = [id0, id1, 0x01, 0x00 OR (if unwrap_or (q_json_cd query) False then 0x10 else 0)]
           @ u16_be 1 @ [0, 0] @ [0, 0] @ u16_be (if with_opt then 1 else 0);
         question = json_labels (q_json_name query) @ [0] @ u16_be qtype @ u16_be CLASS_IN;
         flags = (if unwrap_or (q_json_do query) False then 0x8000 else 0 :: u16);
         opt_data = json_opt_data (q_json_subnet query);
         opt = (if with_opt then [0] @ u16_be DNS_TYPE_OPT @ [0x10, 0x00] @ [0] @ [0] @ u16_be flags
             @ u16_be (of_nat (length opt_data)) @ opt_data else [])
     in header @ question @ opt)"

subsection \<open>Reading names\<close>

lemma from_utf8_lossy_Nil [simp]: "from_utf8_lossy [] = []"
  by (simp add: from_utf8_lossy.simps)

lemma from_utf8_lossy_eq_Nil [simp]: "from_utf8_lossy bs = [] \<longleftrightarrow> bs = []"
  using utf8_chunk_pos [of bs]
  by (subst from_utf8_lossy.simps) (auto simp: replacement_def split: prod.splits simp del: utf8_chunk_pos)

text \<open>Labels of a name as text, with dots between them.\<close>

fun dotted :: "packet list \<Rightarrow> string" where
  "dotted [] = []"
| "dotted [l] = from_utf8_lossy l"
| "dotted (l # ls) = from_utf8_lossy l @ ''.'' @ dotted ls"

lemma dotted_eq_Nil: "[] \<notin> set ls \<Longrightarrow> dotted ls = [] \<longleftrightarrow> ls = []"
  by (cases ls rule: dotted.cases) auto

lemma dotted_snoc:
  "[] \<notin> set ls \<Longrightarrow>
   dotted (ls @ [l]) = (if dotted ls = [] then [] else dotted ls @ ''.'') @ from_utf8_lossy l"
  by (induction ls rule: dotted.induct) (auto simp: dotted_eq_Nil)

text \<open>The checks make every access of the loop succeed.\<close>

lemma parse_name_loop_unfold:
  "parse_name_loop p name offset jump =
    (if \<not> offset < length p then Some (Err ''Name extends beyond packet'')
     else if p ! offset AND 0xC0 = 0xC0 then
       (if \<not> offset + 1 < length p then Some (Err ''Incomplete compression pointer'')
        else parse_name_loop p name (pointer_target (p ! offset) (p ! (offset + 1)))
               (Some (unwrap_or jump (offset + 2))))
     else if p ! offset = 0 then Some (Ok (name, unwrap_or jump (offset + 1)))
     else if \<not> offset + 1 + unat (p ! offset) \<le> length p then Some (Err ''Label extends beyond packet'')
     else parse_name_loop p
            ((if name = [] then [] else name @ ''.'') @ from_utf8_lossy (subslice p (offset + 1) (unat (p ! offset))))
            (offset + 1 + unat (p ! offset)) jump)"
  by (subst parse_name_loop.simps) (simp add: subslice_at_def)

text \<open>The codec's reader takes the same steps; its bounds make it stop.\<close>

lemma parse_name_loop_agrees:
  assumes "name_loop p ls c cs pf wl = Ok r" and "[] \<notin> set ls"
  shows "parse_name_loop p (dotted ls) c cs = Some (Ok (dotted (labels (fst r)), snd r))"
  using assms
proof (induction rule: name_loop_Ok_induct)
  case (pointer ls c cs pf wl)
  then show ?case by (subst parse_name_loop_unfold) simp
next
  case (root ls c cs pf wl)
  then show ?case by (subst parse_name_loop_unfold) simp
next
  case (label ls c cs pf wl)
  then have "subslice p (c + 1) (unat (p ! c)) \<noteq> []"
    using wf_label_subslice [of "c + 1" "unat (p ! c)" p] by (simp add: wf_label_def)
  moreover have "p ! c AND 0xC0 \<noteq> 0xC0" "p ! c \<noteq> 0" using label by auto
  ultimately show ?case using label dotted_snoc [of ls "subslice p (c + 1) (unat (p ! c))"]
    by (subst parse_name_loop_unfold) (simp add: add.assoc)
qed

lemma parse_name_agrees:
  assumes "name_from_wire p off = Ok (n, next)"
  shows "parse_name p off = Some (Ok (dotted (labels n), next))"
  using parse_name_loop_agrees [of p "[]" off None 0 1 "(n, next)"] assms
  by (simp add: name_from_wire_def parse_name_def)

interpretation json_names: name_reader "\<lambda>p off. the (parse_name p off)" "\<lambda>n. dotted (labels n)"
  by unfold_locales (simp add: parse_name_agrees from_wire.rd_enc)

subsection \<open>No panic\<close>

lemma parse_name_loop_not_Panic: "parse_name_loop p name c j \<noteq> Some Panic"
proof
  assume "parse_name_loop p name c j = Some Panic"
  then have "Panic \<noteq> (Panic :: (string, string \<times> nat) res)"
    by (rule parse_name_loop.raw_induct [where P = "\<lambda>p name c j r. r \<noteq> Panic", rotated])
      (auto split: if_splits res.splits)
  then show False by simp
qed

lemma parse_name_not_Panic [simp]: "parse_name p off \<noteq> Some Panic"
  by (simp add: parse_name_def parse_name_loop_not_Panic)

lemma txt_loop_not_Panic [simp]: "e \<le> length p \<Longrightarrow> txt_loop p e off s \<noteq> Panic"
proof (induction p e off s rule: txt_loop.induct)
  case (1 p e off s)
  show ?case
  proof (cases "off < e \<and> off + 1 + unat (p ! off) \<le> e")
    case True
    with 1 show ?thesis
      by (subst txt_loop.simps) (simp add: Let_def subslice_at_def)
  qed (use "1.prems" in \<open>auto simp: txt_loop.simps [of p e off s] Let_def\<close>)
qed

lemma caa_data_not_Panic [simp]: "off + n \<le> length p \<Longrightarrow> caa_data b64 p off n \<noteq> Panic"
  by (auto simp: caa_data_def rbind_eq_Panic)

lemma if_neq: "(b \<Longrightarrow> x \<noteq> k) \<Longrightarrow> (\<not> b \<Longrightarrow> y \<noteq> k) \<Longrightarrow> (if b then x else y) \<noteq> k"
  by simp

lemma record_data_not_Panic [simp]: "off + n \<le> length p \<Longrightarrow> record_data b64 p t off n \<noteq> Some Panic"
  unfolding record_data_def
  by (intro if_neq) (simp_all add: rbind_eq_Panic obind_Panic split_beta)

lemma parse_rrs_not_Panic [simp]: "parse_rrs b64 p off n \<noteq> Some Panic"
  by (induction n arbitrary: off) (auto simp: obind_Panic Let_def split: prod.splits)

lemma parse_json_questions_not_Panic [simp]: "parse_json_questions p off n \<noteq> Some Panic"
  by (induction n arbitrary: off) (auto simp: obind_Panic split: prod.splits)

lemma json_section_not_Panic [simp]: "json_section b64 p off n \<noteq> Some Panic"
  by (auto simp: json_section_def obind_Panic split: prod.splits)

lemma parse_dns_to_json_not_Panic: "parse_dns_to_json b64 p \<noteq> Some Panic"
  by (auto simp: parse_dns_to_json_def obind_Panic Let_def split: prod.splits)

subsection \<open>Names that are never read to the end\<close>

lemma parse_name_loop_to_itself:
  assumes "c + 1 < length p" "p ! c AND 0xC0 = 0xC0" "pointer_target (p ! c) (p ! (c + 1)) = c"
  shows "parse_name_loop p name c j = None"
proof (rule ccontr)
  assume "parse_name_loop p name c j \<noteq> None"
  then obtain r where "parse_name_loop p name c j = Some r" by blast
  then have "\<not> (c + 1 < length p \<and> p ! c AND 0xC0 = 0xC0 \<and> pointer_target (p ! c) (p ! (c + 1)) = c)"
    by (rule parse_name_loop.raw_induct [where P = "\<lambda>p name c j r. \<not> (c + 1 < length p \<and>
        p ! c AND 0xC0 = 0xC0 \<and> pointer_target (p ! c) (p ! (c + 1)) = c)", rotated])
      (auto split: if_splits res.splits)
  with assms show False by simp
qed

subsection \<open>The answer of a decoded message\<close>

text \<open>
  The JSON answer as a function of the message: the questions, and of every section the records of
  class IN that are not OPT records. The data of an address is its text and that of the types
  without a reader of their own the Base64 text of the RDATA; the types whose data the reader
  composes of names and strings are left out by \<open>plain_rr\<close>.
\<close>

definition shown_rr :: "ResourceRecord \<Rightarrow> bool" where
  "shown_rr r \<longleftrightarrow> rr_rr_class r = DNS_CLASS_IN \<and> rr_rr_type r \<noteq> RR_OPT"

definition plain_rr :: "ResourceRecord \<Rightarrow> bool" where
  "plain_rr r \<longleftrightarrow> shown_rr r \<longrightarrow> rr_to_u16 (rr_rr_type r) \<notin>
     {TYPE_CNAME, TYPE_NS, TYPE_PTR, TYPE_MX, TYPE_TXT, TYPE_SOA, TYPE_SRV, TYPE_CAA}"

definition plain_data :: "(packet \<Rightarrow> string) \<Rightarrow> ResourceRecord \<Rightarrow> string" where
  "plain_data b64 r =
    (if rr_rr_type r = RR_A \<and> length (rr_rdata r) = 4 then show_octets4 (octets4_of (rr_rdata r) 0)
     else if rr_rr_type r = RR_AAAA \<and> length (rr_rdata r) = 16 then show_aaaa (rr_rdata r) 0
     else b64 (rr_rdata r))"

definition json_rr :: "(packet \<Rightarrow> string) \<Rightarrow> ResourceRecord \<Rightarrow> DnsAnswer" where
  "json_rr b64 r = \<lparr>ja_name = dotted (labels (rr_name r)), ja_type = rr_to_u16 (rr_rr_type r),
     ja_ttl = rr_ttl r, ja_data = plain_data b64 r\<rparr>"

definition json_rrs :: "(packet \<Rightarrow> string) \<Rightarrow> ResourceRecord list \<Rightarrow> DnsAnswer list option" where
  "json_rrs b64 rs = (case filter shown_rr rs of [] \<Rightarrow> None | rs' \<Rightarrow> Some (map (json_rr b64) rs'))"

definition json_question :: "Question \<Rightarrow> DnsQuestion" where
  "json_question q = \<lparr>jq_name = dotted (labels (q_name q)), jq_type = rr_to_u16 (q_qtype q)\<rparr>"

definition json_of_msg :: "(packet \<Rightarrow> string) \<Rightarrow> Msg \<Rightarrow> DnsJsonResponse" where
  "json_of_msg b64 m = (let h = m_header m in
    \<lparr>jr_status = unat (h_rcode h), jr_tc = h_truncated h, jr_rd = h_recursion_desired h,
     jr_ra = h_recursion_available h, jr_ad = h_authenticated_data h, jr_cd = h_checking_disabled h,
     jr_question = (if m_questions m = [] then None else Some (map json_question (m_questions m))),
     jr_answer = json_rrs b64 (m_answers m), jr_authority = json_rrs b64 (m_authorities m),
     jr_additional = json_rrs b64 (m_additionals m), jr_comment = None\<rparr>)"

lemma type_code_eq:
  "rr_from_u16 w = RR_A \<longleftrightarrow> w = TYPE_A"
  "rr_from_u16 w = RR_AAAA \<longleftrightarrow> w = TYPE_AAAA" "rr_from_u16 w = RR_OPT \<longleftrightarrow> w = DNS_TYPE_OPT"
  by (simp_all add: rr_from_u16_eq_iff TYPE_A_def TYPE_AAAA_def DNS_TYPE_OPT_def)

lemma json_classes: "CLASS_IN = DNS_CLASS_IN"
  by (simp add: CLASS_IN_def DNS_CLASS_IN_def)

lemma parse_json_questions_agrees:
  "unpack_questions p off n = Ok (qs, nx) \<Longrightarrow>
   parse_json_questions p off n = Some (Ok (map json_question qs, nx))"
proof (induction n arbitrary: off qs)
  case (Suc n)
  from Suc.prems obtain name off' qs' where
    name: "name_from_wire p off = Ok (name, off')" and off': "\<not> length p - off' < 4" and
    rest: "unpack_questions p (off' + 4) n = Ok (qs', nx)" and
    qs: "qs = \<lparr>q_name = name, q_qtype = rr_from_u16 (get_u16 p off'), q_qclass = get_u16 p (off' + 2)\<rparr> # qs'"
    by (auto split: prod.splits if_splits)
  with Suc.IH [OF rest] parse_name_agrees [OF name] name_from_wire_bounds [OF name] show ?case
    by (simp add: json_question_def)
qed (simp add: eq_commute)

lemma get_u16_subslice: "i + 2 \<le> n \<Longrightarrow> off + n \<le> length p \<Longrightarrow> get_u16 (subslice p off n) i = get_u16 p (off + i)"
  by (simp add: get_u16_def subslice_def)

lemma record_data_plain:
  assumes "off + n \<le> length p" "t \<noteq> DNS_TYPE_OPT"
    and "t \<notin> {TYPE_CNAME, TYPE_NS, TYPE_PTR, TYPE_MX, TYPE_TXT, TYPE_SOA, TYPE_SRV, TYPE_CAA}"
    and "rr_rr_type r = rr_from_u16 t" "rr_rdata r = subslice p off n"
  shows "record_data b64 p t off n = Some (Ok (plain_data b64 r))"
proof -
  have data: "subslice_at p off n = Ok (rr_rdata r)" "length (rr_rdata r) = n"
    and at: "\<And>i. i + 2 \<le> n \<Longrightarrow> get_u16 (rr_rdata r) i = get_u16 p (off + i)"
    using assms(1,5) by (auto simp: get_u16_subslice)
  have "n = 16 \<Longrightarrow> show_aaaa p off = show_aaaa (rr_rdata r) 0"
    by (auto simp: show_aaaa_def at intro!: arg_cong [where f = show_groups] map_cong)
  with assms(3,4) data show ?thesis
    by (simp add: record_data_def plain_data_def type_code_eq TYPE_A_def TYPE_AAAA_def)
qed

lemma parse_rrs_agrees:
  "unpack_rr_section p off n = Ok (rs, next) \<Longrightarrow> list_all plain_rr rs \<Longrightarrow>
   parse_rrs b64 p off n = Some (Ok (map (json_rr b64) (filter shown_rr rs), next))"
proof (induction n arbitrary: off rs)
  case (Suc n)
  from Suc.prems(1) obtain name off' rs' r where
    name: "name_from_wire p off = Ok (name, off')" and rs: "rs = r # rs'" and
    b: "off' + 10 + unat (get_u16 p (off' + 8)) \<le> length p" and
    rest: "unpack_rr_section p (off' + 10 + unat (get_u16 p (off' + 8))) n = Ok (rs', next)" and
    r: "r = \<lparr>rr_name = name, rr_rr_type = rr_from_u16 (get_u16 p off'),
      rr_rr_class = get_u16 p (off' + 2), rr_ttl = get_u32 p (off' + 4),
      rr_rdata = subslice p (off' + 10) (unat (get_u16 p (off' + 8)))\<rparr>"
    by (auto simp: Let_def split: prod.splits if_splits)
  have f: "rr_name r = name" "rr_rr_type r = rr_from_u16 (get_u16 p off')"
    "rr_rr_class r = get_u16 p (off' + 2)" "rr_ttl r = get_u32 p (off' + 4)"
    by (simp_all add: r)
  have IH: "parse_rrs b64 p (off' + 10 + unat (get_u16 p (off' + 8))) n
      = Some (Ok (map (json_rr b64) (filter shown_rr rs'), next))"
    using Suc.IH [OF rest] Suc.prems(2) rs by simp
  show ?case
  proof (cases "shown_rr r")
    case True
    then have "record_data b64 p (get_u16 p off') (off' + 10) (unat (get_u16 p (off' + 8)))
        = Some (Ok (plain_data b64 r))"
      using Suc.prems(2) b by (intro record_data_plain) (auto simp: rs r plain_rr_def shown_rr_def type_code_eq)
    with True IH name b show ?thesis
      by (simp add: parse_name_agrees rs f json_rr_def [of b64 r] shown_rr_def [of r] json_classes
          type_code_eq Let_def)
  next
    case False
    with IH name b show ?thesis
      by (auto simp: parse_name_agrees rs f shown_rr_def [of r] json_classes type_code_eq Let_def)
  qed
qed simp

lemmas json_types = TYPE_A_def TYPE_NS_def TYPE_CNAME_def TYPE_SOA_def TYPE_PTR_def TYPE_MX_def
  TYPE_TXT_def TYPE_AAAA_def TYPE_SRV_def TYPE_CAA_def DNS_TYPE_OPT_def

lemma json_section_agrees:
  assumes "unpack_rr_section p off n = Ok (rs, next)" "list_all plain_rr rs"
  shows "json_section b64 p off n = Some (Ok (json_rrs b64 rs, next))"
proof (cases "n = 0")
  case True
  with assms show ?thesis by (simp add: json_section_def json_rrs_def)
next
  case False
  with parse_rrs_agrees [OF assms, of b64] show ?thesis
    by (cases "filter shown_rr rs") (simp_all del: obind_Ok add: json_section_def json_rrs_def)
qed

lemma rcode_octet: "ucast (get_u16 p 2 AND 0x0f) = p ! 3 AND (0x0f :: byte)"
proof -
  have "ucast (be16 a b) = b" for a b
    by (rule bit_word_eqI) (auto simp: be16_def bit_simps)
  then show ?thesis by (simp add: get_u16_def unsigned_and_eq)
qed

text \<open>A response whose CNAME record has RDATA that points to itself.\<close>

definition cname_to_itself :: packet where
  "cname_to_itself =
    [0x12, 0x34, 0x81, 0x80, 0, 1, 0, 1, 0, 0, 0, 0,
     1, 0x61, 0, 0, 1, 0, 1,
     0xC0, 0x0C, 0, 5, 0, 1, 0, 0, 0, 60, 0, 2, 0xC0, 0x1F]"

lemma cname_to_itself_names:
  "parse_name cname_to_itself 12 = Some (Ok (''a'', 15))"
  "parse_name cname_to_itself 19 = Some (Ok (''a'', 21))"
  "parse_name cname_to_itself 31 = None"
proof -
  have "name_from_wire cname_to_itself 12 = Ok (\<lparr>labels = [[0x61]]\<rparr>, 15)"
    "name_from_wire cname_to_itself 19 = Ok (\<lparr>labels = [[0x61]]\<rparr>, 21)"
    by code_simp+
  moreover have "from_utf8_lossy [0x61] = ''a''"
    by code_simp
  ultimately show "parse_name cname_to_itself 12 = Some (Ok (''a'', 15))"
    "parse_name cname_to_itself 19 = Some (Ok (''a'', 21))"
    by (simp_all add: parse_name_agrees)
  have "pointer_target (cname_to_itself ! 31) (cname_to_itself ! 32) = 31"
    "cname_to_itself ! 31 AND 0xC0 = 0xC0" "31 + 1 < length cname_to_itself"
    by code_simp+
  then show "parse_name cname_to_itself 31 = None"
    by (simp add: parse_name_def parse_name_loop_to_itself)
qed

text \<open>
  C32 (equivalence): On every packet that the message codec decodes and whose shown records are
  addresses or of types without a reader of their own, the JSON reader returns, and what it returns
  is the message: status and flags, the questions, and section by section the records of class IN
  that are not OPT records with their names, types, times to live and data.
\<close>
theorem json_reader_shows_message:
  assumes "msg_unpack p = Ok m" and "list_all plain_rr (msg_rrs m)"
  shows "parse_dns_to_json b64 p = Some (Ok (json_of_msg b64 m))"
proof -
  from assms(1) obtain qs an ns ar o1 o2 o3 where
    len: "12 \<le> length p" and
    u: "unpack_questions p 12 (unat (get_u16 p 4)) = Ok (qs, o1)"
      "unpack_rr_section p o1 (unat (get_u16 p 6)) = Ok (an, o2)"
      "unpack_rr_section p o2 (unat (get_u16 p 8)) = Ok (ns, o3)"
      "unpack_rr_section p o3 (unat (get_u16 p 10)) = Ok (ar, length p)" and
    m: "m = \<lparr>m_header = header_from_wire (get_u16 p 0) (get_u16 p 2), m_compress = False,
      m_questions = qs, m_answers = an, m_authorities = ns, m_additionals = ar\<rparr>"
    by (auto simp: msg_unpack_def DNS_HEADER_SIZE_def split: prod.splits if_splits)
  have plain: "list_all plain_rr an" "list_all plain_rr ns" "list_all plain_rr ar"
    using assms(2) by (auto simp: m msg_rrs_def)
  have status: "unat (p ! 3 AND 0x0F) = unat (h_rcode (m_header m))"
    by (simp add: m header_from_wire_def rcode_octet)
  have "0 < unat (get_u16 p 4) \<longleftrightarrow> qs \<noteq> []"
    using unpack_questions_wf [OF u(1)] by (metis length_greater_0_conv)
  with len plain status show ?thesis
    by (simp add: parse_dns_to_json_def Let_def parse_json_questions_agrees [OF u(1)]
        json_section_agrees [OF u(2)] json_section_agrees [OF u(3)] json_section_agrees [OF u(4)]
        json_of_msg_def m header_from_wire_def)
qed

theorem json_reader_shows_message_witness:
  "parse_dns_to_json (\<lambda>_. []) (enc_msg sample_msg) = Some (Ok (json_of_msg (\<lambda>_. []) sample_msg))"
proof (rule json_reader_shows_message)
  show "msg_unpack (enc_msg sample_msg) = Ok sample_msg"
    using msg_unpack_enc [OF wf_sample_msg] by (simp add: sample_msg_def)
qed code_simp

text \<open>
  C33 (termination): There is a packet, one that passes the check of upstream answers, on which
  the JSON reader does not return: the RDATA of its CNAME record is a compression pointer to itself,
  which the codec never reads and \<open>parse_name\<close> follows for ever.
\<close>
theorem json_reader_may_not_return:
  "validate_packet cname_to_itself \<and> parse_dns_to_json b64 cname_to_itself = None"
proof
  show "validate_packet cname_to_itself" by code_simp
  have [simp]: "length cname_to_itself = 33" by code_simp
  have [simp]: "get_u16 cname_to_itself 4 = 1" "get_u16 cname_to_itself 6 = 1"
    "get_u16 cname_to_itself 21 = TYPE_CNAME" "get_u16 cname_to_itself 23 = CLASS_IN"
    "get_u16 cname_to_itself 29 = 2"
    by code_simp+
  have "parse_json_questions cname_to_itself 12 (Suc 0)
      = Some (Ok ([\<lparr>jq_name = ''a'', jq_type = get_u16 cname_to_itself 15\<rparr>], 19))"
    by (simp del: obind_Ok add: cname_to_itself_names)
  moreover have "parse_rrs b64 cname_to_itself 19 (Suc 0) = None"
    by (simp del: obind_Ok add: cname_to_itself_names record_data_def Let_def) (simp add: json_types)
  ultimately show "parse_dns_to_json b64 cname_to_itself = None"
    by (simp del: obind_Ok add: parse_dns_to_json_def json_section_def Let_def)
qed

subsection \<open>The query of a name\<close>

text \<open>The message that \<open>build_dns_query\<close> writes: one question and, when it is asked for, an OPT record.\<close>

definition json_query_name :: "string \<Rightarrow> Name" where
  "json_query_name name = \<lparr>labels = map (map char_byte) (filter (\<lambda>l. l \<noteq> []) (split_on (CHR ''.'') name))\<rparr>"

definition json_query_msg :: "byte \<Rightarrow> byte \<Rightarrow> DnsJsonQuery \<Rightarrow> Msg" where
  "json_query_msg id0 id1 query =
    \<lparr>m_header = header_from_wire (be16 id0 id1) (if q_json_cd query = Some True then 0x0110 else 0x0100),
     m_compress = False,
     m_questions = [\<lparr>q_name = json_query_name (q_json_name query),
       q_qtype = rr_from_u16 (unwrap_or (q_json_type query) TYPE_A), q_qclass = DNS_CLASS_IN\<rparr>],
     m_answers = [], m_authorities = [],
     m_additionals = (if q_json_do query = Some True \<or> q_json_subnet query \<noteq> None
       then [\<lparr>rr_name = \<lparr>labels = []\<rparr>, rr_rr_type = RR_OPT, rr_rr_class = 4096,
              rr_ttl = (if q_json_do query = Some True then 0x8000 else 0),
              rr_rdata = json_opt_data (q_json_subnet query)\<rparr>] else [])\<rparr>"

lemma json_labels_enc: "json_labels name @ [0] = enc_name (json_query_name name)"
  by (simp add: json_labels_def enc_name_def json_query_name_def enc_label_def comp_def)

lemma unwrap_or_False: "unwrap_or b False \<longleftrightarrow> b = Some True"
  by (cases b) auto

lemma length_json_opt_data: "length (json_opt_data s) \<le> 11"
  by (auto simp: json_opt_data_def split: option.splits)

lemma build_dns_query_enc: "build_dns_query id0 id1 query = enc_msg (json_query_msg id0 id1 query)"
proof -
  have h: "h_id (header_from_wire i b) = i" for i b by (simp add: header_from_wire_def)
  have u: "u16_be 0x0110 = [1, 0x10]" "u16_be 0x0100 = [1, 0]" "u16_be 0 = [0, 0]" "u16_be 4096 = [0x10, 0]"
    "u32_be 0x8000 = [0, 0] @ u16_be 0x8000" "u32_be 0 = [0, 0] @ u16_be 0"
    "u16_be 41 = u16_be DNS_TYPE_OPT"
    by code_simp+
  show ?thesis
    by (simp add: build_dns_query_def json_query_msg_def enc_msg_def enc_header_def h u unwrap_or_False
        enc_questions_def enc_question_def enc_rrs_def enc_rr_def enc_rr_head_def Let_def
        json_classes flip: json_labels_enc)
      (simp add: enc_name_def)
qed

lemma wf_json_query_msg:
  "wf_name (json_query_name (q_json_name query)) \<Longrightarrow> wf_msg (json_query_msg id0 id1 query)"
  using length_json_opt_data [of "q_json_subnet query"]
  by (simp add: wf_msg_def json_query_msg_def wf_question_def wf_rr_def)
    (simp add: wf_name_def name_wire_len_def MAX_DOMAIN_NAME_WIRE_OCTETS_def)

text \<open>
  For a name whose labels have at most 63 octets and whose wire form has at most
  255, the packet that \<open>build_dns_query\<close> writes decodes to the query it stands for: the
  identifier given, recursion desired and the CD flag as asked, one question for the labels of the
  name, and an OPT record with the DO flag and the client subnet exactly when one of the two is
  asked for.
\<close>
lemma json_query_decodes:
  assumes "wf_name (json_query_name (q_json_name query))"
  shows "msg_unpack (build_dns_query id0 id1 query) = Ok (json_query_msg id0 id1 query)"
proof -
  have "json_query_msg id0 id1 query\<lparr>m_compress := False\<rparr> = json_query_msg id0 id1 query"
    by (simp add: json_query_msg_def)
  with msg_unpack_enc [OF wf_json_query_msg [OF assms]] show ?thesis
    by (simp add: build_dns_query_enc)
qed

text \<open>
  The length octet of a label is its length modulo 256: a label of 256 octets writes the root
  label, and the question that upstreams read is not the one that was asked.
\<close>

lemma long_label_becomes_root:
  assumes "q_json_name query = replicate 256 CHR ''a''"
  shows "build_dns_query id0 id1 query ! 12 = 0"
proof -
  have "split_on (CHR ''.'') (replicate 256 CHR ''a'') = [replicate 256 CHR ''a'']"
    by code_simp
  with assms have "json_labels (q_json_name query) ! 0 = 0" "json_labels (q_json_name query) \<noteq> []"
    by (simp_all add: json_labels_def)
  then show ?thesis
    by (simp add: build_dns_query_def Let_def nth_append u16_be_def)
qed

end
