(* ===== verification/Odoh.thy ===== *)
theory Odoh
  imports Upstream_Errors
begin

text \<open>
  Keys of Oblivious DNS over HTTPS (\<open>src/libdoh/src/odoh.rs\<close>): the key pair with its published
  configuration, the decryption of a query, the encryption of its answer, and the rotation of the
  key.

  The cryptography is the crate \<open>odoh_rs\<close>: its functions are the fields of a parameter. Random
  numbers (key pairs and nonces) are arguments. Nothing is assumed about the crate except where a
  lemma names \<open>seals\<close>, what the crate documents: a query sealed for a key is opened by it,
  and the answer encrypted in its context is opened by the client who sealed it.
\<close>

definition ODOH_KEY_ROTATION_SECS :: nat where "ODOH_KEY_ROTATION_SECS = 86400"

subsection \<open>The crate\<close>

text \<open>
  \<open>'k\<close> are key pairs, \<open>'m\<close> messages, \<open>'p\<close> plaintexts, \<open>'s\<close> the secrets shared with a client.
  Configurations are serialised from the public half of a key pair; the error is its text.
\<close>

record ('k, 'm, 'p, 's) odoh_rs =
  oc_serialize_configs :: "'k \<Rightarrow> string + packet"
  oc_deserialize :: "packet \<Rightarrow> 'm option"
  oc_key_id :: "'m \<Rightarrow> packet"
  oc_identifier :: "'k \<Rightarrow> packet option"
  oc_decrypt_query :: "'m \<Rightarrow> 'k \<Rightarrow> ('p \<times> 's) option"
  oc_into_msg :: "'p \<Rightarrow> packet"
  oc_plaintext :: "packet \<Rightarrow> nat \<Rightarrow> 'p"
  oc_encrypt_response :: "'p \<Rightarrow> 'p \<Rightarrow> 's \<Rightarrow> packet \<Rightarrow> 'm option"
  oc_serialize :: "'m \<Rightarrow> packet option"

subsection \<open>Keys\<close>

record 'k ODoHPublicKey =
  key_pair :: 'k
  serialized_configs :: packet

record ('p, 's) ODoHQueryContext =
  qc_query :: 'p
  qc_server_secret :: 's

definition odoh_key_new :: "('k, 'm, 'p, 's) odoh_rs \<Rightarrow> 'k \<Rightarrow> DoHError + 'k ODoHPublicKey" where
  "odoh_key_new c new_pair =
    (case oc_serialize_configs c new_pair of
       Inl e \<Rightarrow> Inl (ODoHConfigError e)
     | Inr configs \<Rightarrow> Inr \<lparr>key_pair = new_pair, serialized_configs = configs\<rparr>)"

definition into_config :: "'k ODoHPublicKey \<Rightarrow> packet" where
  "into_config key = serialized_configs key"

definition decrypt_query ::
  "('k, 'm, 'p, 's) odoh_rs \<Rightarrow> 'k ODoHPublicKey \<Rightarrow> packet \<Rightarrow> DoHError + (packet \<times> ('p, 's) ODoHQueryContext)" where
  "decrypt_query c key encrypted_query =
    (case oc_deserialize c encrypted_query of
       None \<Rightarrow> Inl InvalidData
     | Some odoh_query \<Rightarrow>
         (case oc_identifier c (key_pair key) of
            None \<Rightarrow> Inl InvalidData
          | Some key_id \<Rightarrow>
              if key_id \<noteq> oc_key_id c odoh_query then Inl StaleKey
              else
                (case oc_decrypt_query c odoh_query (key_pair key) of
                   None \<Rightarrow> Inl InvalidData
                 | Some (query, server_secret) \<Rightarrow>
                     Inr (oc_into_msg c query, \<lparr>qc_query = query, qc_server_secret = server_secret\<rparr>))))"

definition encrypt_response ::
  "('k, 'm, 'p, 's) odoh_rs \<Rightarrow> packet \<Rightarrow> ('p, 's) ODoHQueryContext \<Rightarrow> packet \<Rightarrow> DoHError + packet" where
  "encrypt_response c response_nonce context response_body =
    (case oc_encrypt_response c (qc_query context) (oc_plaintext c response_body 0)
        (qc_server_secret context) response_nonce of
       None \<Rightarrow> Inl InvalidData
     | Some encrypted_response \<Rightarrow>
         (case oc_serialize c encrypted_response of None \<Rightarrow> Inl InvalidData | Some bytes \<Rightarrow> Inr bytes))"

subsection \<open>Rotation\<close>

text \<open>
  The state of the rotator is its current key; a rotation that fails keeps it. A first key that cannot
  be made is a panic, never an error.
\<close>

definition odoh_rotator_new :: "('k, 'm, 'p, 's) odoh_rs \<Rightarrow> 'k \<Rightarrow> (DoHError, 'k ODoHPublicKey) res" where
  "odoh_rotator_new c new_pair = (case odoh_key_new c new_pair of Inr key \<Rightarrow> Ok key | Inl e \<Rightarrow> Panic)"

definition odoh_rotate :: "('k, 'm, 'p, 's) odoh_rs \<Rightarrow> 'k \<Rightarrow> 'k ODoHPublicKey \<Rightarrow> 'k ODoHPublicKey" where
  "odoh_rotate c new_pair current_key =
    (case odoh_key_new c new_pair of Inr key \<Rightarrow> key | Inl e \<Rightarrow> current_key)"

text \<open>The key after the rotations with the given key pairs.\<close>

definition odoh_rotations :: "('k, 'm, 'p, 's) odoh_rs \<Rightarrow> 'k list \<Rightarrow> 'k ODoHPublicKey \<Rightarrow> 'k ODoHPublicKey" where
  "odoh_rotations c pairs key = foldl (\<lambda>key new_pair. odoh_rotate c new_pair key) key pairs"

subsection \<open>What the crate promises\<close>

text \<open>
  A client seals a query for the key that published a configuration, and opens an answer with the
  secret of its query. Messages of this format hold between one octet and 65535, and the nonce of a
  response has the 16 octets of its type.
\<close>

definition RESPONSE_NONCE_LEN :: nat where "RESPONSE_NONCE_LEN = 16"

definition fits_odoh :: "packet \<Rightarrow> bool" where
  "fits_odoh p \<longleftrightarrow> 0 < length p \<and> length p \<le> 65535"

definition seals ::
  "('k, 'm, 'p, 's) odoh_rs \<Rightarrow> 'k \<Rightarrow> (packet \<Rightarrow> packet) \<Rightarrow> (packet \<Rightarrow> packet \<Rightarrow> packet option) \<Rightarrow> bool" where
  "seals c kp seal open_answer \<longleftrightarrow>
    (\<forall>query nonce answer. fits_odoh query \<and> fits_odoh answer \<and> length nonce = RESPONSE_NONCE_LEN \<longrightarrow>
       (\<exists>msg p s e bytes. oc_deserialize c (seal query) = Some msg \<and> oc_identifier c kp = Some (oc_key_id c msg)
       \<and> oc_decrypt_query c msg kp = Some (p, s) \<and> oc_into_msg c p = query
       \<and> oc_encrypt_response c p (oc_plaintext c answer 0) s nonce = Some e
       \<and> oc_serialize c e = Some bytes \<and> open_answer query bytes = Some answer))"

lemma seals_answer:
  assumes "seals c (key_pair key) seal open_answer"
    and "fits_odoh query" "fits_odoh answer" "length nonce = RESPONSE_NONCE_LEN"
  shows "\<exists>context bytes. decrypt_query c key (seal query) = Inr (query, context)
    \<and> encrypt_response c nonce context answer = Inr bytes \<and> open_answer query bytes = Some answer"
proof -
  from assms obtain msg p s e bytes where
    "oc_deserialize c (seal query) = Some msg" "oc_identifier c (key_pair key) = Some (oc_key_id c msg)"
    "oc_decrypt_query c msg (key_pair key) = Some (p, s)" "oc_into_msg c p = query"
    "oc_encrypt_response c p (oc_plaintext c answer 0) s nonce = Some e"
    "oc_serialize c e = Some bytes" "open_answer query bytes = Some answer"
    unfolding seals_def by metis
  then show ?thesis
    by (intro exI [of _ "\<lparr>qc_query = p, qc_server_secret = s\<rparr>"] exI [of _ bytes])
      (simp add: decrypt_query_def encrypt_response_def)
qed

text \<open>The published configuration is always the one of the key that decrypts.\<close>

definition published :: "('k, 'm, 'p, 's) odoh_rs \<Rightarrow> 'k ODoHPublicKey \<Rightarrow> bool" where
  "published c key \<longleftrightarrow> oc_serialize_configs c (key_pair key) = Inr (into_config key)"

lemma published_new: "odoh_key_new c kp = Inr key \<Longrightarrow> published c key"
  by (auto simp: odoh_key_new_def published_def into_config_def split: sum.splits)

lemma published_rotate: "published c key \<Longrightarrow> published c (odoh_rotate c kp key)"
  by (auto simp: odoh_rotate_def published_new split: sum.splits)

lemma published_rotations: "published c key \<Longrightarrow> published c (odoh_rotations c pairs key)"
  by (induction pairs arbitrary: key) (simp_all add: odoh_rotations_def published_rotate)

end
