(* ===== verification/Http_Front.thy ===== *)
theory Http_Front
  imports Proxy Json_Api Odoh
begin

text \<open>
  The HTTP front end of \<open>src/libdoh/src/lib.rs\<close>: the dispatch of requests over HTTP/1 and HTTP/2
  (\<open>call\<close> and the \<open>serve_\<close> functions) and over HTTP/3 (\<open>handle_h3_request\<close>), the choice of the
  content type, the extraction of the query from the URL or the body, and the address a client is
  taken to have (\<open>extract_client_ip\<close> in \<open>src/libdoh/src/edns_ecs.rs\<close>).

  A request is its parsed parts. The path of a query (\<open>proxy\<close>), the key and the decoders of
  crates (Base64, percent-encoding, JSON) are fields of an environment. A handler returns a response
  and never an HTTP error; over HTTP/3 it returns the frames it sends and its own outcome. Where the
  JSON interface is reached the outcome is an option, \<^term>\<open>None\<close> when it does not return.
\<close>

definition STALE_IF_ERROR_SECS :: nat where "STALE_IF_ERROR_SECS = 86400"
definition STALE_WHILE_REVALIDATE_SECS :: nat where "STALE_WHILE_REVALIDATE_SECS = 60"
definition DNS_QUERY_PARAM :: string where "DNS_QUERY_PARAM = ''dns''"

subsection \<open>Requests and responses\<close>

datatype DoHType = Standard | Oblivious | Json

fun doh_type_str :: "DoHType \<Rightarrow> string" where
  "doh_type_str Standard = ''application/dns-message''"
| "doh_type_str Oblivious = ''application/oblivious-dns-message''"
| "doh_type_str Json = ''application/dns-json''"

text \<open>
  Header names are lower case, as the library keeps them; \<open>headers.get\<close> is the first value. Of a
  body the code sees the upper bound of its size, when there is one, and its octets, unless reading
  fails.
\<close>

type_synonym headers = "(string \<times> string) list"

record http_body =
  b_upper :: "nat option"
  b_collect :: "packet option"

record http_request =
  rq_method :: string
  rq_path :: string
  rq_query :: "string option"
  rq_headers :: headers
  rq_body :: http_body

record http_response =
  rs_status :: nat
  rs_headers :: headers
  rs_body :: packet

record H3Response =
  h3r_status :: nat
  h3r_content_type :: string
  h3r_body :: packet
  h3r_cache_control :: "string option"

text \<open>The response builder fails on a header value with a control character.\<close>

definition header_value_ok :: "string \<Rightarrow> bool" where
  "header_value_ok v \<longleftrightarrow> list_all (\<lambda>c. let n = of_char c :: nat in 32 \<le> n \<and> n \<noteq> 127 \<or> n = 9) v"

definition build_http :: "nat \<Rightarrow> headers \<Rightarrow> packet \<Rightarrow> http_response option" where
  "build_http status hs body =
    (if list_all (header_value_ok \<circ> snd) hs
     then Some \<lparr>rs_status = status, rs_headers = hs, rs_body = body\<rparr> else None)"

definition http_error :: "nat \<Rightarrow> http_response" where
  "http_error status = \<lparr>rs_status = status, rs_headers = [], rs_body = []\<rparr>"

definition long_cache_control :: string where
  "long_cache_control = ''max-age=31536000, immutable''"

definition http_error_with_cache :: "nat \<Rightarrow> http_response" where
  "http_error_with_cache status =
    \<lparr>rs_status = status, rs_headers = [(''cache-control'', long_cache_control)], rs_body = []\<rparr>"

definition cache_control_for :: "nat \<Rightarrow> string" where
  "cache_control_for ttl = ''max-age='' @ show_nat ttl @ '', stale-if-error='' @ show_nat STALE_IF_ERROR_SECS
     @ '', stale-while-revalidate='' @ show_nat STALE_WHILE_REVALIDATE_SECS"

definition build_response :: "packet \<Rightarrow> nat \<Rightarrow> string \<Rightarrow> bool \<Rightarrow> DoHError + http_response" where
  "build_response packet ttl content_type cors =
    (case build_http 200
        ([(''content-length'', show_nat (length packet)), (''content-type'', content_type),
          (''cache-control'', cache_control_for ttl)]
         @ (if cors then [(''access-control-allow-origin'', ''*'')] else [])) packet of
       None \<Rightarrow> Inl InvalidData
     | Some response \<Rightarrow> Inr response)"

subsection \<open>Content types\<close>

definition content_type_of :: "string \<Rightarrow> DoHType option" where
  "content_type_of s =
    (if s = doh_type_str Standard then Some Standard
     else if s = doh_type_str Oblivious then Some Oblivious
     else if s = doh_type_str Json then Some Json else None)"

definition media_type :: "string \<Rightarrow> string" where
  "media_type part = to_ascii_lowercase (trim (hd (split_on (CHR '';'') part)))"

definition acceptable_content_type :: "headers \<Rightarrow> string list \<Rightarrow> string option" where
  "acceptable_content_type hs content_types =
    (case map_of hs ''accept'' of
       None \<Rightarrow> None
     | Some accept \<Rightarrow>
         List.find (\<lambda>ct. ct \<in> set content_types)
           (map (media_type \<circ> trim) (split_on (CHR '','') (unwrap_or (header_to_str accept) []))))"

definition parse_content_type :: "headers \<Rightarrow> http_response + DoHType" where
  "parse_content_type hs =
    (case (case map_of hs ''content-type'' of
             None \<Rightarrow>
               (case acceptable_content_type hs (map doh_type_str [Standard, Oblivious, Json]) of
                  None \<Rightarrow> Inl (http_error_with_cache 406)
                | Some content_type \<Rightarrow> Inr content_type)
           | Some content_type \<Rightarrow>
               (case header_to_str content_type of
                  None \<Rightarrow> Inl (http_error_with_cache 400)
                | Some content_type \<Rightarrow> Inr content_type)) of
       Inl response \<Rightarrow> Inl response
     | Inr content_type \<Rightarrow>
         (case content_type_of (to_ascii_lowercase content_type) of
            Some doh_type \<Rightarrow> Inr doh_type
          | None \<Rightarrow> Inl (http_error_with_cache 415)))"

text \<open>HTTP/3 hands over text, in which white space is that of Unicode.\<close>

definition h3_media_type :: "string \<Rightarrow> string" where
  "h3_media_type part = to_ascii_lowercase (trim_unicode (hd (split_on (CHR '';'') part)))"

definition parse_h3_content_type :: "string option \<Rightarrow> string option \<Rightarrow> nat + DoHType" where
  "parse_h3_content_type content_type accept =
    (case (case content_type of
             Some value \<Rightarrow> Inr value
           | None \<Rightarrow>
               (case accept of
                  None \<Rightarrow> Inl 406
                | Some accept \<Rightarrow>
                    (case List.find (\<lambda>ct. ct \<in> set (map doh_type_str [Standard, Oblivious, Json]))
                        (map (h3_media_type \<circ> trim_unicode) (split_on (CHR '','') accept)) of
                       None \<Rightarrow> Inl 406
                     | Some ct \<Rightarrow> Inr ct))) of
       Inl status \<Rightarrow> Inl status
     | Inr content_type \<Rightarrow>
         (case content_type_of (h3_media_type content_type) of
            Some doh_type \<Rightarrow> Inr doh_type
          | None \<Rightarrow> Inl 415))"

subsection \<open>The environment of the handlers\<close>

record ('k, 'm, 'p, 's) server =
  sv_path :: string
  sv_odoh_configs_path :: string
  sv_disable_post :: bool
  sv_allow_odoh_post :: bool
  sv_enable_ecs :: bool
  sv_remote_addr :: "SocketAddr option"
  sv_proxy :: "packet \<Rightarrow> ip_addr option \<Rightarrow> (DoHError, DnsResponse) res"
  sv_odoh_rs :: "('k, 'm, 'p, 's) odoh_rs"
  sv_odoh_key :: "'k ODoHPublicKey"
  sv_nonce :: packet
  sv_random_id :: "byte \<times> byte"
  sv_base64_url :: "string \<Rightarrow> packet option"
  sv_base64_std :: "packet \<Rightarrow> string"
  sv_url_decode :: "string \<Rightarrow> string option"
  sv_json :: "DnsJsonResponse \<Rightarrow> packet option"
  sv_json_comment :: "nat \<Rightarrow> string \<Rightarrow> packet"

subsection \<open>The client's address\<close>

definition header_ip :: "(string \<Rightarrow> string) \<Rightarrow> string option \<Rightarrow> ip_addr option" where
  "header_ip pick header = Option.bind (Option.bind header header_to_str) (parse_ip_addr \<circ> pick)"

definition extract_client_ip :: "headers \<Rightarrow> SocketAddr option \<Rightarrow> ip_addr option" where
  "extract_client_ip hs remote_addr =
    (case header_ip (\<lambda>xff. trim (hd (split_on (CHR '','') xff))) (map_of hs ''x-forwarded-for'') of
       Some ip \<Rightarrow> Some ip
     | None \<Rightarrow>
         (case header_ip (\<lambda>xri. xri) (map_of hs ''x-real-ip'') of
            Some ip \<Rightarrow> Some ip
          | None \<Rightarrow> map_option sa_ip remote_addr))"

definition http_client_ip :: "('k, 'm, 'p, 's) server \<Rightarrow> headers \<Rightarrow> ip_addr option" where
  "http_client_ip sv hs = (if sv_enable_ecs sv then extract_client_ip hs (sv_remote_addr sv) else None)"

definition h3_client_ip :: "('k, 'm, 'p, 's) server \<Rightarrow> ip_addr option" where
  "h3_client_ip sv = (if sv_enable_ecs sv then map_option sa_ip (sv_remote_addr sv) else None)"

subsection \<open>The query in the URL and in the body\<close>

text \<open>The value of the last parameter \<open>dns\<close>; one without an equals sign unsets it.\<close>

definition dns_param :: "string \<Rightarrow> string option" where
  "dns_param http_query =
    foldl (\<lambda>question_str parts.
        (case split_on (CHR ''='') parts of
           k # kv \<Rightarrow> if k = DNS_QUERY_PARAM then (case kv of [] \<Rightarrow> None | v # _ \<Rightarrow> Some v) else question_str
         | [] \<Rightarrow> question_str))
      None (split_on (CHR ''&'') http_query)"

definition decode_question :: "(string \<Rightarrow> packet option) \<Rightarrow> string option \<Rightarrow> packet option" where
  "decode_question base64_url question_str =
    (case question_str of
       None \<Rightarrow> None
     | Some s \<Rightarrow> if length s > MAX_DNS_QUESTION_LEN * 4 div 3 then None else base64_url s)"

definition query_from_query_string :: "(string \<Rightarrow> packet option) \<Rightarrow> string option \<Rightarrow> packet option" where
  "query_from_query_string base64_url query = decode_question base64_url (dns_param (unwrap_or query []))"

text \<open>What stands between the first question mark and the second.\<close>

definition path_query :: "string \<Rightarrow> string" where
  "path_query path = (case split_on (CHR ''?'') path of _ # q # _ \<Rightarrow> q | _ \<Rightarrow> [])"

definition query_from_path :: "(string \<Rightarrow> packet option) \<Rightarrow> string \<Rightarrow> packet option" where
  "query_from_path base64_url path = decode_question base64_url (dns_param (path_query path))"

definition read_body :: "http_body \<Rightarrow> DoHError + packet" where
  "read_body body =
    (if (case b_upper body of Some upper \<Rightarrow> upper \<ge> MAX_DNS_QUESTION_LEN | None \<Rightarrow> False) then Inl TooLarge
     else case b_collect body of
       None \<Rightarrow> Inl TooLarge
     | Some bytes \<Rightarrow> if length bytes \<ge> MAX_DNS_QUESTION_LEN then Inl TooLarge else Inr bytes)"

subsection \<open>Requests over HTTP/1 and HTTP/2\<close>

definition serve_doh_query ::
  "('k, 'm, 'p, 's) server \<Rightarrow> packet \<Rightarrow> ip_addr option \<Rightarrow> (unit, http_response) res" where
  "serve_doh_query sv query client_ip =
    (case sv_proxy sv query client_ip of
       Panic \<Rightarrow> Panic
     | Err e \<Rightarrow> Ok (http_error (status_code e))
     | Ok resp \<Rightarrow>
         (case build_response (dr_packet resp) (unat (dr_ttl resp)) (doh_type_str Standard) True of
            Inr resp \<Rightarrow> Ok resp
          | Inl e \<Rightarrow> Ok (http_error (status_code e))))"

definition serve_doh_get :: "('k, 'm, 'p, 's) server \<Rightarrow> http_request \<Rightarrow> (unit, http_response) res" where
  "serve_doh_get sv req =
    (let client_ip = http_client_ip sv (rq_headers req) in
     case query_from_query_string (sv_base64_url sv) (rq_query req) of
       None \<Rightarrow> Ok (http_error_with_cache 400)
     | Some query \<Rightarrow> serve_doh_query sv query client_ip)"

definition serve_doh_post :: "('k, 'm, 'p, 's) server \<Rightarrow> http_request \<Rightarrow> (unit, http_response) res" where
  "serve_doh_post sv req =
    (if sv_disable_post sv then Ok (http_error 405)
     else
       let client_ip = http_client_ip sv (rq_headers req) in
       case read_body (rq_body req) of
         Inl e \<Rightarrow> Ok (http_error (status_code e))
       | Inr query \<Rightarrow> serve_doh_query sv query client_ip)"

definition serve_odoh :: "('k, 'm, 'p, 's) server \<Rightarrow> packet \<Rightarrow> (unit, http_response) res" where
  "serve_odoh sv encrypted_query =
    (case decrypt_query (sv_odoh_rs sv) (sv_odoh_key sv) encrypted_query of
       Inl e \<Rightarrow> Ok (http_error (status_code e))
     | Inr (query, context) \<Rightarrow>
         (case sv_proxy sv query None of
            Panic \<Rightarrow> Panic
          | Err e \<Rightarrow> Ok (http_error (status_code e))
          | Ok resp \<Rightarrow>
              (case encrypt_response (sv_odoh_rs sv) (sv_nonce sv) context (dr_packet resp) of
                 Inl e \<Rightarrow> Ok (http_error (status_code e))
               | Inr resp \<Rightarrow>
                   (case build_response resp 0 (doh_type_str Oblivious) False of
                      Inr resp \<Rightarrow> Ok resp
                    | Inl e \<Rightarrow> Ok (http_error (status_code e))))))"

definition serve_odoh_get :: "('k, 'm, 'p, 's) server \<Rightarrow> http_request \<Rightarrow> (unit, http_response) res" where
  "serve_odoh_get sv req =
    (case query_from_query_string (sv_base64_url sv) (rq_query req) of
       None \<Rightarrow> Ok (http_error_with_cache 400)
     | Some encrypted_query \<Rightarrow> serve_odoh sv encrypted_query)"

definition serve_odoh_post :: "('k, 'm, 'p, 's) server \<Rightarrow> http_request \<Rightarrow> (unit, http_response) res" where
  "serve_odoh_post sv req =
    (if sv_disable_post sv \<and> \<not> sv_allow_odoh_post sv then Ok (http_error 405)
     else case read_body (rq_body req) of
       Inl e \<Rightarrow> Ok (http_error (status_code e))
     | Inr encrypted_query \<Rightarrow> serve_odoh sv encrypted_query)"

definition serve_odoh_configs :: "('k, 'm, 'p, 's) server \<Rightarrow> (unit, http_response) res" where
  "serve_odoh_configs sv =
    (case build_response (into_config (sv_odoh_key sv)) ODOH_KEY_ROTATION_SECS ''application/octet-stream'' True of
       Inr resp \<Rightarrow> Ok resp
     | Inl e \<Rightarrow> Ok (http_error (status_code e)))"

text \<open>The parameters of a JSON query; a later one replaces an earlier one.\<close>

definition json_flag :: "string \<Rightarrow> bool" where "json_flag v \<longleftrightarrow> v = ''1'' \<or> v = ''true''"

definition json_param :: "(string \<Rightarrow> string option) \<Rightarrow> DnsJsonQuery \<Rightarrow> string \<Rightarrow> DnsJsonQuery" where
  "json_param url_decode json_query parts =
    (case split_on (CHR ''='') parts of
       k # v # _ \<Rightarrow>
         (if k = ''name'' then json_query\<lparr>q_json_name := unwrap_or (url_decode v) []\<rparr>
          else if k = ''type'' then json_query\<lparr>q_json_type := map_option of_nat (parse_uint 65536 v)\<rparr>
          else if k = ''cd'' then json_query\<lparr>q_json_cd := Some (json_flag v)\<rparr>
          else if k = ''ct'' then json_query\<lparr>q_json_ct := Some v\<rparr>
          else if k = ''do'' then json_query\<lparr>q_json_do := Some (json_flag v)\<rparr>
          else if k = ''edns_client_subnet'' then json_query\<lparr>q_json_subnet := Some v\<rparr>
          else json_query)
     | _ \<Rightarrow> json_query)"

definition json_query_of :: "(string \<Rightarrow> string option) \<Rightarrow> string \<Rightarrow> DnsJsonQuery" where
  "json_query_of url_decode query_params = foldl (json_param url_decode)
     \<lparr>q_json_name = [], q_json_type = None, q_json_cd = None, q_json_ct = None, q_json_do = None,
      q_json_subnet = None\<rparr> (split_on (CHR ''&'') query_params)"

definition json_error :: "('k, 'm, 'p, 's) server \<Rightarrow> nat \<Rightarrow> string \<Rightarrow> H3Response" where
  "json_error sv status comment = \<lparr>h3r_status = status, h3r_content_type = doh_type_str Json,
     h3r_body = sv_json_comment sv status comment, h3r_cache_control = None\<rparr>"

definition serve_json_query ::
  "('k, 'm, 'p, 's) server \<Rightarrow> string \<Rightarrow> ip_addr option \<Rightarrow> (DoHError, H3Response) res option" where
  "serve_json_query sv query_params client_ip =
    (let json_query = json_query_of (sv_url_decode sv) query_params in
     if q_json_name json_query = [] then Some (Ok (json_error sv 400 ''Missing 'name' parameter''))
     else
       let query_packet = build_dns_query (fst (sv_random_id sv)) (snd (sv_random_id sv)) json_query in
       case sv_proxy sv query_packet client_ip of
         Panic \<Rightarrow> Some Panic
       | Err e \<Rightarrow> Some (Err e)
       | Ok dns_response \<Rightarrow>
           (case parse_dns_to_json (sv_base64_std sv) (dr_packet dns_response) of
              None \<Rightarrow> None
            | Some Panic \<Rightarrow> Some Panic
            | Some (Err e) \<Rightarrow> Some (Ok (json_error sv 500 (''Failed to parse DNS response: '' @ e)))
            | Some (Ok json_response) \<Rightarrow>
                (case sv_json sv json_response of
                   None \<Rightarrow> Some (Err InvalidData)
                 | Some json_string \<Rightarrow>
                     Some (Ok \<lparr>h3r_status = 200, h3r_content_type = doh_type_str Json, h3r_body = json_string,
                       h3r_cache_control = Some (cache_control_for (unat (dr_ttl dns_response)))\<rparr>))))"

definition serve_json_get :: "('k, 'm, 'p, 's) server \<Rightarrow> http_request \<Rightarrow> (unit, http_response) res option" where
  "serve_json_get sv req =
    (let query_params = unwrap_or (rq_query req) []; client_ip = http_client_ip sv (rq_headers req) in
     case serve_json_query sv query_params client_ip of
       None \<Rightarrow> None
     | Some Panic \<Rightarrow> Some Panic
     | Some (Err e) \<Rightarrow> Some (Ok (http_error (status_code e)))
     | Some (Ok response) \<Rightarrow>
         Some (Ok (unwrap_or
           (build_http (h3r_status response)
             ([(''content-type'', h3r_content_type response)]
              @ (case h3r_cache_control response of None \<Rightarrow> [] | Some cc \<Rightarrow> [(''cache-control'', cc)])
              @ [(''access-control-allow-origin'', ''*'')]) (h3r_body response))
           (http_error 500))))"

definition serve_get :: "('k, 'm, 'p, 's) server \<Rightarrow> http_request \<Rightarrow> (unit, http_response) res option" where
  "serve_get sv req =
    (case parse_content_type (rq_headers req) of
       Inr Standard \<Rightarrow> Some (serve_doh_get sv req)
     | Inr Oblivious \<Rightarrow> Some (serve_odoh_get sv req)
     | Inr Json \<Rightarrow> serve_json_get sv req
     | Inl response \<Rightarrow> Some (Ok response))"

definition serve_post :: "('k, 'm, 'p, 's) server \<Rightarrow> http_request \<Rightarrow> (unit, http_response) res option" where
  "serve_post sv req =
    (case parse_content_type (rq_headers req) of
       Inr Standard \<Rightarrow> Some (serve_doh_post sv req)
     | Inr Oblivious \<Rightarrow> Some (serve_odoh_post sv req)
     | Inr Json \<Rightarrow> Some (Ok (http_error 405))
     | Inl response \<Rightarrow> Some (Ok response))"

definition http_call :: "('k, 'm, 'p, 's) server \<Rightarrow> http_request \<Rightarrow> (unit, http_response) res option" where
  "http_call sv req =
    (if rq_path req = sv_path sv then
       (if rq_method req = ''POST'' then serve_post sv req
        else if rq_method req = ''GET'' then serve_get sv req
        else Some (Ok (http_error 405)))
     else if rq_path req = sv_odoh_configs_path sv then
       (if rq_method req = ''GET'' then Some (serve_odoh_configs sv) else Some (Ok (http_error 405)))
     else Some (Ok (http_error 404)))"

text \<open>
  A connection that has its reservation: the requests on it, each with the time at which it is
  answered. Those are served that are answered within the time limit, one second above that of the settings;
  the sum is formed before the connection has its own task.
\<close>

definition client_serve_reserved ::
  "('k, 'm, 'p, 's) server \<Rightarrow> duration \<Rightarrow> (http_request \<times> duration) list
    \<Rightarrow> (unit, (unit, http_response) res option list) res" where
  "client_serve_reserved sv timeout requests =
    rbind (duration_add timeout (from_secs 1)) (\<lambda>limit.
      Ok (map (http_call sv \<circ> fst) (filter (\<lambda>(_, answered). answered \<le> limit) requests)))"

subsection \<open>Requests over HTTP/3\<close>

text \<open>
  A header value is octets; \<open>str::from_utf8\<close> accepts those that are UTF-8. The frames of a request
  body end with the channel; the handler sends at most two frames, and \<open>ok k\<close> tells whether the
  k-th can be sent.
\<close>

type_synonym h3_headers = "(string \<times> packet) list"

function from_utf8 :: "byte list \<Rightarrow> string option" where
  "from_utf8 bs =
    (if bs = [] then Some []
     else case utf8_chunk bs of (n, ok) \<Rightarrow>
       if ok \<and> n \<le> length bs then map_option (\<lambda>s. map byte_char (take n bs) @ s) (from_utf8 (drop n bs))
       else None)"
  by auto
termination
  by (relation "measure length") (auto dest!: arg_cong [where f = fst] simp: utf8_chunk_pos [THEN less_le_trans])

declare from_utf8.simps [simp del]

definition h3_header_value :: "h3_headers \<Rightarrow> string \<Rightarrow> string option" where
  "h3_header_value hs name = Option.bind (map_of hs name) from_utf8"

datatype inbound_frame = InBody packet bool | InOther

datatype outbound_frame = OutHeaders headers | OutBody packet bool

definition send_h3_response ::
  "(nat \<Rightarrow> bool) \<Rightarrow> nat \<Rightarrow> string \<Rightarrow> packet \<Rightarrow> string option \<Rightarrow> bool \<Rightarrow> outbound_frame list \<times> (DoHError, unit) res" where
  "send_h3_response ok status content_type body cache_control cors =
    (let hs = [('':status'', show_nat status), (''content-type'', content_type),
            (''content-length'', show_nat (length body))]
          @ (case cache_control of None \<Rightarrow> [] | Some cc \<Rightarrow> [(''cache-control'', cc)])
          @ (if cors then [(''access-control-allow-origin'', ''*'')] else []) in
     if \<not> ok 0 then ([], Err UpstreamIssue)
     else if body = [] then ([OutHeaders hs], Ok ())
     else if \<not> ok 1 then ([OutHeaders hs], Err UpstreamIssue)
     else ([OutHeaders hs, OutBody body True], Ok ()))"

definition send_h3_error :: "(nat \<Rightarrow> bool) \<Rightarrow> nat \<Rightarrow> bool \<Rightarrow> outbound_frame list \<times> (DoHError, unit) res" where
  "send_h3_error ok status long_cache =
    send_h3_response ok status ''text/plain'' [] (if long_cache then Some long_cache_control else None) False"

definition handle_doh_payload ::
  "('k, 'm, 'p, 's) server \<Rightarrow> (nat \<Rightarrow> bool) \<Rightarrow> packet \<Rightarrow> DoHType \<Rightarrow> ip_addr option \<Rightarrow> bool
    \<Rightarrow> outbound_frame list \<times> (DoHError, unit) res" where
  "handle_doh_payload sv ok payload doh_type client_ip cors =
    (case doh_type of
       Standard \<Rightarrow>
         (case sv_proxy sv payload client_ip of
            Panic \<Rightarrow> ([], Panic)
          | Err e \<Rightarrow> ([], Err e)
          | Ok resp \<Rightarrow> send_h3_response ok 200 (doh_type_str Standard) (dr_packet resp)
              (Some (cache_control_for (unat (dr_ttl resp)))) cors)
     | Oblivious \<Rightarrow>
         (case decrypt_query (sv_odoh_rs sv) (sv_odoh_key sv) payload of
            Inl e \<Rightarrow> ([], Err e)
          | Inr (query, context) \<Rightarrow>
              (case sv_proxy sv query None of
                 Panic \<Rightarrow> ([], Panic)
               | Err e \<Rightarrow> ([], Err e)
               | Ok resp \<Rightarrow>
                   (case encrypt_response (sv_odoh_rs sv) (sv_nonce sv) context (dr_packet resp) of
                      Inl e \<Rightarrow> ([], Err e)
                    | Inr encrypted_resp \<Rightarrow> send_h3_response ok 200 (doh_type_str Oblivious) encrypted_resp
                        (Some (cache_control_for 0)) False)))
     | Json \<Rightarrow> send_h3_error ok 405 False)"

text \<open>The body, or \<^term>\<open>None\<close> as soon as it is longer than a question.\<close>

fun read_h3_body :: "packet \<Rightarrow> inbound_frame list \<Rightarrow> packet option" where
  "read_h3_body body [] = Some body"
| "read_h3_body body (InOther # frames) = read_h3_body body frames"
| "read_h3_body body (InBody data fin # frames) =
    (if length body + length data > MAX_DNS_QUESTION_LEN then None
     else if fin then Some (body @ data) else read_h3_body (body @ data) frames)"

definition handle_h3_post ::
  "('k, 'm, 'p, 's) server \<Rightarrow> (nat \<Rightarrow> bool) \<Rightarrow> inbound_frame list \<Rightarrow> DoHType \<Rightarrow> ip_addr option
    \<Rightarrow> outbound_frame list \<times> (DoHError, unit) res" where
  "handle_h3_post sv ok recv doh_type client_ip =
    (if doh_type = Standard \<and> sv_disable_post sv then send_h3_error ok 405 False
     else if doh_type = Oblivious \<and> sv_disable_post sv \<and> \<not> sv_allow_odoh_post sv then send_h3_error ok 405 False
     else
       case read_h3_body [] recv of
         None \<Rightarrow> send_h3_error ok 413 False
       | Some body \<Rightarrow>
           if body = [] then send_h3_error ok 400 True
           else handle_doh_payload sv ok body doh_type client_ip (doh_type = Standard))"

definition handle_h3_request ::
  "('k, 'm, 'p, 's) server \<Rightarrow> (nat \<Rightarrow> bool) \<Rightarrow> h3_headers \<Rightarrow> inbound_frame list
    \<Rightarrow> (outbound_frame list \<times> (DoHError, unit) res) option" where
  "handle_h3_request sv ok hs recv =
    (let method = unwrap_or (h3_header_value hs '':method'') ''GET'';
         path = unwrap_or (h3_header_value hs '':path'') ''/'';
         path_only = hd (split_on (CHR ''?'') path);
         content_type = h3_header_value hs ''content-type'';
         accept = h3_header_value hs ''accept'' in
     if path_only = sv_odoh_configs_path sv then
       Some (if method = ''GET''
             then send_h3_response ok 200 ''application/octet-stream'' (into_config (sv_odoh_key sv))
                    (Some (cache_control_for ODOH_KEY_ROTATION_SECS)) True
             else send_h3_error ok 405 False)
     else if path_only \<noteq> sv_path sv then Some (send_h3_error ok 404 True)
     else
       case parse_h3_content_type content_type accept of
         Inl status \<Rightarrow> Some (send_h3_error ok status True)
       | Inr doh_type \<Rightarrow>
           (let client_ip = h3_client_ip sv in
            if method = ''GET'' \<and> doh_type = Json then
              (case serve_json_query sv (path_query path) client_ip of
                 None \<Rightarrow> None
               | Some Panic \<Rightarrow> Some ([], Panic)
               | Some (Err e) \<Rightarrow> Some (send_h3_error ok (status_code e) False)
               | Some (Ok response) \<Rightarrow> Some (send_h3_response ok (h3r_status response) (h3r_content_type response)
                   (h3r_body response) (h3r_cache_control response) True))
            else if method = ''GET'' then
              (case query_from_path (sv_base64_url sv) path of
                 None \<Rightarrow> Some (send_h3_error ok 400 True)
               | Some query \<Rightarrow> Some (handle_doh_payload sv ok query doh_type client_ip (doh_type = Standard)))
            else if method = ''POST'' \<and> doh_type = Json then Some (send_h3_error ok 405 False)
            else if method = ''POST'' then Some (handle_h3_post sv ok recv doh_type client_ip)
            else Some (send_h3_error ok 405 False)))"

subsection \<open>Responses\<close>

lemma header_value_ok_append [simp]: "header_value_ok (a @ b) \<longleftrightarrow> header_value_ok a \<and> header_value_ok b"
  by (simp add: header_value_ok_def)

lemma header_value_ok_show_nat [simp]: "header_value_ok (show_nat n)"
proof (induction n rule: show_nat.induct)
  case (1 n)
  have "n mod 10 < 10" by simp
  then have "n mod 10 \<noteq> 79" by linarith
  with 1 show ?case by (subst show_nat.simps) (simp add: header_value_ok_def)
qed

lemma header_value_ok_const [simp]:
  "header_value_ok (doh_type_str t)" "header_value_ok ''application/octet-stream''" "header_value_ok ''*''"
  "header_value_ok ''max-age=''" "header_value_ok '', stale-if-error=''"
  "header_value_ok '', stale-while-revalidate=''"
  by (cases t; simp add: header_value_ok_def) (simp_all add: header_value_ok_def)

lemma header_value_ok_cache_control [simp]: "header_value_ok (cache_control_for ttl)"
  unfolding cache_control_for_def by (simp only: header_value_ok_append header_value_ok_show_nat header_value_ok_const)

text \<open>The response that carries a packet.\<close>

definition packet_response :: "packet \<Rightarrow> nat \<Rightarrow> string \<Rightarrow> bool \<Rightarrow> http_response" where
  "packet_response packet ttl content_type cors = \<lparr>rs_status = 200, rs_headers =
     [(''content-length'', show_nat (length packet)), (''content-type'', content_type),
      (''cache-control'', cache_control_for ttl)]
     @ (if cors then [(''access-control-allow-origin'', ''*'')] else []), rs_body = packet\<rparr>"

lemma build_response_Inr:
  "header_value_ok content_type \<Longrightarrow>
   build_response packet ttl content_type cors = Inr (packet_response packet ttl content_type cors)"
  by (simp add: build_response_def build_http_def packet_response_def)

lemma serve_doh_query_eq:
  "serve_doh_query sv query client_ip =
    (case sv_proxy sv query client_ip of
       Ok resp \<Rightarrow> Ok (packet_response (dr_packet resp) (unat (dr_ttl resp)) (doh_type_str Standard) True)
     | Err e \<Rightarrow> Ok (http_error (status_code e))
     | Panic \<Rightarrow> Panic)"
  by (simp del: doh_type_str.simps add: serve_doh_query_def build_response_Inr split: res.splits)

lemma serve_odoh_eq:
  "serve_odoh sv encrypted_query =
    (case decrypt_query (sv_odoh_rs sv) (sv_odoh_key sv) encrypted_query of
       Inl e \<Rightarrow> Ok (http_error (status_code e))
     | Inr (query, context) \<Rightarrow>
         (case sv_proxy sv query None of
            Ok resp \<Rightarrow>
              (case encrypt_response (sv_odoh_rs sv) (sv_nonce sv) context (dr_packet resp) of
                 Inl e \<Rightarrow> Ok (http_error (status_code e))
               | Inr bytes \<Rightarrow> Ok (packet_response bytes 0 (doh_type_str Oblivious) False))
          | Err e \<Rightarrow> Ok (http_error (status_code e))
          | Panic \<Rightarrow> Panic))"
  by (simp del: doh_type_str.simps add: serve_odoh_def build_response_Inr split: res.splits sum.splits prod.splits)


subsection \<open>Requests that carry a query\<close>

text \<open>The query a request carries, given that its type is known; over HTTP/1 and HTTP/2.\<close>

definition request_query :: "('k, 'm, 'p, 's) server \<Rightarrow> http_request \<Rightarrow> packet option" where
  "request_query sv req =
    (if rq_method req = ''GET'' then query_from_query_string (sv_base64_url sv) (rq_query req)
     else if rq_method req = ''POST'' then
       (case parse_content_type (rq_headers req) of
          Inr Standard \<Rightarrow> if sv_disable_post sv then None else case_sum Map.empty Some (read_body (rq_body req))
        | Inr Oblivious \<Rightarrow> if sv_disable_post sv \<and> \<not> sv_allow_odoh_post sv then None
            else case_sum Map.empty Some (read_body (rq_body req))
        | _ \<Rightarrow> None)
     else None)"

lemma http_call_query:
  assumes "rq_path req = sv_path sv" "request_query sv req = Some query"
  shows "parse_content_type (rq_headers req) = Inr Standard \<Longrightarrow>
      http_call sv req = Some (serve_doh_query sv query (http_client_ip sv (rq_headers req)))"
    and "parse_content_type (rq_headers req) = Inr Oblivious \<Longrightarrow> http_call sv req = Some (serve_odoh sv query)"
  using assms
  by (auto simp: http_call_def request_query_def serve_get_def serve_post_def serve_doh_get_def serve_doh_post_def
      serve_odoh_get_def serve_odoh_post_def Let_def split: if_splits sum.splits)

text \<open>The same server, whose query path is never told an address, and one with another query path.\<close>

definition anonymous :: "('k, 'm, 'p, 's) server \<Rightarrow> ('k, 'm, 'p, 's) server" where
  "anonymous sv = sv\<lparr>sv_proxy := \<lambda>query _. sv_proxy sv query None\<rparr>"

lemma server_update_simps [simp]:
  "http_client_ip (sv\<lparr>sv_proxy := px\<rparr>) hs = http_client_ip sv hs"
  "h3_client_ip (sv\<lparr>sv_proxy := px\<rparr>) = h3_client_ip sv"
  "serve_odoh_configs (sv\<lparr>sv_proxy := px\<rparr>) = serve_odoh_configs sv"
  "json_error (sv\<lparr>sv_proxy := px\<rparr>) = json_error sv"
  by (auto simp: http_client_ip_def h3_client_ip_def serve_odoh_configs_def json_error_def fun_eq_iff)

lemma anonymous_serve:
  "serve_doh_query (anonymous sv) query None = serve_doh_query sv query None"
  "serve_odoh (anonymous sv) query = serve_odoh sv query"
  "serve_json_query (anonymous sv) params None = serve_json_query sv params None"
  by (simp_all add: anonymous_def serve_doh_query_def serve_odoh_def serve_json_query_def Let_def split: res.splits sum.splits prod.splits option.splits)

lemma anonymous_payload:
  "t = Oblivious \<or> ip = None \<Longrightarrow> handle_doh_payload (anonymous sv) ok payload t ip cors = handle_doh_payload sv ok payload t ip cors"
  by (cases t) (auto simp: anonymous_def handle_doh_payload_def split: res.splits sum.splits prod.splits)

lemma anonymous_fields [simp]:
  "http_client_ip (anonymous sv) hs = http_client_ip sv hs" "h3_client_ip (anonymous sv) = h3_client_ip sv"
  "serve_odoh_configs (anonymous sv) = serve_odoh_configs sv"
  "sv_path (anonymous sv) = sv_path sv" "sv_odoh_configs_path (anonymous sv) = sv_odoh_configs_path sv"
  "sv_disable_post (anonymous sv) = sv_disable_post sv" "sv_allow_odoh_post (anonymous sv) = sv_allow_odoh_post sv"
  "sv_base64_url (anonymous sv) = sv_base64_url sv" "sv_odoh_key (anonymous sv) = sv_odoh_key sv"
  by (simp_all add: anonymous_def)

lemma anonymous_odoh:
  "serve_odoh_get (anonymous sv) req = serve_odoh_get sv req"
  "serve_odoh_post (anonymous sv) req = serve_odoh_post sv req"
  by (simp_all add: serve_odoh_get_def serve_odoh_post_def anonymous_serve split: option.splits sum.splits)

lemma anonymous_direct:
  assumes "http_client_ip sv (rq_headers req) = None"
  shows "serve_doh_get (anonymous sv) req = serve_doh_get sv req"
    "serve_doh_post (anonymous sv) req = serve_doh_post sv req"
    "serve_json_get (anonymous sv) req = serve_json_get sv req"
  using assms
  by (simp_all add: serve_doh_get_def serve_doh_post_def serve_json_get_def anonymous_serve Let_def
      split: option.splits sum.splits)

lemma anonymous_http:
  assumes "\<not> sv_enable_ecs sv \<or> parse_content_type (rq_headers req) = Inr Oblivious"
  shows "http_call (anonymous sv) req = http_call sv req"
proof (cases "parse_content_type (rq_headers req) = Inr Oblivious")
  case True
  then show ?thesis by (simp add: http_call_def serve_get_def serve_post_def anonymous_odoh)
next
  case False
  with assms have "http_client_ip sv (rq_headers req) = None" by (simp add: http_client_ip_def)
  note direct = anonymous_direct [of sv req, OF this] anonymous_odoh [of sv req]
  show ?thesis
    by (simp add: http_call_def serve_get_def serve_post_def direct split: sum.split DoHType.split)
qed

lemma anonymous_h3_post:
  "t = Oblivious \<or> ip = None \<Longrightarrow> handle_h3_post (anonymous sv) ok recv t ip = handle_h3_post sv ok recv t ip"
  by (simp add: handle_h3_post_def anonymous_payload split: option.split)

lemma anonymous_h3:
  assumes "\<not> sv_enable_ecs sv \<or>
    parse_h3_content_type (h3_header_value hs ''content-type'') (h3_header_value hs ''accept'') = Inr Oblivious"
  shows "handle_h3_request (anonymous sv) ok hs recv = handle_h3_request sv ok hs recv"
proof (cases "parse_h3_content_type (h3_header_value hs ''content-type'') (h3_header_value hs ''accept'') = Inr Oblivious")
  case True
  then show ?thesis
    by (simp add: handle_h3_request_def anonymous_h3_post anonymous_payload Let_def split: option.split)
next
  case False
  with assms have "h3_client_ip sv = None" by (simp add: h3_client_ip_def)
  then show ?thesis
    by (simp add: handle_h3_request_def anonymous_h3_post anonymous_payload anonymous_serve Let_def
        split: option.split sum.split res.split)
qed

subsection \<open>The two front ends\<close>






lemma split_on_append:
  "c \<notin> set a \<Longrightarrow> split_on c (a @ c # b) = a # split_on c b"
  by (induction a) auto

lemma split_on_none: "c \<notin> set a \<Longrightarrow> split_on c a = [a]"
  by (induction a) auto


subsection \<open>Errors\<close>

lemma parse_content_type_error: "parse_content_type hs = Inl resp \<Longrightarrow> 400 \<le> rs_status resp"
  by (auto simp: parse_content_type_def http_error_with_cache_def split: option.splits sum.splits)

lemma parse_h3_content_type_error: "parse_h3_content_type ct accept = Inl status \<Longrightarrow> 400 \<le> status"
  by (auto simp: parse_h3_content_type_def split: option.splits sum.splits)

text \<open>The server of the settings: its query path is the one of \<open>Proxy\<close>.\<close>

definition backed_by ::
  "('k, 'm, 'p, 's) server \<Rightarrow> 'u Globals \<Rightarrow> ('u, 'f, 'z) fastest_env_scheme \<Rightarrow> bool" where
  "backed_by sv g env \<longleftrightarrow> sv_path sv = g_path g \<and> sv_odoh_configs_path sv = g_odoh_configs_path g
     \<and> sv_disable_post sv = g_disable_post g \<and> sv_allow_odoh_post sv = g_allow_odoh_post g
     \<and> sv_enable_ecs sv = g_enable_ecs g \<and> sv_proxy sv = (\<lambda>query client_ip. fst (proxy g env query client_ip))"

lemma backed_proxy_not_Panic:
  assumes "backed_by sv g env" "exchange_ready (g_upstream_mode g) env" "\<not> g_enable_ecs g"
  shows "sv_proxy sv query ip \<noteq> Panic"
proof (cases "proxy_request g query ip")
  case (Ok query')
  from assms(2) Ok have "fst (proxy g env query ip) \<noteq> Panic"
    by (cases rule: proxy_exchanged) (simp_all add: proxy_response_cases(1))
  with assms(1) show ?thesis by (simp add: backed_by_def)
next
  case Panic
  with assms(3) proxy_request_not_Panic [of g ip query] show ?thesis by (simp add: client_subnet_def)
qed (use assms(1) in \<open>simp add: backed_by_def proxy_def\<close>)

lemma serve_not_Panic:
  assumes "\<And>query ip. sv_proxy sv query ip \<noteq> Panic"
  shows "serve_doh_query sv query ip \<noteq> Panic" "serve_odoh sv query \<noteq> Panic"
    "serve_json_query sv params ip \<noteq> Some Panic"
    "snd (handle_doh_payload sv ok query t ip cors) \<noteq> Panic"
proof -
  have send: "snd (send_h3_response ok st ct body cc cors) \<noteq> Panic" for st ct body cc cors
    by (simp add: send_h3_response_def Let_def)
  have json: "parse_dns_to_json b64 p \<noteq> Some Panic" for b64 p
    by (rule parse_dns_to_json_not_Panic)
  show "serve_doh_query sv query ip \<noteq> Panic" "serve_odoh sv query \<noteq> Panic"
    using assms by (simp_all add: serve_doh_query_eq serve_odoh_eq split: res.split sum.split prod.split)
  show "serve_json_query sv params ip \<noteq> Some Panic"
    using assms json
    by (simp add: serve_json_query_def Let_def split: res.split option.split)
  show "snd (handle_doh_payload sv ok query t ip cors) \<noteq> Panic"
    using assms send
    by (simp add: handle_doh_payload_def send_h3_error_def split: res.split sum.split prod.split DoHType.split)
qed

lemma http_call_not_Panic:
  assumes "\<And>query ip. sv_proxy sv query ip \<noteq> Panic"
  shows "http_call sv req \<noteq> Some Panic"
proof -
  note s = serve_not_Panic [OF assms]
  have "serve_doh_get sv req \<noteq> Panic" "serve_doh_post sv req \<noteq> Panic" "serve_odoh_get sv req \<noteq> Panic"
    "serve_odoh_post sv req \<noteq> Panic" "serve_json_get sv req \<noteq> Some Panic"
    using s by (simp_all add: serve_doh_get_def serve_doh_post_def serve_odoh_get_def serve_odoh_post_def
        serve_json_get_def Let_def split: option.split sum.split res.split)
  moreover have "serve_odoh_configs sv \<noteq> Panic"
    by (simp add: serve_odoh_configs_def split: sum.split)
  ultimately show ?thesis
    by (simp add: http_call_def serve_get_def serve_post_def split: sum.split DoHType.split)
qed

lemma h3_request_not_Panic:
  assumes "\<And>query ip. sv_proxy sv query ip \<noteq> Panic" "handle_h3_request sv ok hs recv = Some (frames, r)"
  shows "r \<noteq> Panic"
proof -
  have send: "snd (send_h3_response ok st ct body cc cors) \<noteq> Panic"
    "snd (send_h3_error ok st lc) \<noteq> Panic" for st ct body cc cors lc
    by (simp_all add: send_h3_error_def send_h3_response_def Let_def)
  note s = serve_not_Panic [OF assms(1)]
  have "snd (handle_h3_post sv ok recv t ip) \<noteq> Panic" for t ip
    using send s(4) by (simp add: handle_h3_post_def split: option.split)
  with send s(3,4) have "pred_option (\<lambda>fr. snd fr \<noteq> Panic) (handle_h3_request sv ok hs recv)"
    by (simp add: handle_h3_request_def Let_def split: option.split sum.split res.split)
  with assms(2) show ?thesis by simp
qed

lemma trim_digits:
  assumes "s \<noteq> []" "\<not> is_ascii_space (hd s)" "\<not> is_ascii_space (last s)"
  shows "trim s = s"
proof -
  have "dropWhile is_ascii_space s = s" using assms(1,2) by (cases s) auto
  moreover have "dropWhile is_ascii_space (rev s) = rev s"
    using assms(1,3) by (cases s rule: rev_cases) auto
  ultimately show ?thesis by (simp add: trim_def)
qed

definition address_char :: "char \<Rightarrow> bool" where
  "address_char c \<longleftrightarrow> (48 \<le> (of_char c :: nat) \<and> (of_char c :: nat) \<le> 57) \<or> c = CHR ''.''"

lemma address_char_show_nat: "list_all address_char (show_nat n)"
proof (induction n rule: show_nat.induct)
  case (1 n)
  have "n mod 10 < 10" by simp
  then have "n mod 10 \<le> 9" by linarith
  then have "address_char (char_of (48 + n mod 10))" by (simp add: address_char_def)
  moreover have "n < 10 \<Longrightarrow> address_char (char_of (48 + n))" by (simp add: address_char_def)
  ultimately show ?case using 1 by (subst show_nat.simps) simp
qed

lemma show_octets4_chars: "list_all address_char (show_octets4 q)" "show_octets4 q \<noteq> []"
proof -
  have "address_char (CHR ''.'')" by (simp add: address_char_def)
  then show "list_all address_char (show_octets4 q)" "show_octets4 q \<noteq> []"
    by (cases q; simp add: show_octets4_def address_char_show_nat)+
qed

lemma address_char_plain: "address_char c \<Longrightarrow> \<not> is_ascii_space c \<and> c \<noteq> CHR '','' \<and> 32 \<le> (of_char c :: nat) \<and> (of_char c :: nat) < 127"
  by (auto simp: address_char_def is_ascii_space_def)

lemma show_octets4_plain:
  "trim (show_octets4 q) = show_octets4 q" "CHR '','' \<notin> set (show_octets4 q)"
  "header_to_str (show_octets4 q) = Some (show_octets4 q)"
proof -
  have all: "c \<in> set (show_octets4 q) \<Longrightarrow> address_char c" for c
    using show_octets4_chars(1) [of q] by (simp add: list_all_iff)
  then show "trim (show_octets4 q) = show_octets4 q"
    using show_octets4_chars(2) [of q] by (intro trim_digits) (simp_all add: address_char_plain)
  show "CHR '','' \<notin> set (show_octets4 q)" using all address_char_plain by blast
  have "list_all (\<lambda>c. let n = of_char c :: nat in (32 \<le> n \<and> n < 127) \<or> n = 9) (show_octets4 q)"
    unfolding list_all_iff Let_def using all address_char_plain by blast
  then show "header_to_str (show_octets4 q) = Some (show_octets4 q)" by (simp add: header_to_str_def)
qed

lemma header_to_str_append: "header_to_str (a @ b) = Some (a @ b) \<longleftrightarrow>
    header_to_str a = Some a \<and> header_to_str b = Some b"
  by (simp add: header_to_str_def)

lemma parse_show_octets4: "parse_ip_addr (show_octets4 q) = Some (V4 q)"
  using parse_show_ipv4 [of q] by simp

text \<open>A small server, for the concrete instances: the crates are replaced by simple functions.\<close>

definition sample_odoh :: "(nat, packet, packet, unit) odoh_rs" where
  "sample_odoh = \<lparr>oc_serialize_configs = (\<lambda>k. Inr [of_nat k]), oc_deserialize = (\<lambda>bs. Some (rev bs)),
     oc_key_id = (\<lambda>_. [7]), oc_identifier = (\<lambda>k. Some [of_nat k]), oc_decrypt_query = (\<lambda>m k. Some (m, ())),
     oc_into_msg = (\<lambda>p. p), oc_plaintext = (\<lambda>p n. p),
     oc_encrypt_response = (\<lambda>q a s n. if fits_odoh a \<and> length n = RESPONSE_NONCE_LEN then Some (rev a) else None),
     oc_serialize = Some\<rparr>"

definition sample_reply :: DnsResponse where
  "sample_reply = \<lparr>dr_packet = [1, 2, 3], dr_ttl = 60, dr_query_stats = \<lparr>qs_main = [], qs_fallback = []\<rparr>\<rparr>"

definition sample_server ::
  "(packet \<Rightarrow> ip_addr option \<Rightarrow> (DoHError, DnsResponse) res) \<Rightarrow> (nat, packet, packet, unit) server" where
  "sample_server px = \<lparr>sv_path = ''/dns-query'', sv_odoh_configs_path = ''/.well-known/odohconfigs'', sv_disable_post = False,
     sv_allow_odoh_post = False, sv_enable_ecs = False, sv_remote_addr = Some (SocketV4 (Octets4 192 0 2 1) 40000),
     sv_proxy = px, sv_odoh_rs = sample_odoh, sv_odoh_key = \<lparr>key_pair = 7, serialized_configs = [7]\<rparr>, sv_nonce = replicate 16 0,
     sv_random_id = (1, 2), sv_base64_url = (\<lambda>s. if s = ''q'' then Some (rev (enc_msg sample_query)) else if s = ''p'' then Some (enc_msg sample_query) else None),
     sv_base64_std = (\<lambda>_. []), sv_url_decode = Some, sv_json = (\<lambda>_. Some []), sv_json_comment = (\<lambda>_ _. [])\<rparr>"

definition sample_request :: "DoHType \<Rightarrow> string \<Rightarrow> string \<Rightarrow> http_request" where
  "sample_request t method query = \<lparr>rq_method = method, rq_path = ''/dns-query'', rq_query = Some query,
     rq_headers = [(''content-type'', doh_type_str t)], rq_body = \<lparr>b_upper = None, b_collect = Some [1, 2]\<rparr>\<rparr>"

lemma sample_content_type: "parse_content_type (rq_headers (sample_request t m q)) = Inr t"
  by (cases t; simp add: sample_request_def parse_content_type_def header_to_str_def to_ascii_lowercase_def
      to_ascii_lower_def content_type_of_def)

lemma sample_params: "dns_param ''dns=q'' = Some ''q''" "dns_param ''dns=p'' = Some ''p''"
  by (simp_all add: dns_param_def DNS_QUERY_PARAM_def)

lemma sample_seals: "seals sample_odoh 7 rev (\<lambda>_ bytes. Some (rev bytes))"
  by (simp add: seals_def sample_odoh_def)

lemma sample_backed:
  "backed_by (sample_server (\<lambda>query ip. fst (proxy sample_globals sample_fastest query ip))) sample_globals sample_fastest"
  by (simp add: backed_by_def sample_server_def sample_globals_def)

lemma status_code_not_200 [simp]: "status_code e \<noteq> 200"
  by (cases e) simp_all

subsection \<open>Properties of the front end\<close>

text \<open>
  C2 (refinement): With the query path of the settings behind it, a request of type
  \<open>application/dns-message\<close> that is answered with status 200 gets a packet that comes from a
  configured upstream: the padded form of a decodable reply to the prepared query, or of such a reply
  rewritten to one of its own addresses. The response has the type of the
  request, the length of the packet, and as its time to live that of the settings for errors when the packet
  reports a recoverable error, else exactly the time to live that \<open>min_ttl\<close> reads from the packet.
\<close>

theorem response_comes_from_upstream:
  assumes "backed_by sv g env" "exchange_ready (g_upstream_mode g) env"
    and "rq_path req = g_path g" "parse_content_type (rq_headers req) = Inr Standard"
    and "request_query sv req = Some query" "http_call sv req = Some (Ok resp)" "rs_status resp = 200"
  shows "\<exists>query' u reply p ttl. proxy_request g query (http_client_ip sv (rq_headers req)) = Ok query'
    \<and> u \<in> set (g_upstreams g) \<and> sent_by env query' u reply \<and> validate_packet reply \<and> readdressed reply p
    \<and> resp = packet_response (fst (add_edns_padding p)) (unat ttl) ''application/dns-message'' True
    \<and> dated g p ttl"
proof -
  let ?ip = "http_client_ip sv (rq_headers req)"
  have "sv_path sv = g_path g" and px: "sv_proxy sv query ?ip = fst (proxy g env query ?ip)"
    using assms(1) by (simp_all add: backed_by_def)
  then have "serve_doh_query sv query ?ip = Ok resp"
    using http_call_query(1) [of req sv query] assms(3-6) by simp
  then obtain r where r: "fst (proxy g env query ?ip) = Ok r"
    and resp: "resp = packet_response (dr_packet r) (unat (dr_ttl r)) ''application/dns-message'' True"
    using assms(7) px
    by (auto simp: serve_doh_query_eq http_error_def split: res.splits)
  show ?thesis
  proof (cases "proxy_request g query ?ip")
    case (Ok query')
    from assms(2) Ok show ?thesis
    proof (cases rule: proxy_exchanged)
      case (answered u reply p stats env')
      with r have "proxy_response g p stats = Ok r" by simp
      from proxy_response_cases(3) [OF answered(5) this] answered(1-4) Ok resp show ?thesis by metis
    qed (use r in simp)
  qed (use r in \<open>simp_all add: proxy_def\<close>)
qed

lemma sample_request_simps:
  "rq_path (sample_request t m q) = ''/dns-query''" "rq_method (sample_request t m q) = m"
  "rq_query (sample_request t m q) = Some q" "sv_path (sample_server px) = ''/dns-query''"
  "sv_proxy (sample_server px) = px" "http_client_ip (sample_server px) hs = None"
  "request_query (sample_server px) (sample_request t ''GET'' ''dns=p'') = Some (enc_msg sample_query)"
  "request_query (sample_server px) (sample_request t ''GET'' ''dns=q'') = Some (rev (enc_msg sample_query))"
  by (simp_all add: sample_request_def sample_server_def http_client_ip_def request_query_def
      query_from_query_string_def sample_params decode_question_def MAX_DNS_QUESTION_LEN_def)

theorem response_comes_from_upstream_witness:
  "\<exists>resp u p. \<exists>ttl :: u32. http_call (sample_server (\<lambda>query ip. fst (proxy sample_globals sample_fastest query ip)))
     (sample_request Standard ''GET'' ''dns=p'') = Some (Ok resp) \<and> u \<in> {0, 1 :: nat}
   \<and> resp = packet_response (fst (add_edns_padding p)) (unat ttl) ''application/dns-message'' True"
proof -
  let ?sv = "sample_server (\<lambda>query ip. fst (proxy sample_globals sample_fastest query ip))"
  let ?req = "sample_request Standard ''GET'' ''dns=p''"
  obtain r where "fst (proxy sample_globals sample_fastest (enc_msg sample_query) None) = Ok r"
    using sample_proxy by blast
  then have "http_call ?sv ?req = Some (Ok (packet_response (dr_packet r) (unat (dr_ttl r)) (doh_type_str Standard) True))"
    using http_call_query(1) [of ?req ?sv "enc_msg sample_query"]
    by (simp add: sample_request_simps sample_content_type serve_doh_query_eq)
  then obtain resp where resp: "http_call ?sv ?req = Some (Ok resp)" "rs_status resp = 200"
    by (simp add: packet_response_def)
  have "exchange_ready (g_upstream_mode sample_globals) sample_fastest" "g_path sample_globals = ''/dns-query''"
    "g_upstreams sample_globals = [0, 1]"
    by (simp_all add: exchange_ready_def sample_globals_def)
  then obtain u p and ttl :: u32 where "u \<in> {0, 1 :: nat}"
    "resp = packet_response (fst (add_edns_padding p)) (unat ttl) ''application/dns-message'' True"
    using response_comes_from_upstream [OF sample_backed _ _ sample_content_type _ resp]
    by (auto simp: sample_request_simps)
  with resp(1) show ?thesis by blast
qed

text \<open>
  C5 (safety): The address of a client reaches the query path only for plain queries of a server
  that adds client subnets. For an Oblivious request, and for every request when client subnets are
  off, the server acts as one whose query path is never told an address, over HTTP/1, HTTP/2 and HTTP/3.
\<close>

theorem client_address_is_kept:
  "(\<not> sv_enable_ecs sv \<or> parse_content_type (rq_headers req) = Inr Oblivious
      \<longrightarrow> http_call (anonymous sv) req = http_call sv req)
   \<and> (\<not> sv_enable_ecs sv \<or> parse_h3_content_type (h3_header_value hs ''content-type'') (h3_header_value hs ''accept'')
        = Inr Oblivious
      \<longrightarrow> handle_h3_request (anonymous sv) ok hs recv = handle_h3_request sv ok hs recv)"
  using anonymous_http anonymous_h3 by blast

theorem client_address_is_kept_witness:
  "http_call (anonymous (sample_server (\<lambda>_ _. Ok sample_reply)\<lparr>sv_enable_ecs := True\<rparr>))
     (sample_request Oblivious ''GET'' ''dns=q'')
   = http_call (sample_server (\<lambda>_ _. Ok sample_reply)\<lparr>sv_enable_ecs := True\<rparr>)
     (sample_request Oblivious ''GET'' ''dns=q'')"
  using client_address_is_kept [of "sample_server (\<lambda>_ _. Ok sample_reply)\<lparr>sv_enable_ecs := True\<rparr>"
      "sample_request Oblivious ''GET'' ''dns=q''"] sample_content_type by blast

text \<open>
  C7 (safety): Where POST is disabled, also for Oblivious requests, a POST request to the query
  path is refused with an error before any query is made: the outcome is the same for every query
  path behind the server.
\<close>

theorem disabled_post_is_refused:
  assumes "sv_disable_post sv" "\<not> sv_allow_odoh_post sv" "rq_method req = ''POST''" "rq_path req = sv_path sv"
  shows "\<exists>resp. 400 \<le> rs_status resp \<and> (\<forall>px. http_call (sv\<lparr>sv_proxy := px\<rparr>) req = Some (Ok resp))"
proof -
  have post: "http_call (sv\<lparr>sv_proxy := px\<rparr>) req = Some (Ok (case parse_content_type (rq_headers req) of
      Inl resp \<Rightarrow> resp | Inr _ \<Rightarrow> http_error 405))" for px
    using assms by (simp add: http_call_def serve_post_def serve_doh_post_def serve_odoh_post_def
        split: sum.split DoHType.split)
  have "400 \<le> rs_status (case parse_content_type (rq_headers req) of Inl resp \<Rightarrow> resp | Inr _ \<Rightarrow> http_error 405)"
    using parse_content_type_error by (auto simp: http_error_def split: sum.split)
  with post show ?thesis by blast
qed

theorem disabled_post_is_refused_witness:
  "\<exists>resp. 400 \<le> rs_status resp
     \<and> http_call (sample_server (\<lambda>_ _. Ok sample_reply)\<lparr>sv_disable_post := True\<rparr>) (sample_request Standard ''POST'' []) = Some (Ok resp)"
proof -
  let ?sv = "sample_server (\<lambda>_ _. Ok sample_reply)\<lparr>sv_disable_post := True\<rparr>"
  obtain resp where "400 \<le> rs_status resp"
    "\<forall>px. http_call (?sv\<lparr>sv_proxy := px\<rparr>) (sample_request Standard ''POST'' []) = Some (Ok resp)"
    using disabled_post_is_refused [of ?sv "sample_request Standard ''POST'' []"]
    by (auto simp: sample_server_def sample_request_def)
  moreover have "?sv\<lparr>sv_proxy := sv_proxy ?sv\<rparr> = ?sv" by simp
  ultimately show ?thesis by metis
qed









lemma read_h3_body_limit:
  "read_h3_body body frames = Some q \<Longrightarrow> length body \<le> MAX_DNS_QUESTION_LEN \<Longrightarrow> length q \<le> MAX_DNS_QUESTION_LEN"
  by (induction body frames rule: read_h3_body.induct) (auto split: if_splits)

text \<open>
  A body over HTTP/1 and HTTP/2 is accepted only below the limit of 512 octets and
  one over HTTP/3 up to it, whatever its frames: a question of exactly 512 octets is too large for
  the one and accepted by the other.
\<close>

lemma question_limits:
  "(\<forall>body q. read_body body = Inr q \<longrightarrow> length q < MAX_DNS_QUESTION_LEN)
   \<and> (\<forall>frames q. read_h3_body [] frames = Some q \<longrightarrow> length q \<le> MAX_DNS_QUESTION_LEN)
   \<and> (\<forall>q upper. length q = MAX_DNS_QUESTION_LEN \<longrightarrow>
        read_body \<lparr>b_upper = upper, b_collect = Some q\<rparr> = Inl TooLarge \<and> read_h3_body [] [InBody q True] = Some q)"
proof (intro conjI allI impI)
  show "length q < MAX_DNS_QUESTION_LEN" if "read_body body = Inr q" for body q
    using that by (auto simp: read_body_def split: if_splits option.splits)
  show "length q \<le> MAX_DNS_QUESTION_LEN" if "read_h3_body [] frames = Some q" for frames q
    using read_h3_body_limit [OF that] by simp
qed (simp_all add: read_body_def)

lemma cache_control_expired: "cache_control_for 0 = ''max-age=0, stale-if-error=86400, stale-while-revalidate=60''"
  by (simp add: cache_control_for_def STALE_IF_ERROR_SECS_def STALE_WHILE_REVALIDATE_SECS_def
      show_nat_unfold [of "numeral k" for k] char_of_def bit_0)

text \<open>
  C6 (roundtrip): An Oblivious query reaches the upstreams opened and without an address, and
  its answer reaches the client who sealed it: when the crate opens what was sealed for the current
  key (queries and answers of one to 65535 octets, a nonce of 16), the response has status 200, opens to the
  packet of the answer, and its header \<open>Cache-Control\<close> says \<open>max-age=0\<close> (with the stale periods of every
  response).
\<close>

theorem oblivious_answer_reaches_client:
  assumes "seals (sv_odoh_rs sv) (key_pair (sv_odoh_key sv)) seal open_answer"
    and "rq_path req = sv_path sv" "parse_content_type (rq_headers req) = Inr Oblivious"
    and "request_query sv req = Some (seal query)" "sv_proxy sv query None = Ok r"
    and "fits_odoh query" "fits_odoh (dr_packet r)" "length (sv_nonce sv) = RESPONSE_NONCE_LEN"
  shows "\<exists>resp. http_call sv req = Some (Ok resp) \<and> rs_status resp = 200
    \<and> open_answer query (rs_body resp) = Some (dr_packet r)
    \<and> rs_headers resp = [(''content-length'', show_nat (length (rs_body resp))),
        (''content-type'', ''application/oblivious-dns-message''),
        (''cache-control'', ''max-age=0, stale-if-error=86400, stale-while-revalidate=60'')]"
  using seals_answer [OF assms(1,6-8)] http_call_query(2) [OF assms(2,4,3)] assms(5)
  by (auto simp: serve_odoh_eq packet_response_def cache_control_expired)

theorem oblivious_answer_reaches_client_witness:
  "\<exists>resp. http_call (sample_server (\<lambda>_ _. Ok sample_reply)) (sample_request Oblivious ''GET'' ''dns=q'') = Some (Ok resp)
    \<and> rs_status resp = 200 \<and> rev (rs_body resp) = [1, 2, 3]"
proof -
  let ?sv = "sample_server (\<lambda>_ _. Ok sample_reply)"
  have s: "seals (sv_odoh_rs ?sv) (key_pair (sv_odoh_key ?sv)) rev (\<lambda>_ bytes. Some (rev bytes))"
    "fits_odoh (dr_packet sample_reply)" "length (sv_nonce ?sv) = RESPONSE_NONCE_LEN"
    using sample_seals by (simp_all add: sample_server_def sample_reply_def fits_odoh_def RESPONSE_NONCE_LEN_def)
  have "fits_odoh (enc_msg sample_query)" by (simp add: fits_odoh_def enc_sample_query_length)
  from oblivious_answer_reaches_client [OF s(1) _ sample_content_type _ _ this s(2,3), of "''GET''" "''dns=q''"]
  show ?thesis by (auto simp: sample_request_simps sample_reply_def)
qed

text \<open>
  Where client subnets are added, the client is whoever the header
  X-Forwarded-For names first: an IPv4 address in it, as the program prints it, is taken before any
  other header and before the address of the connection.
\<close>

lemma forwarded_address_wins:
  assumes "map_of hs ''x-forwarded-for'' = Some (show_octets4 q @ rest)"
    and "rest = [] \<or> hd rest = CHR '',''" "header_to_str rest = Some rest"
  shows "extract_client_ip hs remote_addr = Some (V4 q)"
proof -
  have "hd (split_on (CHR '','') (show_octets4 q @ rest)) = show_octets4 q"
    using assms(2) show_octets4_plain(2) [of q]
    by (cases rest) (simp_all add: split_on_append split_on_none)
  moreover have "header_to_str (show_octets4 q @ rest) = Some (show_octets4 q @ rest)"
    using assms(3) show_octets4_plain(3) by (simp add: header_to_str_append)
  ultimately show ?thesis
    using assms(1) by (simp add: extract_client_ip_def header_ip_def show_octets4_plain(1) parse_show_octets4)
qed

end
