(* ===== verification/Bootstrap.thy ===== *)
theory Bootstrap
  imports Proxy
begin

text \<open>
  The resolution of the host names of upstreams (\<open>resolve_upstream_addrs\<close> and the bootstrap
  functions of \<open>src/libdoh/src/lib.rs\<close>): queries to the bootstrap servers, the reader of their
  answers, the cache of resolved names, and the DNS-over-TLS client that uses the addresses.

  The network and the clock are parameters. The bootstrap servers are asked at the same time, and
  the first success wins: the order in which they finish is a parameter, and since only a success
  stores into the cache, and ends the race, asking them in that order is the same. Times are
  milliseconds, an unsigned 64-bit number that saturates.

  The lemmas show that the queries decode, that the reader of answers agrees with the message codec,
  that one server that answers is enough, and for how long an answer is kept.
\<close>

definition BOOTSTRAP_DNS_FLAG_QR :: u16 where "BOOTSTRAP_DNS_FLAG_QR = 0x8000"
definition BOOTSTRAP_DNS_CLASS_IN :: u16 where "BOOTSTRAP_DNS_CLASS_IN = 1"
definition BOOTSTRAP_DNS_TYPE_A :: u16 where "BOOTSTRAP_DNS_TYPE_A = 1"
definition BOOTSTRAP_DNS_TYPE_AAAA :: u16 where "BOOTSTRAP_DNS_TYPE_AAAA = 28"

record BootstrapDnsResult =
  br_addrs :: "ip_addr list"
  br_min_ttl_secs :: u32

record BootstrapCacheEntry =
  bc_addrs :: "ip_addr list"
  bc_expire_at_ms :: u64

type_synonym bootstrap_cache = "SocketAddr \<times> string \<rightharpoonup> BootstrapCacheEntry"

subsection \<open>The query\<close>

fun bootstrap_labels :: "string list \<Rightarrow> DoHError + packet" where
  "bootstrap_labels [] = Inr []"
| "bootstrap_labels (label # rest) =
    (if label = [] \<or> length label > 63 \<or> CHR 0x00 \<in> set label then Inl UpstreamIssue
     else case bootstrap_labels rest of
       Inl e \<Rightarrow> Inl e
     | Inr bs \<Rightarrow> Inr (of_nat (length label) # map char_byte label @ bs))"

definition build_bootstrap_dns_query :: "u16 \<Rightarrow> string \<Rightarrow> u16 \<Rightarrow> DoHError + packet \<times> u16" where
  "build_bootstrap_dns_query query_id host qtype =
    (let host = trim_end_matches (CHR ''.'') host in
     if host = [] then Inl UpstreamIssue
     else case bootstrap_labels (split_on (CHR ''.'') host) of
       Inl e \<Rightarrow> Inl e
     | Inr name \<Rightarrow> Inr (u16_be query_id @ u16_be 0x0100 @ u16_be 1 @ [0, 0, 0, 0, 0, 0]
         @ name @ [0] @ u16_be qtype @ u16_be BOOTSTRAP_DNS_CLASS_IN, query_id))"

subsection \<open>The answer\<close>

definition lower_byte :: "byte \<Rightarrow> byte" where
  "lower_byte b = (if 0x41 \<le> b \<and> b \<le> 0x5A then b + 0x20 else b)"

text \<open>The offset behind the first pointer is present when a jump was made.\<close>

function parse_name_lower_loop ::
  "packet \<Rightarrow> nat \<Rightarrow> nat option \<Rightarrow> nat \<Rightarrow> bool \<Rightarrow> packet \<Rightarrow> (DoHError, packet \<times> nat) res" where
  "parse_name_lower_loop p cursor next_offset jump_count first_label name =
    (if cursor \<ge> length p then Err UpstreamIssue
     else rbind (byte_at p cursor) (\<lambda>len.
       if len AND 0xC0 = 0xC0 then
         (if length p - cursor < 2 then Err UpstreamIssue
          else rbind (byte_at p (cursor + 1)) (\<lambda>b2.
            let ptr = pointer_target len b2 in
            if ptr \<ge> length p then Err UpstreamIssue
            else if jump_count + 1 > length p then Err UpstreamIssue
            else parse_name_lower_loop p ptr (Some (unwrap_or next_offset (cursor + 2))) (jump_count + 1) first_label name))
       else if len AND 0xC0 = 0 then
         (if len = 0 then Ok (name @ [0x2E], unwrap_or next_offset (cursor + 1))
          else
            let label_len = unat len in
            if label_len > 63 \<or> length p - (cursor + 1) < label_len then Err UpstreamIssue
            else rbind (subslice_at p (cursor + 1) label_len) (\<lambda>label.
              parse_name_lower_loop p (cursor + 1 + label_len) next_offset jump_count False
                (name @ (if first_label then [] else [0x2E]) @ map lower_byte label)))
       else Err UpstreamIssue))"
  by pat_completeness auto
termination
  by (relation "measures [\<lambda>(p, c, n, j, f, s). length p - j, \<lambda>(p, c, n, j, f, s). length p - c]") auto

declare parse_name_lower_loop.simps [simp del]

definition parse_dns_name_lower :: "packet \<Rightarrow> nat \<Rightarrow> (DoHError, packet \<times> nat) res" where
  "parse_dns_name_lower p start_offset =
    (if start_offset \<ge> length p then Err UpstreamIssue
     else parse_name_lower_loop p start_offset None 0 True [])"

fun skip_bootstrap_questions :: "packet \<Rightarrow> nat \<Rightarrow> nat \<Rightarrow> (DoHError, nat) res" where
  "skip_bootstrap_questions p offset 0 = Ok offset"
| "skip_bootstrap_questions p offset (Suc n) =
    rbind (map_err (\<lambda>_. UpstreamIssue) (skip_name p offset)) (\<lambda>offset.
      if length p - offset < 4 then Err UpstreamIssue
      else skip_bootstrap_questions p (offset + 4) n)"

text \<open>The address of an answer record, when it is one of the type asked for.\<close>

definition bootstrap_addr :: "packet \<Rightarrow> u16 \<Rightarrow> nat \<Rightarrow> nat \<Rightarrow> (DoHError, ip_addr option) res" where
  "bootstrap_addr p rr_type rdata_offset rdlen =
    (if rr_type = BOOTSTRAP_DNS_TYPE_A \<and> rdlen = 4 then
       rbind (subslice_at p rdata_offset 4) (\<lambda>octets. Ok (Some (V4 (octets4_of octets 0))))
     else if rr_type = BOOTSTRAP_DNS_TYPE_AAAA \<and> rdlen = 16 then
       rbind (subslice_at p rdata_offset 16) (\<lambda>octets.
         Ok (Some (V6 (octets4_of octets 0) (octets4_of octets 4) (octets4_of octets 8) (octets4_of octets 12))))
     else Ok None)"

fun bootstrap_answers ::
  "packet \<Rightarrow> packet \<Rightarrow> u16 \<Rightarrow> nat \<Rightarrow> nat \<Rightarrow> BootstrapDnsResult \<Rightarrow> (DoHError, BootstrapDnsResult) res" where
  "bootstrap_answers p question_name qtype offset 0 acc = Ok acc"
| "bootstrap_answers p question_name qtype offset (Suc n) acc =
    rbind (parse_dns_name_lower p offset) (\<lambda>(owner_name, offset).
      if length p - offset < 10 then Err UpstreamIssue
      else
        rbind (read_u16 p offset) (\<lambda>rr_type.
        rbind (read_u16 p (offset + 2)) (\<lambda>rr_class.
        rbind (read_u32 p (offset + 4)) (\<lambda>rr_ttl.
        rbind (read_u16 p (offset + 8)) (\<lambda>rdlength.
        let rdlen = unat rdlength; rdata_offset = offset + 10 in
        if length p - rdata_offset < rdlen then Err UpstreamIssue
        else
          rbind (if owner_name = question_name \<and> rr_class = BOOTSTRAP_DNS_CLASS_IN \<and> rr_type = qtype
                 then bootstrap_addr p rr_type rdata_offset rdlen else Ok None) (\<lambda>addr.
          let acc = (case addr of
              None \<Rightarrow> acc
            | Some ip \<Rightarrow> \<lparr>br_addrs = br_addrs acc @ [ip], br_min_ttl_secs = min (br_min_ttl_secs acc) rr_ttl\<rparr>)
          in bootstrap_answers p question_name qtype (rdata_offset + rdlen) n acc))))))"

definition parse_bootstrap_dns_response :: "packet \<Rightarrow> u16 \<Rightarrow> u16 \<Rightarrow> (DoHError, BootstrapDnsResult) res" where
  "parse_bootstrap_dns_response p query_id qtype =
    (if length p < 12 then Err UpstreamIssue
     else rbind (read_u16 p 0) (\<lambda>response_id.
     if response_id \<noteq> query_id then Err UpstreamIssue
     else rbind (read_u16 p 2) (\<lambda>flags.
     if flags AND BOOTSTRAP_DNS_FLAG_QR = 0 then Err UpstreamIssue
     else
       rbind (read_u16 p 4) (\<lambda>qdcount.
       rbind (read_u16 p 6) (\<lambda>ancount.
       if qdcount = 0 then Err UpstreamIssue
       else
         rbind (parse_dns_name_lower p 12) (\<lambda>(question_name, offset).
           if length p - offset < 4 then Err UpstreamIssue
           else
             rbind (skip_bootstrap_questions p (offset + 4) (unat qdcount - 1)) (\<lambda>offset.
             bootstrap_answers p question_name qtype offset (unat ancount)
               \<lparr>br_addrs = [], br_min_ttl_secs = 0xFFFFFFFF\<rparr>)))))))"

subsection \<open>The cache\<close>

definition normalize_bootstrap_host :: "string \<Rightarrow> DoHError + string" where
  "normalize_bootstrap_host host =
    (let trimmed = trim_unicode host in
     if trimmed = [] then Inl UpstreamIssue
     else
       let lower = to_ascii_lowercase trimmed in
       Inr (if last lower = CHR ''.'' then lower else lower @ ''.''))"

definition load_bootstrap_cache :: "u64 \<Rightarrow> bootstrap_cache \<Rightarrow> SocketAddr \<Rightarrow> string \<Rightarrow> ip_addr list option" where
  "load_bootstrap_cache now cache resolver host =
    (case cache (resolver, host) of
       None \<Rightarrow> None
     | Some entry \<Rightarrow> if bc_expire_at_ms entry \<ge> now then Some (bc_addrs entry) else None)"

definition store_bootstrap_cache ::
  "u64 \<Rightarrow> SocketAddr \<Rightarrow> string \<Rightarrow> ip_addr list \<Rightarrow> u32 \<Rightarrow> bootstrap_cache \<Rightarrow> bootstrap_cache" where
  "store_bootstrap_cache now resolver host addrs ttl_secs cache =
    cache((resolver, host) \<mapsto> \<lparr>bc_addrs = addrs,
      bc_expire_at_ms = saturating_add_u64 now (saturating_mul_u64 (ucast ttl_secs) 1000)\<rparr>)"

subsection \<open>Resolution\<close>

text \<open>
  What one question meets: its random identifier, the outcome of binding, connecting and sending,
  and of receiving with the time it takes. The address lookup of the system is a parameter too.
\<close>

record bootstrap_net =
  bn_id :: "SocketAddr \<Rightarrow> u16 \<Rightarrow> u16"
  bn_bind :: "SocketAddr \<Rightarrow> io_error + unit"
  bn_connect :: "SocketAddr \<Rightarrow> io_error + unit"
  bn_send :: "SocketAddr \<Rightarrow> packet \<Rightarrow> io_error + unit"
  bn_recv :: "SocketAddr \<Rightarrow> packet \<Rightarrow> (io_error + packet) \<times> duration"
  bn_load_ms :: u64
  bn_store_ms :: u64
  bn_lookup_host :: "string \<Rightarrow> u16 \<Rightarrow> SocketAddr list option"

record bootstrap_settings =
  bs_local_bind_address :: SocketAddr
  bs_bootstrap_dns :: "SocketAddr list"
  bs_timeout :: duration

definition bind_mismatch :: DoHError where
  "bind_mismatch = Io (IoError AddrNotAvailableKind (Some StdOther) ''local bind address family mismatch'')"

definition resolve_one_bootstrap ::
  "bootstrap_settings \<Rightarrow> bootstrap_net \<Rightarrow> SocketAddr \<Rightarrow> string \<Rightarrow> u16 \<Rightarrow> (DoHError, BootstrapDnsResult) res" where
  "resolve_one_bootstrap bs net resolver host qtype =
    (case build_bootstrap_dns_query (bn_id net resolver qtype) host qtype of
       Inl e \<Rightarrow> Err e
     | Inr (query_packet, query_id) \<Rightarrow>
         (case local_bind_for_peer (bs_local_bind_address bs) resolver of
            None \<Rightarrow> Err bind_mismatch
          | Some bind_addr \<Rightarrow>
              rbind (io_result (bn_bind net bind_addr)) (\<lambda>_.
              rbind (io_result (bn_connect net resolver)) (\<lambda>_.
              rbind (io_result (bn_send net resolver query_packet)) (\<lambda>_.
              let (received, elapsed) = bn_recv net resolver query_packet in
              if bs_timeout bs \<noteq> 0 \<and> elapsed > bs_timeout bs then Err UpstreamTimeout
              else rbind (io_result received) (\<lambda>packet.
                parse_bootstrap_dns_response (take MAX_DNS_RESPONSE_LEN packet) query_id qtype))))))"

definition resolve_with_bootstrap_resolver ::
  "bootstrap_settings \<Rightarrow> bootstrap_net \<Rightarrow> string \<Rightarrow> SocketAddr \<Rightarrow> bootstrap_cache
    \<Rightarrow> (DoHError, ip_addr list) res \<times> bootstrap_cache" where
  "resolve_with_bootstrap_resolver bs net host resolver cache =
    (case normalize_bootstrap_host host of
       Inl e \<Rightarrow> (Err e, cache)
     | Inr normalized_host \<Rightarrow>
         (case load_bootstrap_cache (bn_load_ms net) cache resolver normalized_host of
            Some cached_addrs \<Rightarrow> (Ok cached_addrs, cache)
          | None \<Rightarrow>
              (let query_host = trim_end_matches (CHR ''.'') normalized_host in
               case rbind (resolve_one_bootstrap bs net resolver query_host BOOTSTRAP_DNS_TYPE_A) (\<lambda>a_res.
                    rbind (resolve_one_bootstrap bs net resolver query_host BOOTSTRAP_DNS_TYPE_AAAA) (\<lambda>aaaa_res.
                    Ok (br_addrs a_res @ br_addrs aaaa_res,
                        min (br_min_ttl_secs a_res) (br_min_ttl_secs aaaa_res)))) of
                 Ok (a_addrs, ttl_secs) \<Rightarrow>
                   (Ok a_addrs, store_bootstrap_cache (bn_store_ms net) resolver normalized_host a_addrs ttl_secs cache)
               | Err e \<Rightarrow> (Err e, cache)
               | Panic \<Rightarrow> (Panic, cache))))"

text \<open>The servers in the order in which they finish.\<close>

fun bootstrap_race ::
  "bootstrap_settings \<Rightarrow> bootstrap_net \<Rightarrow> string \<Rightarrow> SocketAddr list \<Rightarrow> DoHError option \<Rightarrow> bootstrap_cache
    \<Rightarrow> (DoHError, ip_addr list) res \<times> bootstrap_cache" where
  "bootstrap_race bs net host [] last_err cache = (Err (unwrap_or last_err UpstreamIssue), cache)"
| "bootstrap_race bs net host (resolver # pending) last_err cache =
    (case resolve_with_bootstrap_resolver bs net host resolver cache of
       (Ok addrs, cache) \<Rightarrow> (Ok addrs, cache)
     | (Err err, cache) \<Rightarrow> bootstrap_race bs net host pending (Some err) cache
     | (Panic, cache) \<Rightarrow> (Panic, cache))"

definition resolve_upstream_ips_with_bootstrap ::
  "bootstrap_settings \<Rightarrow> bootstrap_net \<Rightarrow> SocketAddr list \<Rightarrow> string \<Rightarrow> bootstrap_cache
    \<Rightarrow> (DoHError, ip_addr list) res \<times> bootstrap_cache" where
  "resolve_upstream_ips_with_bootstrap bs net finished host cache = bootstrap_race bs net host finished None cache"

definition resolve_upstream_addrs ::
  "bootstrap_settings \<Rightarrow> bootstrap_net \<Rightarrow> SocketAddr list \<Rightarrow> string \<Rightarrow> u16 \<Rightarrow> bootstrap_cache
    \<Rightarrow> (DoHError, SocketAddr list) res \<times> bootstrap_cache" where
  "resolve_upstream_addrs bs net finished host port cache =
    (case parse_ip_addr host of
       Some ip \<Rightarrow> (Ok [socket_addr_new ip port], cache)
     | None \<Rightarrow>
         if bs_bootstrap_dns bs = [] then
           ((case bn_lookup_host net host port of
               None \<Rightarrow> Err UpstreamIssue
             | Some addrs \<Rightarrow> if addrs = [] then Err UpstreamIssue else Ok addrs), cache)
         else
           (case resolve_upstream_ips_with_bootstrap bs net finished host cache of
              (Ok ips, cache) \<Rightarrow>
                (if ips = [] then Err UpstreamIssue else Ok (map (\<lambda>ip. socket_addr_new ip port) ips), cache)
            | (Err e, cache) \<Rightarrow> (Err e, cache)
            | (Panic, cache) \<Rightarrow> (Panic, cache)))"

subsection \<open>DNS over TLS\<close>

text \<open>
  The TLS library: whether it takes the host as a server name and its configuration, and the
  stream it opens over a connection. The connection to an address is bound, connected and set up.
\<close>

record dot_net =
  dt_server_name_ok :: "string \<Rightarrow> bool"
  dt_config :: "DoHError + unit"
  dt_connect :: "SocketAddr \<Rightarrow> SocketAddr \<Rightarrow> io_error + unit"
  dt_nodelay :: "SocketAddr \<Rightarrow> io_error + unit"
  dt_tls :: "SocketAddr \<Rightarrow> stream option"

fun dot_loop :: "dot_net \<Rightarrow> SocketAddr \<Rightarrow> packet \<Rightarrow> SocketAddr list \<Rightarrow> DoHError option \<Rightarrow> (DoHError, packet) res" where
  "dot_loop net local_bind_address query [] last_err = Err (unwrap_or last_err UpstreamIssue)"
| "dot_loop net local_bind_address query (addr # addrs) last_err =
    (case connect_tcp_with_local_bind (dt_connect net) local_bind_address addr of
       Inl e \<Rightarrow> dot_loop net local_bind_address query addrs (Some (Io e))
     | Inr _ \<Rightarrow>
         (case dt_nodelay net addr of
            Inl e \<Rightarrow> dot_loop net local_bind_address query addrs (Some (Io e))
          | Inr _ \<Rightarrow>
              (case dt_tls net addr of
                 None \<Rightarrow> dot_loop net local_bind_address query addrs (Some UpstreamIssue)
               | Some tls_stream \<Rightarrow> dns_exchange_over_stream tls_stream query)))"

definition proxy_dot ::
  "bootstrap_settings \<Rightarrow> bootstrap_net \<Rightarrow> dot_net \<Rightarrow> SocketAddr list \<Rightarrow> packet \<Rightarrow> DotUpstream \<Rightarrow> bootstrap_cache
    \<Rightarrow> (DoHError, packet) res \<times> bootstrap_cache" where
  "proxy_dot bs net dot finished query upstream cache =
    (if \<not> dt_server_name_ok dot (dot_host upstream) then (Err UpstreamIssue, cache)
     else case dt_config dot of
       Inl e \<Rightarrow> (Err e, cache)
     | Inr _ \<Rightarrow>
         (case resolve_upstream_addrs bs net finished (dot_host upstream) (dot_port upstream) cache of
            (Ok addrs, cache) \<Rightarrow> (dot_loop dot (bs_local_bind_address bs) query addrs None, cache)
          | (Err e, cache) \<Rightarrow> (Err e, cache)
          | (Panic, cache) \<Rightarrow> (Panic, cache)))"

subsection \<open>The reader of names stops\<close>

text \<open>
  The steps of reading a name, counted: a name whose reading ends visits no position twice, so that
  it follows fewer pointers than the packet has octets.
\<close>

inductive name_steps :: "packet \<Rightarrow> nat \<Rightarrow> nat \<Rightarrow> bool" for p where
  root: "c < length p \<Longrightarrow> p ! c = 0 \<Longrightarrow> name_steps p c 0"
| pointer: "c + 1 < length p \<Longrightarrow> p ! c AND 0xC0 = 0xC0 \<Longrightarrow>
    name_steps p (pointer_target (p ! c) (p ! (c + 1))) k \<Longrightarrow> name_steps p c (Suc k)"
| label: "c < length p \<Longrightarrow> p ! c AND 0xC0 = 0 \<Longrightarrow> 0 < unat (p ! c) \<Longrightarrow>
    name_steps p (c + (1 + unat (p ! c))) k \<Longrightarrow> name_steps p c (Suc k)"

lemma name_steps_0: "name_steps p c k \<Longrightarrow> p ! c = 0 \<Longrightarrow> k = 0"
  by (erule name_steps.cases) simp_all

lemma name_steps_pointer:
  assumes "name_steps p c k" "p ! c AND 0xC0 = 0xC0"
  obtains k' where "k = Suc k'" "name_steps p (pointer_target (p ! c) (p ! (c + 1))) k'"
  using assms(1) by (cases rule: name_steps.cases) (use assms(2) in auto)

lemma name_steps_label:
  assumes "name_steps p c k" "p ! c AND 0xC0 = 0" "0 < unat (p ! c)"
  obtains k' where "k = Suc k'" "name_steps p (c + (1 + unat (p ! c))) k'"
  using assms(1) by (cases rule: name_steps.cases) (use assms(2,3) in auto)

lemma name_steps_det: "name_steps p c k \<Longrightarrow> name_steps p c k' \<Longrightarrow> k = k'"
proof (induction arbitrary: k' rule: name_steps.induct)
  case (root c)
  from name_steps_0 [OF root.prems root.hyps(2)] show ?case by simp
next
  case (pointer c k)
  from name_steps_pointer [OF pointer.prems pointer.hyps(2)] pointer.IH show ?case by metis
next
  case (label c k)
  from name_steps_label [OF label.prems label.hyps(2,3)] label.IH show ?case by metis
qed

lemma name_steps_visits: "name_steps p c k \<Longrightarrow> i \<le> k \<Longrightarrow> \<exists>d < length p. name_steps p d i"
proof (induction arbitrary: i rule: name_steps.induct)
  case (root c)
  then show ?case using name_steps.root by auto
next
  case (pointer c k)
  then have "name_steps p c (Suc k)" by (intro name_steps.pointer)
  with pointer show ?case by (cases "i = Suc k") (auto intro: Suc_lessD)
next
  case (label c k)
  then have "name_steps p c (Suc k)" by (intro name_steps.label)
  with label show ?case by (cases "i = Suc k") auto
qed

lemma name_steps_less:
  assumes "name_steps p c k"
  shows "k < length p"
proof -
  have "\<forall>i \<in> {..k}. \<exists>d. d < length p \<and> name_steps p d i"
    using name_steps_visits [OF assms] by auto
  then obtain f where f: "\<forall>i \<in> {..k}. f i < length p \<and> name_steps p (f i) i"
    by (rule bchoice [THEN exE])
  have "inj_on f {..k}"
  proof (rule inj_onI)
    fix i j assume "i \<in> {..k}" "j \<in> {..k}" "f i = f j"
    with f have "name_steps p (f i) i" "name_steps p (f i) j" by metis+
    then show "i = j" by (rule name_steps_det)
  qed
  moreover have "f ` {..k} \<subseteq> {..<length p}" using f by auto
  ultimately have "card {..k} \<le> card {..<length p}" by (rule card_inj_on_le) simp
  then show ?thesis by simp
qed

lemma name_loop_steps: "name_loop p ls c cs pf wl = Ok r \<Longrightarrow> \<exists>k. name_steps p c k"
proof (induction rule: name_loop_Ok_induct)
  case (pointer ls c cs pf wl)
  then show ?case using name_steps.pointer by blast
next
  case (root ls c cs pf wl)
  then show ?case using name_steps.root by blast
next
  case (label ls c cs pf wl)
  then show ?case using name_steps.label by blast
qed

subsection \<open>The reader agrees with the codec\<close>

text \<open>The name in lower case, with a dot behind every label.\<close>

fun lower_labels :: "packet list \<Rightarrow> packet" where
  "lower_labels [] = []"
| "lower_labels [l] = map lower_byte l"
| "lower_labels (l # ls) = map lower_byte l @ [0x2E] @ lower_labels ls"

definition lower_name :: "Name \<Rightarrow> packet" where
  "lower_name n = lower_labels (labels n) @ [0x2E]"

lemma lower_labels_snoc:
  "lower_labels (ls @ [l]) = lower_labels ls @ (if ls = [] then [] else [0x2E]) @ map lower_byte l"
  by (induction ls rule: lower_labels.induct) auto

lemma parse_name_lower_loop_agrees:
  assumes "name_loop p ls c cs pf wl = Ok r" "name_steps p c k" "jc + k \<le> length p"
  shows "parse_name_lower_loop p c cs jc (ls = []) (lower_labels ls) = Ok (lower_name (fst r), snd r)"
  using assms
proof (induction arbitrary: k jc rule: name_loop_Ok_induct)
  case (pointer ls c cs pf wl)
  let ?t = "pointer_target (p ! c) (p ! (c + 1))"
  obtain k' where k: "k = Suc k'" "name_steps p ?t k'"
    using name_steps_pointer [OF pointer.prems(1) pointer.hyps(2)] by blast
  then have "?t < length p" using name_steps_visits [of p ?t k' k'] by (auto elim: name_steps.cases)
  with k pointer show ?case
    by (subst parse_name_lower_loop.simps) (simp add: Let_def)
next
  case (root ls c cs pf wl)
  then show ?case by (subst parse_name_lower_loop.simps) (simp add: Let_def lower_name_def)
next
  case (label ls c cs pf wl)
  have nz: "p ! c \<noteq> 0" using label.hyps(3) by auto
  obtain k' where k: "k = Suc k'" "name_steps p (c + (1 + unat (p ! c))) k'"
    using name_steps_label [OF label.prems(1) label.hyps(2,3)] by blast
  with label nz show ?case
    by (subst parse_name_lower_loop.simps) (simp add: Let_def lower_labels_snoc add.assoc)
qed

lemma parse_dns_name_lower_agrees:
  assumes "name_from_wire p off = Ok (n, nx)"
  shows "parse_dns_name_lower p off = Ok (lower_name n, nx)"
proof -
  have l: "name_loop p [] off None 0 1 = Ok (n, nx)" using assms by (simp add: name_from_wire_def)
  obtain k where k: "name_steps p off k" using name_loop_steps [OF l] by blast
  from parse_name_lower_loop_agrees [OF l k, of 0] name_steps_less [OF k] name_from_wire_bounds [OF assms]
  show ?thesis by (simp add: parse_dns_name_lower_def)
qed

interpretation lower_names: name_reader parse_dns_name_lower lower_name
  by unfold_locales (simp add: parse_dns_name_lower_agrees from_wire.rd_enc)

subsection \<open>Answers\<close>

text \<open>
  The result as a function of the answer section: the addresses of the records that have the name
  of the question and the type asked for, and the smallest of their times to live.
\<close>

definition bootstrap_rrs :: "packet \<Rightarrow> u16 \<Rightarrow> ResourceRecord list \<Rightarrow> ResourceRecord list" where
  "bootstrap_rrs question_name qtype rs = filter (\<lambda>r. lower_name (rr_name r) = question_name
     \<and> rr_to_u16 (rr_rr_type r) = qtype \<and> rr_ip r \<noteq> None) rs"

definition add_rr :: "ResourceRecord \<Rightarrow> BootstrapDnsResult \<Rightarrow> BootstrapDnsResult" where
  "add_rr r acc = \<lparr>br_addrs = br_addrs acc @ [the (rr_ip r)], br_min_ttl_secs = min (br_min_ttl_secs acc) (rr_ttl r)\<rparr>"

definition bootstrap_result :: "packet \<Rightarrow> u16 \<Rightarrow> ResourceRecord list \<Rightarrow> BootstrapDnsResult" where
  "bootstrap_result question_name qtype rs =
    \<lparr>br_addrs = map (the \<circ> rr_ip) (bootstrap_rrs question_name qtype rs),
     br_min_ttl_secs = Min (insert 0xFFFFFFFF (rr_ttl ` set (bootstrap_rrs question_name qtype rs)))\<rparr>"

lemma fold_add_rr:
  "fold add_rr rs acc = \<lparr>br_addrs = br_addrs acc @ map (the \<circ> rr_ip) rs,
     br_min_ttl_secs = Min (insert (br_min_ttl_secs acc) (rr_ttl ` set rs))\<rparr>"
proof (induction rs arbitrary: acc)
  case (Cons r rs)
  have "Min (insert (min a b) S) = Min (insert a (insert b S))" if "finite S" for a b :: u32 and S
    using that by (cases "S = {}") (simp_all add: min.assoc)
  then show ?case by (simp add: Cons.IH) (simp add: add_rr_def)
qed simp

lemma octets4_of_subslice:
  "i + 4 \<le> n \<Longrightarrow> off + n \<le> length p \<Longrightarrow> octets4_of (subslice p off n) i = octets4_of p (off + i)"
  by (simp add: octets4_of_def subslice_def add.assoc)

lemma bootstrap_addr_rr_ip:
  assumes "off + n \<le> length p" "rr_rr_type r = rr_from_u16 t" "rr_rr_class r = DNS_CLASS_IN" "rr_rdata r = subslice p off n"
  shows "bootstrap_addr p t off n = Ok (rr_ip r)"
proof -
  have "RR_A = rr_from_u16 t \<longleftrightarrow> t = BOOTSTRAP_DNS_TYPE_A" "RR_AAAA = rr_from_u16 t \<longleftrightarrow> t = BOOTSTRAP_DNS_TYPE_AAAA"
    using rr_from_u16_eq_iff [of RR_A t] rr_from_u16_eq_iff [of RR_AAAA t]
    by (auto simp: BOOTSTRAP_DNS_TYPE_A_def BOOTSTRAP_DNS_TYPE_AAAA_def)
  then have t: "rr_rr_type r = RR_A \<longleftrightarrow> t = BOOTSTRAP_DNS_TYPE_A" "rr_rr_type r = RR_AAAA \<longleftrightarrow> t = BOOTSTRAP_DNS_TYPE_AAAA"
    using assms(2) by metis+
  have len: "length (rr_rdata r) = n" using assms(1,4) by simp
  show ?thesis
    using assms(1,3,4) len by (simp add: bootstrap_addr_def rr_ip_def t subslice_at_def del: rbind_eq_Ok)
qed

lemma bootstrap_answers_agree:
  "unpack_rr_section p off n = Ok (rs, nx) \<Longrightarrow>
   bootstrap_answers p qn qtype off n acc = Ok (fold add_rr (bootstrap_rrs qn qtype rs) acc)"
proof (induction n arbitrary: off rs acc)
  case 0
  then show ?case by (simp add: bootstrap_rrs_def eq_commute)
next
  case (Suc n)
  from Suc.prems obtain name off' rs' r where
    name: "name_from_wire p off = Ok (name, off')" and rs: "rs = r # rs'" and
    b: "off' + 10 + unat (get_u16 p (off' + 8)) \<le> length p" and
    rest: "unpack_rr_section p (off' + 10 + unat (get_u16 p (off' + 8))) n = Ok (rs', nx)" and
    r: "r = \<lparr>rr_name = name, rr_rr_type = rr_from_u16 (get_u16 p off'),
      rr_rr_class = get_u16 p (off' + 2), rr_ttl = get_u32 p (off' + 4),
      rr_rdata = subslice p (off' + 10) (unat (get_u16 p (off' + 8)))\<rparr>"
    by (auto simp: Let_def split: prod.splits if_splits)
  let ?addr = "bootstrap_addr p (get_u16 p off') (off' + 10) (unat (get_u16 p (off' + 8)))"
  have f: "rr_name r = name" "rr_to_u16 (rr_rr_type r) = get_u16 p off'" "rr_rr_class r = get_u16 p (off' + 2)"
    "rr_ttl r = get_u32 p (off' + 4)" by (simp_all add: r)
  have ip: "get_u16 p (off' + 2) = BOOTSTRAP_DNS_CLASS_IN \<Longrightarrow> ?addr = Ok (rr_ip r)"
    "get_u16 p (off' + 2) \<noteq> BOOTSTRAP_DNS_CLASS_IN \<Longrightarrow> rr_ip r = None"
    using bootstrap_addr_rr_ip [OF b, of r "get_u16 p off'"]
    by (simp_all add: r BOOTSTRAP_DNS_CLASS_IN_def DNS_CLASS_IN_def rr_ip_def)
  have sel: "bootstrap_rrs qn qtype rs = (if lower_name name = qn \<and> get_u16 p off' = qtype \<and> rr_ip r \<noteq> None
      then [r] else []) @ bootstrap_rrs qn qtype rs'"
    by (simp add: bootstrap_rrs_def rs f)
  show ?case
    using parse_dns_name_lower_agrees [OF name] b Suc.IH [OF rest] ip
    by (auto simp: sel Let_def add_rr_def f simp del: rbind_eq_Ok split: option.split)
qed

lemma skip_bootstrap_questions_agree:
  "unpack_questions p off n = Ok (qs, nx) \<Longrightarrow> skip_bootstrap_questions p off n = Ok nx"
proof (induction n arbitrary: off qs)
  case (Suc n)
  from Suc.prems obtain name off' qs' where
    name: "name_from_wire p off = Ok (name, off')" and off': "\<not> length p - off' < 4" and
    rest: "unpack_questions p (off' + 4) n = Ok (qs', nx)"
    by (auto split: prod.splits if_splits)
  have "skip_name p off = Ok off'"
    using off' name_from_wire_bounds [OF name] by (intro name_from_wire_skip_name [OF name]) simp
  with off' Suc.IH [OF rest] show ?case by simp
qed simp

lemma response_bit: "get_u16 p 2 AND BOOTSTRAP_DNS_FLAG_QR = 0 \<longleftrightarrow> \<not> h_response (header_from_wire i (get_u16 p 2))"
proof -
  have "BOOTSTRAP_DNS_FLAG_QR = push_bit 15 1" by (simp add: BOOTSTRAP_DNS_FLAG_QR_def)
  then show ?thesis by (simp add: header_from_wire_def)
qed

lemma parse_bootstrap_agrees:
  assumes "msg_unpack p = Ok m" "h_id (m_header m) = query_id" "h_response (m_header m)" "m_questions m = q # qs"
  shows "parse_bootstrap_dns_response p query_id qtype
    = Ok (bootstrap_result (lower_name (q_name q)) qtype (m_answers m))"
proof -
  from assms(1) obtain qs0 an o1 o2 where len: "12 \<le> length p"
    and u: "unpack_questions p 12 (unat (get_u16 p 4)) = Ok (qs0, o1)"
      "unpack_rr_section p o1 (unat (get_u16 p 6)) = Ok (an, o2)"
    and m: "m_header m = header_from_wire (get_u16 p 0) (get_u16 p 2)" "m_questions m = qs0" "m_answers m = an"
    by (auto simp: msg_unpack_def DNS_HEADER_SIZE_def split: prod.splits if_splits)
  have "unat (get_u16 p 4) = Suc (length qs)"
    using unpack_questions_wf [OF u(1)] m(2) assms(4) by (metis length_Cons)
  with u(1) m(2) assms(4) obtain nx where
    name: "name_from_wire p 12 = Ok (q_name q, nx)" and nx: "\<not> length p - nx < 4" and
    rest: "unpack_questions p (nx + 4) (length qs) = Ok (qs, o1)"
    by (auto split: prod.splits if_splits)
  then have nonzero: "get_u16 p 4 \<noteq> 0" using \<open>unat (get_u16 p 4) = _\<close> by auto
  have "get_u16 p 0 = query_id" "\<not> get_u16 p 2 AND BOOTSTRAP_DNS_FLAG_QR = 0"
    using assms(2,3) m(1) response_bit [of p "get_u16 p 0"] by (simp_all add: header_from_wire_def)
  then show ?thesis
    using len nx parse_dns_name_lower_agrees [OF name] skip_bootstrap_questions_agree [OF rest]
      bootstrap_answers_agree [OF u(2)] \<open>unat (get_u16 p 4) = _\<close> nonzero
    by (simp add: parse_bootstrap_dns_response_def fold_add_rr bootstrap_result_def m Let_def del: rbind_eq_Ok)
qed

subsection \<open>No panic\<close>

lemma parse_name_lower_loop_not_Panic [simp]: "parse_name_lower_loop p c n j f s \<noteq> Panic"
  by (induction p c n j f s rule: parse_name_lower_loop.induct)
    (subst parse_name_lower_loop.simps, auto simp: Let_def rbind_eq_Panic)

lemma parse_dns_name_lower_not_Panic [simp]: "parse_dns_name_lower p off \<noteq> Panic"
  by (simp add: parse_dns_name_lower_def)

lemma skip_bootstrap_questions_not_Panic: "p \<noteq> [] \<Longrightarrow> skip_bootstrap_questions p off n \<noteq> Panic"
  by (induction p off n rule: skip_bootstrap_questions.induct) (auto simp: rbind_eq_Panic skip_name_not_Panic)

lemma bootstrap_addr_not_Panic: "off + n \<le> length p \<Longrightarrow> bootstrap_addr p t off n \<noteq> Panic"
  by (auto simp: bootstrap_addr_def rbind_eq_Panic)

lemma bootstrap_answers_not_Panic [simp]: "bootstrap_answers p qn qtype off n acc \<noteq> Panic"
proof (induction n arbitrary: off acc)
  case (Suc n)
  have "bootstrap_addr p t (b + 10) (unat w) \<noteq> Panic" if "\<not> length p - b < 10" "\<not> length p - (b + 10) < unat w" for t b and w :: u16
    using that by (intro bootstrap_addr_not_Panic) simp
  with Suc.IH show ?case by (auto simp: rbind_eq_Panic Let_def split: prod.splits)
qed simp

lemma parse_bootstrap_not_Panic [simp]: "parse_bootstrap_dns_response p query_id qtype \<noteq> Panic"
  using skip_bootstrap_questions_not_Panic [of p]
  by (cases "p = []") (auto simp: parse_bootstrap_dns_response_def rbind_eq_Panic Let_def split: prod.splits)

lemma io_result_not_Panic [simp]: "io_result r \<noteq> Panic"
  by (simp add: io_result_def split: sum.split)

lemma resolve_one_not_Panic [simp]: "resolve_one_bootstrap bs net resolver host qtype \<noteq> Panic"
  by (simp add: resolve_one_bootstrap_def rbind_eq_Panic Let_def split: sum.split prod.split option.split)

subsection \<open>The cache and the race\<close>

lemma resolve_with_not_Panic: "fst (resolve_with_bootstrap_resolver bs net host resolver cache) \<noteq> Panic"
  by (auto simp: resolve_with_bootstrap_resolver_def Let_def rbind_eq_Panic split: sum.split option.split res.split)

lemma resolve_with_Err:
  "resolve_with_bootstrap_resolver bs net host resolver cache = (Err e, cache') \<Longrightarrow> cache' = cache"
  by (auto simp: resolve_with_bootstrap_resolver_def Let_def split: sum.splits option.splits res.splits)

text \<open>A server answers when asking it yields addresses, from its cache or over the network.\<close>

definition bootstrap_ready ::
  "bootstrap_settings \<Rightarrow> bootstrap_net \<Rightarrow> string \<Rightarrow> bootstrap_cache \<Rightarrow> SocketAddr \<Rightarrow> bool" where
  "bootstrap_ready bs net host cache resolver \<longleftrightarrow>
     is_ok (fst (resolve_with_bootstrap_resolver bs net host resolver cache))"

lemma bootstrap_race_ready:
  "bootstrap_ready bs net host cache resolver \<Longrightarrow>
   bootstrap_race bs net host (resolver # pending) last_err cache = resolve_with_bootstrap_resolver bs net host resolver cache"
  by (auto simp: bootstrap_ready_def is_ok_def split: prod.splits res.splits)

lemma bootstrap_race_failed:
  assumes "\<not> bootstrap_ready bs net host cache resolver"
  shows "\<exists>e. bootstrap_race bs net host (resolver # pending) last_err cache
    = bootstrap_race bs net host pending (Some e) cache"
proof -
  obtain r cache' where r: "resolve_with_bootstrap_resolver bs net host resolver cache = (r, cache')"
    by (rule prod.exhaust)
  with assms resolve_with_not_Panic [of bs net host resolver cache] obtain e where "r = Err e"
    by (cases r) (simp_all add: bootstrap_ready_def is_ok_def)
  moreover from this have "cache' = cache" using r resolve_with_Err by blast
  ultimately show ?thesis using r by auto
qed

text \<open>The first server that is ready decides; without one, the cache stays as it is.\<close>

lemma bootstrap_race_first:
  "List.find (bootstrap_ready bs net host cache) finished = Some resolver \<Longrightarrow>
   bootstrap_race bs net host finished last_err cache = resolve_with_bootstrap_resolver bs net host resolver cache"
proof (induction finished arbitrary: last_err)
  case (Cons r rs)
  show ?case
  proof (cases "bootstrap_ready bs net host cache r")
    case True
    with Cons.prems show ?thesis by (simp add: bootstrap_race_ready del: bootstrap_race.simps)
  next
    case False
    with Cons.prems have "List.find (bootstrap_ready bs net host cache) rs = Some resolver" by simp
    from Cons.IH [OF this] bootstrap_race_failed [OF False, of rs last_err] show ?thesis by metis
  qed
qed simp

lemma bootstrap_race_none:
  "List.find (bootstrap_ready bs net host cache) finished = None \<Longrightarrow>
   \<exists>e. bootstrap_race bs net host finished last_err cache = (Err e, cache)"
proof (induction finished arbitrary: last_err)
  case (Cons r rs)
  then have "\<not> bootstrap_ready bs net host cache r" "List.find (bootstrap_ready bs net host cache) rs = None"
    by (auto split: if_splits)
  with Cons.IH bootstrap_race_failed [of bs net host cache r rs last_err] show ?case by metis
qed simp

lemma resolve_with_stores:
  assumes "normalize_bootstrap_host host = Inr nh" "load_bootstrap_cache (bn_load_ms net) cache resolver nh = None"
    and "resolve_with_bootstrap_resolver bs net host resolver cache = (Ok addrs, cache')"
  obtains a aaaa where
    "resolve_one_bootstrap bs net resolver (trim_end_matches (CHR ''.'') nh) BOOTSTRAP_DNS_TYPE_A = Ok a"
    "resolve_one_bootstrap bs net resolver (trim_end_matches (CHR ''.'') nh) BOOTSTRAP_DNS_TYPE_AAAA = Ok aaaa"
    "addrs = br_addrs a @ br_addrs aaaa"
    "cache' = store_bootstrap_cache (bn_store_ms net) resolver nh addrs (min (br_min_ttl_secs a) (br_min_ttl_secs aaaa)) cache"
  using assms by (auto simp: resolve_with_bootstrap_resolver_def Let_def split: res.splits)

lemma load_stored:
  "now \<le> saturating_add_u64 stored (saturating_mul_u64 (ucast ttl) 1000) \<Longrightarrow>
   load_bootstrap_cache now (store_bootstrap_cache stored resolver nh addrs ttl cache) resolver nh = Some addrs"
  by (simp add: load_bootstrap_cache_def store_bootstrap_cache_def)

lemma expiry:
  "unat (saturating_add_u64 stored (saturating_mul_u64 (ucast (ttl :: u32)) 1000)) = min (unat stored + unat ttl * 1000) u64_max"
proof -
  have less: "unat ttl < 2 ^ 32" using unsigned_less [of ttl, where 'a = nat] by simp
  then have t: "unat (ucast ttl :: u64) = unat ttl"
    by (simp add: unsigned_ucast_eq take_bit_nat_eq_self)
  from less have "unat ttl * 1000 \<le> u64_max" by (simp add: u64_max_def)
  then have "unat (saturating_mul_u64 (ucast ttl) 1000) = unat ttl * 1000"
    by (simp add: saturating_mul_u64_def t unat_word_ariths u64_max_def)
  then show ?thesis by (simp add: unat_saturating_add)
qed

lemma load_within:
  assumes "unat now \<le> unat stored + unat ttl * 1000"
  shows "load_bootstrap_cache now (store_bootstrap_cache stored resolver nh addrs ttl cache) resolver nh = Some addrs"
proof (rule load_stored)
  have "unat now \<le> u64_max" using unsigned_less [of now, where 'a = nat] by (simp add: u64_max_def)
  with assms show "now \<le> saturating_add_u64 stored (saturating_mul_u64 (ucast ttl) 1000)"
    by (simp add: word_le_nat_alt expiry)
qed

subsection \<open>The query of a host\<close>

definition bootstrap_name :: "string \<Rightarrow> Name" where
  "bootstrap_name host = \<lparr>labels = map (map char_byte) (split_on (CHR ''.'') (trim_end_matches (CHR ''.'') host))\<rparr>"

definition bootstrap_query :: "u16 \<Rightarrow> string \<Rightarrow> u16 \<Rightarrow> Msg" where
  "bootstrap_query query_id host qtype = \<lparr>m_header = header_from_wire query_id 0x0100, m_compress = False,
     m_questions = [\<lparr>q_name = bootstrap_name host, q_qtype = rr_from_u16 qtype, q_qclass = DNS_CLASS_IN\<rparr>],
     m_answers = [], m_authorities = [], m_additionals = []\<rparr>"

lemma bootstrap_labels_Inr:
  "bootstrap_labels ls = Inr bs \<Longrightarrow> bs = concat (map enc_label (map (map char_byte) ls))
     \<and> list_all wf_label (map (map char_byte) ls)"
  by (induction ls arbitrary: bs) (auto simp: enc_label_def wf_label_def split: if_splits sum.splits)

lemma build_bootstrap_query_Inr:
  assumes "build_bootstrap_dns_query query_id host qtype = Inr (p, i)"
  shows "i = query_id" "p = enc_msg (bootstrap_query query_id host qtype)"
    "list_all wf_label (labels (bootstrap_name host))"
proof -
  from assms obtain bs where
    b: "bootstrap_labels (split_on (CHR ''.'') (trim_end_matches (CHR ''.'') host)) = Inr bs" and i: "i = query_id" and
    p: "p = u16_be query_id @ u16_be 0x0100 @ u16_be 1 @ [0, 0, 0, 0, 0, 0] @ bs @ [0] @ u16_be qtype
        @ u16_be BOOTSTRAP_DNS_CLASS_IN"
    by (auto simp: build_bootstrap_dns_query_def Let_def split: if_splits sum.splits)
  show "i = query_id" by (rule i)
  show "list_all wf_label (labels (bootstrap_name host))"
    using bootstrap_labels_Inr [OF b] by (simp add: bootstrap_name_def)
  have h: "h_id (header_from_wire query_id 0x0100) = query_id" by (simp add: header_from_wire_def)
  have z: "u16_be 0 = [0, 0]" by (simp add: u16_be_def)
  show "p = enc_msg (bootstrap_query query_id host qtype)"
    using bootstrap_labels_Inr [OF b]
    by (simp add: p bootstrap_query_def bootstrap_name_def enc_msg_def enc_header_def h z enc_questions_def enc_question_def
        enc_rrs_def enc_name_def BOOTSTRAP_DNS_CLASS_IN_def DNS_CLASS_IN_def)
qed

subsection \<open>Answers from the network\<close>

text \<open>The server answers the question about a host with a packet, in time.\<close>

definition answered_with ::
  "bootstrap_settings \<Rightarrow> bootstrap_net \<Rightarrow> SocketAddr \<Rightarrow> string \<Rightarrow> u16 \<Rightarrow> packet \<Rightarrow> bool" where
  "answered_with bs net resolver host qtype packet \<longleftrightarrow>
    (\<exists>query bind_addr elapsed. build_bootstrap_dns_query (bn_id net resolver qtype) host qtype = Inr (query, bn_id net resolver qtype)
       \<and> local_bind_for_peer (bs_local_bind_address bs) resolver = Some bind_addr
       \<and> bn_bind net bind_addr = Inr () \<and> bn_connect net resolver = Inr () \<and> bn_send net resolver query = Inr ()
       \<and> bn_recv net resolver query = (Inr packet, elapsed) \<and> (bs_timeout bs = 0 \<or> elapsed \<le> bs_timeout bs)
       \<and> length packet \<le> MAX_DNS_RESPONSE_LEN)"

lemma resolve_one_answered:
  assumes "answered_with bs net resolver host qtype packet"
  shows "resolve_one_bootstrap bs net resolver host qtype
    = parse_bootstrap_dns_response packet (bn_id net resolver qtype) qtype"
  using assms
  by (auto simp: answered_with_def resolve_one_bootstrap_def io_result_def Let_def)

text \<open>An answer without addresses: a decodable response with an empty answer section.\<close>

definition answered_without_address :: "bootstrap_settings \<Rightarrow> bootstrap_net \<Rightarrow> SocketAddr \<Rightarrow> string \<Rightarrow> u16 \<Rightarrow> bool" where
  "answered_without_address bs net resolver host qtype \<longleftrightarrow>
    (\<exists>packet m. answered_with bs net resolver host qtype packet \<and> msg_unpack packet = Ok m
       \<and> h_id (m_header m) = bn_id net resolver qtype \<and> h_response (m_header m) \<and> m_questions m \<noteq> [] \<and> m_answers m = [])"

lemma resolve_one_without_address:
  assumes "answered_without_address bs net resolver host qtype"
  shows "resolve_one_bootstrap bs net resolver host qtype = Ok \<lparr>br_addrs = [], br_min_ttl_secs = 0xFFFFFFFF\<rparr>"
proof -
  from assms obtain packet m q qs where a: "answered_with bs net resolver host qtype packet" and
    m: "msg_unpack packet = Ok m" "h_id (m_header m) = bn_id net resolver qtype" "h_response (m_header m)"
      "m_questions m = q # qs" "m_answers m = []"
    by (auto simp: answered_without_address_def neq_Nil_conv)
  show ?thesis
    using resolve_one_answered [OF a] parse_bootstrap_agrees [OF m(1-4), of qtype] m(5)
    by (simp add: bootstrap_result_def bootstrap_rrs_def)
qed

text \<open>A bootstrap server that answers every question with SERVFAIL, for the concrete instances.\<close>

definition servfail :: packet where
  "servfail = [0, 7, 0x81, 0x82, 0, 1, 0, 0, 0, 0, 0, 0, 1, 0x61, 0, 0, 1, 0, 1]"

definition sample_resolver :: SocketAddr where "sample_resolver = SocketV4 (Octets4 9 9 9 9) 53"

definition sample_bootstrap :: bootstrap_settings where
  "sample_bootstrap = \<lparr>bs_local_bind_address = SocketV4 (Octets4 0 0 0 0) 0, bs_bootstrap_dns = [sample_resolver], bs_timeout = 10\<rparr>"

definition sample_net :: "u64 \<Rightarrow> packet \<Rightarrow> bootstrap_net" where
  "sample_net now reply = \<lparr>bn_id = (\<lambda>_ _. 7), bn_bind = (\<lambda>_. Inr ()), bn_connect = (\<lambda>_. Inr ()), bn_send = (\<lambda>_ _. Inr ()),
     bn_recv = (\<lambda>_ _. (Inr reply, 1)), bn_load_ms = now, bn_store_ms = now, bn_lookup_host = (\<lambda>_ _. None)\<rparr>"

lemma normalize_ns: "normalize_bootstrap_host ''ns'' = Inr ''ns.''"
proof -
  have "\<forall>pre \<in> set unicode_spaces. pre = [] \<or> hd pre \<noteq> CHR ''n''"
    "\<forall>pre \<in> set (map rev unicode_spaces). pre = [] \<or> hd pre \<noteq> CHR ''s''"
    by (simp_all add: unicode_spaces_def upt_rec char_of_eq_iff take_bit_eq_mod)
  then have "trim_unicode ''ns'' = ''ns''" by (simp add: trim_unicode_def strip_any_head)
  then show ?thesis by (simp add: normalize_bootstrap_host_def to_ascii_lowercase_def to_ascii_lower_def)
qed

lemma trim_ns: "trim_end_matches CHR ''.'' ''ns.'' = ''ns''" "trim_end_matches CHR ''.'' ''ns'' = ''ns''"
  by (simp_all add: trim_end_matches_def)

lemma build_ns: "\<exists>query. build_bootstrap_dns_query i ''ns'' t = Inr (query, i)"
  by (simp add: build_bootstrap_dns_query_def trim_ns)

lemma sample_answered:
  "length reply \<le> 4096 \<Longrightarrow> answered_with sample_bootstrap (sample_net now reply) sample_resolver ''ns'' t reply"
  using build_ns [of 7 t]
  by (auto simp: answered_with_def sample_bootstrap_def sample_net_def sample_resolver_def MAX_DNS_RESPONSE_LEN_def)

lemma servfail_unpack: "\<exists>m. msg_unpack servfail = Ok m \<and> h_id (m_header m) = 7 \<and> h_response (m_header m)
    \<and> m_questions m \<noteq> [] \<and> m_answers m = []"
proof -
  have "case msg_unpack servfail of Ok m \<Rightarrow> h_id (m_header m) = 7 \<and> h_response (m_header m)
    \<and> m_questions m \<noteq> [] \<and> m_answers m = [] | _ \<Rightarrow> False"
    by code_simp
  then show ?thesis by (auto split: res.splits)
qed

lemma sample_without_address:
  "answered_without_address sample_bootstrap (sample_net now servfail) sample_resolver ''ns'' t"
proof -
  have "length servfail \<le> 4096" by (simp add: servfail_def)
  from sample_answered [OF this, of now t] servfail_unpack show ?thesis
    unfolding answered_without_address_def by (auto simp: sample_net_def)
qed

lemma parse_ip_ns: "parse_ip_addr ''ns'' = None"
proof -
  have v4: "read_ipv4_addr ''ns'' = None"
    by (simp add: read_ipv4_addr_def read_octet_def read_number_def to_digit_def)
  have "read_groups l 0 ''ns'' = ([], False, ''ns'')" for l
    by (subst read_groups.simps) (simp add: read_number_def to_digit_def read_separator_def v4)
  then show ?thesis by (simp add: parse_ip_addr_def v4 read_ipv6_addr_def read_given_char_def)
qed

subsection \<open>Properties of the resolution\<close>

text \<open>
  The query sent to a bootstrap server decodes, when its name has at most 255
  octets, to one question for the labels of the host, without a dot at its end, with recursion
  desired and the identifier that the answer is compared with.
\<close>

lemma bootstrap_query_decodes:
  assumes "build_bootstrap_dns_query query_id host qtype = Inr (p, i)" "name_wire_len (bootstrap_name host) \<le> 255"
  shows "i = query_id \<and> msg_unpack p = Ok (bootstrap_query query_id host qtype)"
proof -
  have "wf_msg (bootstrap_query query_id host qtype)"
    using build_bootstrap_query_Inr(3) [OF assms(1)] assms(2)
    by (simp add: wf_msg_def bootstrap_query_def wf_question_def wf_name_def MAX_DOMAIN_NAME_WIRE_OCTETS_def)
  from msg_unpack_enc [OF this] build_bootstrap_query_Inr(1,2) [OF assms(1)]
  show ?thesis by (simp add: bootstrap_query_def)
qed

text \<open>
  C31 (equivalence): On every decodable response with the right identifier, the reader of
  bootstrap answers yields exactly the addresses of the answer records that have the name of the
  response's first question, in any case, and the type asked for, in their order, and the smallest of
  their times to live. Neither the response code nor the name that was asked plays a part.
\<close>

theorem bootstrap_reads_answers:
  assumes "msg_unpack p = Ok m" "h_id (m_header m) = query_id" "h_response (m_header m)" "m_questions m = q # qs"
  shows "parse_bootstrap_dns_response p query_id qtype
    = Ok (bootstrap_result (lower_name (q_name q)) qtype (m_answers m))"
  using assms by (rule parse_bootstrap_agrees)

theorem bootstrap_reads_answers_witness:
  "parse_bootstrap_dns_response (enc_msg sample_msg) 0x1234 BOOTSTRAP_DNS_TYPE_A
     = Ok \<lparr>br_addrs = [V4 (Octets4 192 0 2 1)], br_min_ttl_secs = 300\<rparr>"
proof -
  have "msg_unpack (enc_msg sample_msg) = Ok sample_msg"
    using msg_unpack_enc [OF wf_sample_msg] by (simp add: sample_msg_def)
  moreover have "h_id (m_header sample_msg) = 0x1234" "h_response (m_header sample_msg)"
    by (simp_all add: sample_msg_def header_from_wire_def)
  moreover have "m_questions sample_msg = [\<lparr>q_name = sample_name, q_qtype = RR_A, q_qclass = 1\<rparr>]"
    by (simp add: sample_msg_def)
  ultimately have "parse_bootstrap_dns_response (enc_msg sample_msg) 0x1234 BOOTSTRAP_DNS_TYPE_A
      = Ok (bootstrap_result (lower_name sample_name) BOOTSTRAP_DNS_TYPE_A (m_answers sample_msg))"
    using bootstrap_reads_answers by fastforce
  moreover have "m_answers sample_msg = [\<lparr>rr_name = sample_name, rr_rr_type = RR_A, rr_rr_class = 1, rr_ttl = 300,
      rr_rdata = [192, 0, 2, 1]\<rparr>]" by (simp add: sample_msg_def)
  ultimately show ?thesis
    by (simp add: bootstrap_result_def bootstrap_rrs_def rr_ip_def DNS_CLASS_IN_def BOOTSTRAP_DNS_TYPE_A_def octets4_of_def)
qed

text \<open>
  One bootstrap server that is ready is enough: when all servers have finished, in
  whatever order, the resolution yields the addresses of a ready one, unless none is ready; then it
  is an error and the cache is as before.
\<close>

lemma one_bootstrap_server_suffices:
  assumes "set finished = set (bs_bootstrap_dns bs)"
  shows "if \<exists>r \<in> set (bs_bootstrap_dns bs). bootstrap_ready bs net host cache r
    then \<exists>r \<in> set (bs_bootstrap_dns bs). bootstrap_ready bs net host cache r \<and>
      resolve_upstream_ips_with_bootstrap bs net finished host cache = resolve_with_bootstrap_resolver bs net host r cache
    else \<exists>e. resolve_upstream_ips_with_bootstrap bs net finished host cache = (Err e, cache)"
proof (cases "List.find (bootstrap_ready bs net host cache) finished")
  case None
  then have "\<not> (\<exists>r \<in> set (bs_bootstrap_dns bs). bootstrap_ready bs net host cache r)"
    using assms by (auto simp: find_None_iff)
  with bootstrap_race_none [OF None, of None] show ?thesis
    by (simp add: resolve_upstream_ips_with_bootstrap_def)
next
  case (Some r)
  then have r: "r \<in> set (bs_bootstrap_dns bs)" "bootstrap_ready bs net host cache r"
    using assms by (auto simp: find_Some_iff)
  have "resolve_upstream_ips_with_bootstrap bs net finished host cache = resolve_with_bootstrap_resolver bs net host r cache"
    using bootstrap_race_first [OF Some, of None] by (simp add: resolve_upstream_ips_with_bootstrap_def)
  with r show ?thesis by auto
qed

text \<open>
  A resolved name is kept: after a bootstrap server has been asked over the
  network, its addresses are given again, without asking it and with the cache unchanged, until
  the smaller of the two times to live has passed since they were stored, whatever the network does.
\<close>

lemma resolved_name_is_kept:
  assumes "normalize_bootstrap_host host = Inr nh" "load_bootstrap_cache (bn_load_ms net) cache resolver nh = None"
    and "resolve_with_bootstrap_resolver bs net host resolver cache = (Ok addrs, cache')"
  shows "\<exists>a aaaa. resolve_one_bootstrap bs net resolver (trim_end_matches (CHR ''.'') nh) BOOTSTRAP_DNS_TYPE_A = Ok a
    \<and> resolve_one_bootstrap bs net resolver (trim_end_matches (CHR ''.'') nh) BOOTSTRAP_DNS_TYPE_AAAA = Ok aaaa
    \<and> addrs = br_addrs a @ br_addrs aaaa
    \<and> (\<forall>net'. unat (bn_load_ms net') \<le> unat (bn_store_ms net) + unat (min (br_min_ttl_secs a) (br_min_ttl_secs aaaa)) * 1000
        \<longrightarrow> resolve_with_bootstrap_resolver bs net' host resolver cache' = (Ok addrs, cache'))"
proof -
  from resolve_with_stores [OF assms] obtain a aaaa where
    r: "resolve_one_bootstrap bs net resolver (trim_end_matches (CHR ''.'') nh) BOOTSTRAP_DNS_TYPE_A = Ok a"
      "resolve_one_bootstrap bs net resolver (trim_end_matches (CHR ''.'') nh) BOOTSTRAP_DNS_TYPE_AAAA = Ok aaaa"
      "addrs = br_addrs a @ br_addrs aaaa" and
    c: "cache' = store_bootstrap_cache (bn_store_ms net) resolver nh addrs (min (br_min_ttl_secs a) (br_min_ttl_secs aaaa)) cache"
    by blast
  have "resolve_with_bootstrap_resolver bs net' host resolver cache' = (Ok addrs, cache')"
    if "unat (bn_load_ms net') \<le> unat (bn_store_ms net) + unat (min (br_min_ttl_secs a) (br_min_ttl_secs aaaa)) * 1000" for net'
    using load_within [OF that, of resolver nh addrs cache]
    by (simp add: resolve_with_bootstrap_resolver_def assms(1) c)
  with r show ?thesis by blast
qed

lemma sample_stored:
  "resolve_with_bootstrap_resolver sample_bootstrap (sample_net 5 servfail) ''ns'' sample_resolver Map.empty
   = (Ok [], store_bootstrap_cache 5 sample_resolver ''ns.'' [] 0xFFFFFFFF Map.empty)"
  by (simp del: rbind_eq_Ok add: resolve_with_bootstrap_resolver_def normalize_ns load_bootstrap_cache_def trim_ns
      resolve_one_without_address [OF sample_without_address])
    (simp add: sample_net_def)

text \<open>
  C30 (error): A resolution that fails is kept for 136 years. When the only bootstrap server
  answers both questions about a host with responses without answers, such as SERVFAIL, the
  resolution is an error, and it stays one, without the server being asked, until the largest
  time to live, 4294967295 seconds, has passed, whatever the server would answer.
\<close>

theorem failed_resolution_is_kept:
  assumes "parse_ip_addr host = None" "bs_bootstrap_dns bs = [resolver]" "normalize_bootstrap_host host = Inr nh"
    and "load_bootstrap_cache (bn_load_ms net) cache resolver nh = None"
    and "\<And>t. t \<in> {BOOTSTRAP_DNS_TYPE_A, BOOTSTRAP_DNS_TYPE_AAAA} \<Longrightarrow>
      answered_without_address bs net resolver (trim_end_matches (CHR ''.'') nh) t"
  shows "\<exists>cache'. resolve_upstream_addrs bs net [resolver] host port cache = (Err UpstreamIssue, cache')
    \<and> (\<forall>net'. unat (bn_load_ms net') \<le> unat (bn_store_ms net) + 4294967295 * 1000
        \<longrightarrow> resolve_upstream_addrs bs net' [resolver] host port cache' = (Err UpstreamIssue, cache'))"
proof -
  let ?cache = "store_bootstrap_cache (bn_store_ms net) resolver nh [] 0xFFFFFFFF cache"
  have "resolve_one_bootstrap bs net resolver (trim_end_matches (CHR ''.'') nh) t = Ok \<lparr>br_addrs = [], br_min_ttl_secs = 0xFFFFFFFF\<rparr>"
    if "t \<in> {BOOTSTRAP_DNS_TYPE_A, BOOTSTRAP_DNS_TYPE_AAAA}" for t
    using resolve_one_without_address [OF assms(5) [OF that]] .
  then have "resolve_with_bootstrap_resolver bs net host resolver cache = (Ok [], ?cache)"
    using assms(3,4) by (simp add: resolve_with_bootstrap_resolver_def del: rbind_eq_Ok)
  then have first: "resolve_upstream_addrs bs net [resolver] host port cache = (Err UpstreamIssue, ?cache)"
    using assms(1,2) by (simp add: resolve_upstream_addrs_def resolve_upstream_ips_with_bootstrap_def)
  have "resolve_upstream_addrs bs net' [resolver] host port ?cache = (Err UpstreamIssue, ?cache)"
    if "unat (bn_load_ms net') \<le> unat (bn_store_ms net) + 4294967295 * 1000" for net'
  proof -
    have "unat (bn_load_ms net') \<le> unat (bn_store_ms net) + unat (0xFFFFFFFF :: u32) * 1000" using that by simp
    from load_within [OF this, of resolver nh "[]" cache] assms(1-3) show ?thesis
      by (simp add: resolve_upstream_addrs_def resolve_upstream_ips_with_bootstrap_def resolve_with_bootstrap_resolver_def)
  qed
  with first show ?thesis by blast
qed

theorem failed_resolution_is_kept_witness:
  "\<exists>cache'. resolve_upstream_addrs sample_bootstrap (sample_net 5 servfail) [sample_resolver] ''ns'' 853 Map.empty = (Err UpstreamIssue, cache')
     \<and> resolve_upstream_addrs sample_bootstrap (sample_net 4294967295000 []) [sample_resolver] ''ns'' 853 cache' = (Err UpstreamIssue, cache')"
proof -
  have dns: "bs_bootstrap_dns sample_bootstrap = [sample_resolver]" by (simp add: sample_bootstrap_def)
  have empty: "load_bootstrap_cache (bn_load_ms (sample_net 5 servfail)) Map.empty sample_resolver ''ns.'' = None"
    by (simp add: load_bootstrap_cache_def)
  have no: "answered_without_address sample_bootstrap (sample_net 5 servfail) sample_resolver (trim_end_matches CHR ''.'' ''ns.'') t" for t
    using sample_without_address by (simp add: trim_ns)
  have t: "unat (bn_load_ms (sample_net 4294967295000 [])) \<le> unat (bn_store_ms (sample_net 5 servfail)) + 4294967295 * 1000"
    by (simp add: sample_net_def)
  show ?thesis
    using failed_resolution_is_kept [where port = 853, OF parse_ip_ns dns normalize_ns empty no] t by blast
qed

end
