(* ===== verification/Config.thy ===== *)
theory Config
  imports Doh_Protocol Bootstrap
begin

text \<open>
  The command line (\<open>src/config.rs\<close>, \<open>src/utils.rs\<close>, \<open>src/constants.rs\<close> and the initial settings in
  \<open>src/main.rs\<close>): the checks of the values of options, the upstream an argument stands for, and the
  settings the server starts with.

  The option parser is the crate clap: it yields the values of the options, or exits when one of
  them fails its check. The URL parser is the crate url, test stamps are written by the crate
  dnsstamps, and the system looks up host names; all are parameters. The program exits with a
  message; of the message of a value that does not parse, the part that the standard library adds
  is left out.
\<close>

subsection \<open>Constants\<close>

definition LISTEN_ADDRESS :: string where "LISTEN_ADDRESS = ''127.0.0.1:3000''"
definition MAX_CLIENTS :: nat where "MAX_CLIENTS = 512"
definition MAX_CONCURRENT_STREAMS :: u32 where "MAX_CONCURRENT_STREAMS = 16"
definition PATH :: string where "PATH = ''/dns-query''"
definition ODOH_CONFIGS_PATH :: string where "ODOH_CONFIGS_PATH = ''/.well-known/odohconfigs''"
definition SERVER_ADDRESS :: string where "SERVER_ADDRESS = ''9.9.9.9:53''"
definition TIMEOUT_SEC :: nat where "TIMEOUT_SEC = 10"
definition MAX_TTL :: u32 where "MAX_TTL = 86400 * 7"
definition MIN_TTL :: u32 where "MIN_TTL = 10"
definition ERR_TTL :: u32 where "ERR_TTL = 2"

subsection \<open>Socket addresses as text\<close>

text \<open>\<open>str::parse\<close> for a socket address: address and port, an IPv6 address in brackets.\<close>

definition read_port :: "u16 parser" where
  "read_port s =
    Option.bind (read_given_char (CHR '':'') s) (\<lambda>(_, s).
    map_option (\<lambda>(n, rest). (of_nat n, rest)) (read_number 10 (length s) True 65536 s))"

definition read_scope_id :: "u32 parser" where
  "read_scope_id s =
    Option.bind (read_given_char (CHR ''%'') s) (\<lambda>(_, s).
    map_option (\<lambda>(n, rest). (of_nat n, rest)) (read_number 10 (length s) True (2 ^ 32) s))"

definition read_socket_addr_v4 :: "SocketAddr parser" where
  "read_socket_addr_v4 s =
    Option.bind (read_ipv4_addr s) (\<lambda>(ip, s).
    Option.bind (read_port s) (\<lambda>(port, s). Some (SocketV4 ip port, s)))"

definition read_socket_addr_v6 :: "SocketAddr parser" where
  "read_socket_addr_v6 s =
    Option.bind (read_given_char (CHR ''['') s) (\<lambda>(_, s).
    Option.bind (read_ipv6_addr s) (\<lambda>(ip, s).
      let (scope, s) = unwrap_or (read_scope_id s) (0, s) in
      Option.bind (read_given_char (CHR '']'') s) (\<lambda>(_, s).
      Option.bind (read_port s) (\<lambda>(port, s).
      case ip of V6 a b c d \<Rightarrow> Some (SocketV6 a b c d port 0 scope, s) | V4 _ \<Rightarrow> None))))"

definition parse_socket_addr :: "string \<Rightarrow> SocketAddr option" where
  "parse_socket_addr s =
    (case (case read_socket_addr_v4 s of Some r \<Rightarrow> Some r | None \<Rightarrow> read_socket_addr_v6 s) of
       Some (addr, []) \<Rightarrow> Some addr
     | _ \<Rightarrow> None)"

subsection \<open>The parameters\<close>

datatype url_host = Domain string | UrlIpv4 octets4 | UrlIpv6 octets4 octets4 octets4 octets4

record url =
  url_text :: string
  url_scheme :: string
  url_host :: "url_host option"
  url_host_str :: "string option"
  url_port :: "u16 option"
  url_known_default :: "u16 option"
  url_path :: string
  url_query :: "string option"

text \<open>A stamp is written for a host, a path, possibly an address and possibly a port.\<close>

record world =
  w_url_parse :: "string \<Rightarrow> string + url"
  w_lookup :: "string \<Rightarrow> u16 \<Rightarrow> string + SocketAddr list"
  w_doh_stamp :: "string \<Rightarrow> string \<Rightarrow> string option \<Rightarrow> u16 option \<Rightarrow> string + string"
  w_odoh_stamp :: "string \<Rightarrow> string \<Rightarrow> u16 option \<Rightarrow> string + string"

text \<open>The program stops with a message of its own, or the option parser rejects a value.\<close>

datatype cli_exit = Exit string | Rejected

text \<open>\<open>ToSocketAddrs\<close> for text: an address as it stands, or a host to look up and a port.\<close>

definition rsplit_once :: "char \<Rightarrow> string \<Rightarrow> (string \<times> string) option" where
  "rsplit_once c s =
    (let r = rev s in
     case dropWhile (\<lambda>x. x \<noteq> c) r of
       [] \<Rightarrow> None
     | _ # pre \<Rightarrow> Some (rev pre, rev (takeWhile (\<lambda>x. x \<noteq> c) r)))"

definition to_socket_addrs :: "world \<Rightarrow> string \<Rightarrow> string + SocketAddr list" where
  "to_socket_addrs w s =
    (case parse_socket_addr s of
       Some addr \<Rightarrow> Inr [addr]
     | None \<Rightarrow>
         (case rsplit_once (CHR '':'') s of
            None \<Rightarrow> Inl ''invalid socket address''
          | Some (host, port_str) \<Rightarrow>
              (case parse_uint 65536 port_str of
                 None \<Rightarrow> Inl ''invalid port value''
               | Some port \<Rightarrow> w_lookup w host (of_nat port))))"

definition quote :: "string \<Rightarrow> string" where "quote s = [CHR 0x27] @ s @ [CHR 0x27]"

subsection \<open>Checks of option values\<close>

definition double_quote :: "string \<Rightarrow> string" where "double_quote s = [CHR 0x22] @ s @ [CHR 0x22]"

definition verify_sock_addr :: "string \<Rightarrow> string + string" where
  "verify_sock_addr arg_val =
    (case parse_socket_addr arg_val of
       Some _ \<Rightarrow> Inr arg_val
     | None \<Rightarrow> Inl (''Could not parse '' @ double_quote arg_val @ '' as a valid socket address (with port).''))"

definition verify_remote_server :: "world \<Rightarrow> string \<Rightarrow> string + string" where
  "verify_remote_server w arg_val =
    (case to_socket_addrs w arg_val of
       Inr (_ # _) \<Rightarrow> Inr arg_val
     | Inr [] \<Rightarrow> Inl (''Could not parse '' @ double_quote arg_val @ '' as a valid remote uri'')
     | Inl err \<Rightarrow> Inl err)"

definition is_url_arg :: "string \<Rightarrow> bool" where
  "is_url_arg s \<longleftrightarrow> starts_with ''http://'' s \<or> starts_with ''https://'' s \<or> starts_with ''h3://'' s \<or> starts_with ''tls://'' s"

definition verify_upstream :: "world \<Rightarrow> string \<Rightarrow> string + string" where
  "verify_upstream w arg_val =
    (if is_url_arg arg_val then
       (case w_url_parse w arg_val of
          Inl e \<Rightarrow> Inl (''Invalid URL: '' @ e)
        | Inr url \<Rightarrow>
            if url_scheme url = ''https'' \<or> url_scheme url = ''h3'' \<or> url_scheme url = ''tls'' then
              (if url_host_str url = None then Inl ''URL must include a host'' else Inr arg_val)
            else if url_scheme url = ''http'' then
              Inl ''Only https://, h3://, or tls:// URLs are supported for upstreams''
            else Inl (''Unsupported URL scheme '' @ quote (url_scheme url)))
     else verify_remote_server w arg_val)"

subsection \<open>The upstream of an argument\<close>

definition show_url_host :: "url_host \<Rightarrow> string" where
  "show_url_host h = (case h of
     UrlIpv6 a b c d \<Rightarrow> ''['' @ show_ip (V6 a b c d) @ '']''
   | UrlIpv4 ip \<Rightarrow> show_octets4 ip
   | Domain domain \<Rightarrow> domain)"

definition doh_upstream_of :: "string \<Rightarrow> url \<Rightarrow> cli_exit + DohUpstream Upstream" where
  "doh_upstream_of server_address_str url =
    (case (url_host_str url, url_host url) of
       (Some host, Some h) \<Rightarrow>
         (let host_header = show_url_host h;
              port = (if url_scheme url = ''https'' then unwrap_or (url_known_default url) 443
                      else unwrap_or (url_port url) 443);
              path = (if url_path url = [] \<or> url_path url = ''/'' then PATH else url_path url);
              path = (case url_query url of None \<Rightarrow> path | Some query \<Rightarrow> path @ ''?'' @ query);
              authority = (if url_port url \<noteq> None then host_header @ '':'' @ show_nat (unat port) else host_header)
          in Inr (Doh \<lparr>du_url = url_text url, du_host = host, du_port = port, du_path = path, du_authority = authority,
               du_h3_only = (url_scheme url = ''h3''), protocol_hint = 0, h3_failures = 0, h3_last_failure_ms = 0,
               h3_backoff_until_ms = 0, h2_last_rebuild_ms = 0, h3_last_rebuild_ms = 0, h2_client = None,
               h2_target_addr = None\<rparr>))
     | _ \<Rightarrow> Inl (Exit (''DoH URL '' @ quote server_address_str @ '' must include a host'')))"

definition parse_upstream_arg :: "world \<Rightarrow> string \<Rightarrow> cli_exit + DohUpstream Upstream" where
  "parse_upstream_arg w server_address_str =
    (if is_url_arg server_address_str then
       (case w_url_parse w server_address_str of
          Inl e \<Rightarrow> Inl (Exit (''Invalid URL '' @ quote server_address_str @ '': '' @ e))
        | Inr url \<Rightarrow>
            if url_scheme url = ''https'' \<or> url_scheme url = ''h3'' then doh_upstream_of server_address_str url
            else if url_scheme url = ''tls'' then
              (case url_host_str url of
                 None \<Rightarrow> Inl (Exit (''DoT URL '' @ quote server_address_str @ '' must include a host''))
               | Some host \<Rightarrow> Inr (Dot \<lparr>dot_host = host, dot_port = unwrap_or (url_port url) 853\<rparr>))
            else if url_scheme url = ''http'' then
              Inl (Exit ''Only https://, h3://, or tls:// URLs are supported for upstreams'')
            else Inl (Exit (''Unsupported URL scheme '' @ quote (url_scheme url) @ '' for upstream'')))
     else
       (case to_socket_addrs w server_address_str of
          Inl e \<Rightarrow> Inl (Exit (''Invalid server address '' @ quote server_address_str @ '': '' @ e))
        | Inr [] \<Rightarrow> Inl (Exit (''Cannot resolve server address '' @ quote server_address_str))
        | Inr (server_address # _) \<Rightarrow> Inr (Dns server_address)))"

definition unspecified4 :: octets4 where "unspecified4 = Octets4 0 0 0 0"

fun default_local_bind_addr :: "'d Upstream \<Rightarrow> SocketAddr" where
  "default_local_bind_addr (Dns (SocketV4 _ _)) = SocketV4 unspecified4 0"
| "default_local_bind_addr (Dns (SocketV6 _ _ _ _ _ flowinfo scope_id)) =
     SocketV6 unspecified4 unspecified4 unspecified4 unspecified4 0 flowinfo scope_id"
| "default_local_bind_addr (Doh _) = SocketV4 unspecified4 0"
| "default_local_bind_addr (Dot _) = SocketV4 unspecified4 0"

subsection \<open>The options\<close>

text \<open>The values given for the options; a flag is given or not.\<close>

record cli =
  cl_hostname :: "string option"
  cl_public_address :: "string list option"
  cl_public_port :: "string option"
  cl_listen_address :: "string list option"
  cl_upstream :: "string list option"
  cl_upstream_mode :: "string option"
  cl_local_bind_address :: "string option"
  cl_bootstrap :: "string list option"
  cl_path :: "string option"
  cl_max_clients :: "string option"
  cl_max_concurrent :: "string option"
  cl_timeout :: "string option"
  cl_min_ttl :: "string option"
  cl_max_ttl :: "string option"
  cl_err_ttl :: "string option"
  cl_disable_keepalive :: bool
  cl_disable_post :: bool
  cl_allow_odoh_post :: bool
  cl_enable_ecs :: bool
  cl_ecs_prefix_v4 :: "string option"
  cl_ecs_prefix_v6 :: "string option"
  cl_tls_cert_path :: "string option"
  cl_tls_cert_key_path :: "string option"

definition all_values :: "(string \<Rightarrow> 'e + string) \<Rightarrow> string list option \<Rightarrow> bool" where
  "all_values verify values \<longleftrightarrow> list_all (\<lambda>v. \<not> isl (verify v)) (unwrap_or values [])"

definition upstream_mode_ok :: "string option \<Rightarrow> bool" where
  "upstream_mode_ok mode \<longleftrightarrow> unwrap_or mode ''load_balance'' \<in> {''load_balance'', ''parallel'', ''fastest_addr''}"

definition get_matches :: "world \<Rightarrow> cli \<Rightarrow> cli_exit + cli" where
  "get_matches w cl =
    (if all_values verify_sock_addr (cl_listen_address cl) \<and> all_values (verify_upstream w) (cl_upstream cl)
        \<and> upstream_mode_ok (cl_upstream_mode cl)
        \<and> all_values verify_sock_addr (map_option (\<lambda>a. [a]) (cl_local_bind_address cl))
        \<and> all_values verify_sock_addr (cl_bootstrap cl)
     then Inr cl else Inl Rejected)"

record 'u Settings = "'u Globals" +
  g_listen_addresses :: "SocketAddr list"
  g_local_bind_address :: SocketAddr
  g_bootstrap_dns :: "SocketAddr list"
  g_max_concurrent_streams :: u32
  g_keepalive :: bool
  g_tls_cert_path :: "string option"
  g_tls_cert_key_path :: "string option"

fun traverse :: "('a \<Rightarrow> 'e + 'b) \<Rightarrow> 'a list \<Rightarrow> 'e + 'b list" where
  "traverse f [] = Inr []"
| "traverse f (a # as) = and_then (f a) (\<lambda>b. and_then (traverse f as) (\<lambda>bs. Inr (b # bs)))"

definition parse_address :: "string \<Rightarrow> string \<Rightarrow> cli_exit + SocketAddr" where
  "parse_address what value =
    (case parse_socket_addr value of
       Some addr \<Rightarrow> Inr addr
     | None \<Rightarrow> Inl (Exit (''Invalid '' @ what @ '' '' @ quote value)))"

definition parse_number :: "nat \<Rightarrow> string \<Rightarrow> string \<Rightarrow> cli_exit + nat" where
  "parse_number bound what value =
    (case parse_uint bound value of
       Some n \<Rightarrow> Inr n
     | None \<Rightarrow> Inl (Exit (''Invalid '' @ what @ '' '' @ quote value)))"

text \<open>The lines that are printed, without the line break that ends them.\<close>

datatype printed = Stdout string | Stderr string

definition newline :: string where "newline = [CHR 0x0A]"

definition bracketed :: "string \<Rightarrow> string" where "bracketed s = ''['' @ s @ '']''"

definition doh_stamp_line :: "world \<Rightarrow> string \<Rightarrow> string \<Rightarrow> u16 option \<Rightarrow> printed" where
  "doh_stamp_line w hostname path public_port =
    (case w_doh_stamp w hostname path None public_port of
       Inr stamp \<Rightarrow> Stdout (''Test DNS stamp to reach '' @ bracketed hostname @ '' over DoH: '' @ bracketed stamp @ newline)
     | Inl e \<Rightarrow> Stderr (''Warning: Failed to generate DoH stamp: '' @ e))"

definition doh_stamp_line_via :: "world \<Rightarrow> string \<Rightarrow> string \<Rightarrow> u16 option \<Rightarrow> string \<Rightarrow> printed" where
  "doh_stamp_line_via w hostname path public_port public_address =
    (case w_doh_stamp w hostname path (Some public_address) public_port of
       Inr stamp \<Rightarrow> Stdout (''Test DNS stamp to reach '' @ bracketed hostname @ '' via '' @ bracketed public_address
           @ '' over DoH: '' @ bracketed stamp)
     | Inl e \<Rightarrow> Stderr (''Warning: Failed to generate DoH stamp for '' @ public_address @ '': '' @ e))"

definition odoh_stamp_line :: "world \<Rightarrow> string \<Rightarrow> string \<Rightarrow> u16 option \<Rightarrow> printed" where
  "odoh_stamp_line w hostname path public_port =
    (case w_odoh_stamp w hostname path public_port of
       Inr stamp \<Rightarrow> Stdout (''Test DNS stamp to reach '' @ bracketed hostname @ '' over Oblivious DoH: ''
           @ bracketed stamp @ newline)
     | Inl e \<Rightarrow> Stderr (''Warning: Failed to generate ODoH stamp: '' @ e))"

definition print_stamps :: "world \<Rightarrow> cli \<Rightarrow> string \<Rightarrow> cli_exit + printed list" where
  "print_stamps w matches path =
    (case cl_hostname matches of
       Some hostname \<Rightarrow>
         (let public_addresses = unwrap_or (cl_public_address matches) [] in
          and_then (case cl_public_port matches of
              None \<Rightarrow> Inr None
            | Some port \<Rightarrow> and_then (parse_number 65536 ''public port'' port) (\<lambda>n. Inr (Some (of_nat n)))) (\<lambda>public_port.
          Inr ((if public_addresses = [] then [doh_stamp_line w hostname path public_port]
                else map (doh_stamp_line_via w hostname path public_port) public_addresses @ [Stdout []])
              @ [odoh_stamp_line w hostname path public_port,
                 Stdout (''Check out https://dnscrypt.info/stamps/ to compute the actual stamps.'' @ newline)])))
     | None \<Rightarrow>
         Inr [Stdout (''Please provide a fully qualified hostname (-H <hostname> command-line option) to get test DNS stamps for your server.'' @ newline)])"

text \<open>
  The options are checked, and then read again: the system may look a name up differently the
  second time.
\<close>

definition parse_opts ::
  "world \<Rightarrow> world \<Rightarrow> cli \<Rightarrow> DohUpstream Upstream Settings
    \<Rightarrow> cli_exit + DohUpstream Upstream Settings \<times> printed list" where
  "parse_opts w_check w cl globals =
    and_then (get_matches w_check cl) (\<lambda>matches.
    and_then (case cl_listen_address matches of
        Some values \<Rightarrow> traverse (parse_address ''listen address'') values
      | None \<Rightarrow> traverse (parse_address ''default listen address'') [LISTEN_ADDRESS]) (\<lambda>listen_addresses.
    let upstream_mode = unwrap_or (upstream_mode_from_str (unwrap_or (cl_upstream_mode matches) ''load_balance'')) LoadBalance;
        upstream_values = unwrap_or (cl_upstream matches) [SERVER_ADDRESS] in
    and_then (traverse (parse_upstream_arg w) upstream_values) (\<lambda>upstreams.
    and_then (if upstreams = [] then and_then (parse_upstream_arg w SERVER_ADDRESS) (\<lambda>u. Inr [u]) else Inr upstreams) (\<lambda>upstreams.
    and_then (case cl_local_bind_address matches of
        Some address \<Rightarrow> parse_address ''local bind address'' address
      | None \<Rightarrow> Inr (case upstreams of u # _ \<Rightarrow> default_local_bind_addr u | [] \<Rightarrow> SocketV4 unspecified4 0)) (\<lambda>local_bind_address.
    and_then (traverse (parse_address ''bootstrap address'') (unwrap_or (cl_bootstrap matches) [])) (\<lambda>bootstrap_dns.
    let path = unwrap_or (cl_path matches) PATH; path = (if starts_with ''/'' path then path else ''/'' @ path) in
    and_then (parse_number (2 ^ 64) ''max clients'' (unwrap_or (cl_max_clients matches) (show_nat MAX_CLIENTS))) (\<lambda>max_clients.
    and_then (parse_number (2 ^ 64) ''timeout'' (unwrap_or (cl_timeout matches) (show_nat TIMEOUT_SEC))) (\<lambda>timeout_secs.
    and_then (parse_number (2 ^ 32) ''max concurrent streams''
        (unwrap_or (cl_max_concurrent matches) (show_nat (unat MAX_CONCURRENT_STREAMS)))) (\<lambda>max_concurrent_streams.
    and_then (parse_number (2 ^ 32) ''min TTL'' (unwrap_or (cl_min_ttl matches) (show_nat (unat MIN_TTL)))) (\<lambda>min_ttl.
    and_then (parse_number (2 ^ 32) ''max TTL'' (unwrap_or (cl_max_ttl matches) (show_nat (unat MAX_TTL)))) (\<lambda>max_ttl.
    and_then (parse_number (2 ^ 32) ''error TTL'' (unwrap_or (cl_err_ttl matches) (show_nat (unat ERR_TTL)))) (\<lambda>err_ttl.
    and_then (parse_number 256 ''ECS IPv4 prefix'' (unwrap_or (cl_ecs_prefix_v4 matches) ''24'')) (\<lambda>ecs_prefix_v4.
    and_then (parse_number 256 ''ECS IPv6 prefix'' (unwrap_or (cl_ecs_prefix_v6 matches) ''56'')) (\<lambda>ecs_prefix_v6.
    and_then (print_stamps w matches path) (\<lambda>printed.
    Inr (globals\<lparr>g_listen_addresses := listen_addresses, g_upstream_mode := upstream_mode, g_upstreams := upstreams,
      g_local_bind_address := local_bind_address, g_bootstrap_dns := bootstrap_dns, g_path := path,
      g_max_clients := max_clients, g_timeout := from_secs timeout_secs,
      g_max_concurrent_streams := of_nat max_concurrent_streams, g_min_ttl := of_nat min_ttl, g_max_ttl := of_nat max_ttl,
      g_err_ttl := of_nat err_ttl, g_keepalive := \<not> cl_disable_keepalive matches, g_disable_post := cl_disable_post matches,
      g_allow_odoh_post := cl_allow_odoh_post matches, g_enable_ecs := cl_enable_ecs matches,
      g_ecs_prefix_v4 := of_nat ecs_prefix_v4, g_ecs_prefix_v6 := of_nat ecs_prefix_v6,
      g_tls_cert_path := cl_tls_cert_path matches,
      g_tls_cert_key_path := (case cl_tls_cert_key_path matches of Some p \<Rightarrow> Some p | None \<Rightarrow> cl_tls_cert_path matches)\<rparr>, printed))))))))))))))))"

text \<open>The settings before the options are read; the two addresses in them parse.\<close>

definition initial_settings :: "DohUpstream Upstream Settings option" where
  "initial_settings =
    Option.bind (parse_socket_addr LISTEN_ADDRESS) (\<lambda>default_listen_address.
    Option.bind (parse_socket_addr SERVER_ADDRESS) (\<lambda>server_address.
    Some \<lparr>g_upstreams = [Dns server_address], g_upstream_mode = LoadBalance, g_path = PATH, g_max_clients = MAX_CLIENTS,
      g_timeout = from_secs TIMEOUT_SEC, g_min_ttl = MIN_TTL, g_max_ttl = MAX_TTL, g_err_ttl = ERR_TTL,
      g_disable_post = False, g_allow_odoh_post = False, g_enable_ecs = False, g_ecs_prefix_v4 = 24, g_ecs_prefix_v6 = 56,
      g_odoh_configs_path = ODOH_CONFIGS_PATH, g_listen_addresses = [default_listen_address],
      g_local_bind_address = SocketV4 unspecified4 0, g_bootstrap_dns = [], g_max_concurrent_streams = MAX_CONCURRENT_STREAMS,
      g_keepalive = True, g_tls_cert_path = None, g_tls_cert_key_path = None\<rparr>))"

subsection \<open>Success of the steps\<close>

lemma isl_and_then [simp]: "isl (and_then r f) \<longleftrightarrow> isl r \<or> isl (f (projr r))"
  by (cases r) simp_all

lemma isl_traverse [simp]: "isl (traverse f as) \<longleftrightarrow> \<not> list_all (\<lambda>a. \<not> isl (f a)) as"
  by (induction as) simp_all

lemma isl_parse_address [simp]: "isl (parse_address what s) \<longleftrightarrow> parse_socket_addr s = None"
  by (simp add: parse_address_def split: option.split)

lemma isl_parse_number: "isl (parse_number bound what s) \<longleftrightarrow> parse_uint bound s = None"
  by (simp add: parse_number_def split: option.split)

lemma isl_verify_sock_addr [simp]: "isl (verify_sock_addr s) \<longleftrightarrow> parse_socket_addr s = None"
  by (simp add: verify_sock_addr_def split: option.split)

lemma parse_number_Inr [simp]: "parse_number bound what s = Inr n \<longleftrightarrow> parse_uint bound s = Some n"
  by (simp add: parse_number_def split: option.split)

lemmas socket_addr_simps = parse_socket_addr_def read_socket_addr_v4_def read_port_def read_given_char_def
  read_ipv4_addr_def read_octet_def read_separator_def read_number_def to_digit_def

lemma default_addresses:
  "parse_socket_addr LISTEN_ADDRESS = Some (SocketV4 (Octets4 127 0 0 1) 3000)"
  "parse_socket_addr SERVER_ADDRESS = Some (SocketV4 (Octets4 9 9 9 9) 53)"
  by (simp_all add: LISTEN_ADDRESS_def SERVER_ADDRESS_def socket_addr_simps)

text \<open>The defaults are printed numbers and read back.\<close>

lemma show_nat_digits: "list_all (\<lambda>c. to_digit 10 c \<noteq> None) (show_nat n)"
proof (induction n rule: show_nat.induct)
  case (1 n)
  have "to_digit 10 (char_of (48 + n mod 10)) = Some (n mod 10)" by (rule to_digit_decimal) simp
  with 1 show ?case by (subst show_nat_unfold) (simp add: to_digit_decimal)
qed

lemma foldl_show_nat: "foldl (\<lambda>acc c. acc * 10 + the (to_digit 10 c)) 0 (show_nat n) = n"
proof (induction n rule: show_nat.induct)
  case (1 n)
  have "to_digit 10 (char_of (48 + n mod 10)) = Some (n mod 10)" by (rule to_digit_decimal) simp
  with 1 show ?case by (subst show_nat_unfold) (simp add: to_digit_decimal)
qed

lemma parse_show_nat: "n < bound \<Longrightarrow> parse_uint bound (show_nat n) = Some n"
proof -
  assume "n < bound"
  have "take 1 (show_nat n) \<noteq> ''+''"
    using show_nat_digits [of n] by (cases "show_nat n") (auto simp: to_digit_def)
  with \<open>n < bound\<close> show ?thesis
    using show_nat_digits [of n] length_show_nat_pos [of n] foldl_show_nat [of n] by (auto simp: parse_uint_def Let_def)
qed

lemma parse_number_default [simp]: "n < bound \<Longrightarrow> parse_number bound what (show_nat n) = Inr n"
  by (simp add: parse_show_nat)

lemma default_prefixes: "parse_uint 256 ''24'' = Some 24" "parse_uint 256 ''56'' = Some 56"
  by (simp_all add: parse_uint_def to_digit_def)

lemma parse_default_prefixes:
  "parse_number 256 what ''24'' = Inr 24" "parse_number 256 what ''56'' = Inr 56"
  by (simp_all add: default_prefixes)

lemma default_upstream: "parse_upstream_arg w SERVER_ADDRESS = Inr (Dns (SocketV4 (Octets4 9 9 9 9) 53))"
  using default_addresses(2)
  by (simp add: parse_upstream_arg_def to_socket_addrs_def is_url_arg_def starts_with_def SERVER_ADDRESS_def)

subsection \<open>What is checked is accepted\<close>

text \<open>The URL library gives the host of a URL in two forms; both are there, or neither.\<close>

definition hosts_agree :: "world \<Rightarrow> bool" where
  "hosts_agree w \<longleftrightarrow> (\<forall>s url. w_url_parse w s = Inr url \<longrightarrow> (url_host url = None \<longleftrightarrow> url_host_str url = None))"

lemma isl_doh_upstream_of: "isl (doh_upstream_of s url) \<longleftrightarrow> url_host_str url = None \<or> url_host url = None"
  by (simp add: doh_upstream_of_def Let_def split: option.split)

lemma isl_parse_upstream_arg:
  "hosts_agree w \<Longrightarrow> isl (parse_upstream_arg w s) \<longleftrightarrow> isl (verify_upstream w s)"
  by (auto simp: parse_upstream_arg_def verify_upstream_def verify_remote_server_def isl_doh_upstream_of hosts_agree_def
      split: sum.split option.split list.split)

definition reads :: "nat \<Rightarrow> string option \<Rightarrow> bool" where
  "reads bound field = (case field of None \<Rightarrow> True | Some s \<Rightarrow> parse_uint bound s \<noteq> None)"

definition numbers_readable :: "cli \<Rightarrow> bool" where
  "numbers_readable cl \<longleftrightarrow>
    reads (2 ^ 64) (cl_max_clients cl) \<and> reads (2 ^ 64) (cl_timeout cl) \<and> reads (2 ^ 32) (cl_max_concurrent cl)
    \<and> reads (2 ^ 32) (cl_min_ttl cl) \<and> reads (2 ^ 32) (cl_max_ttl cl) \<and> reads (2 ^ 32) (cl_err_ttl cl)
    \<and> reads 256 (cl_ecs_prefix_v4 cl) \<and> reads 256 (cl_ecs_prefix_v6 cl)
    \<and> (cl_hostname cl \<noteq> None \<longrightarrow> reads 65536 (cl_public_port cl))"

lemma isl_print_stamps:
  "isl (print_stamps w cl path) \<longleftrightarrow> cl_hostname cl \<noteq> None \<and> \<not> reads 65536 (cl_public_port cl)"
  by (auto simp: print_stamps_def Let_def reads_def isl_parse_number split: option.split)

lemma isl_number_or_default [simp]:
  "n < bound \<Longrightarrow> isl (parse_number bound what (unwrap_or field (show_nat n))) \<longleftrightarrow> \<not> reads bound field"
  by (cases field) (simp_all add: isl_parse_number reads_def parse_show_nat)

lemma isl_prefix_or_default [simp]:
  "isl (parse_number 256 what (unwrap_or field ''24'')) \<longleftrightarrow> \<not> reads 256 field"
  "isl (parse_number 256 what (unwrap_or field ''56'')) \<longleftrightarrow> \<not> reads 256 field"
  by (cases field; simp add: isl_parse_number reads_def default_prefixes)+

lemmas default_values = MAX_CLIENTS_def TIMEOUT_SEC_def MAX_CONCURRENT_STREAMS_def MIN_TTL_def MAX_TTL_def ERR_TTL_def

text \<open>What \<open>get_matches\<close> has checked.\<close>

lemma get_matches_checks:
  assumes "get_matches w cl = Inr cl"
  shows "cl_listen_address cl = Some values \<Longrightarrow> list_all (\<lambda>s. parse_socket_addr s \<noteq> None) values"
    and "cl_local_bind_address cl = Some address \<Longrightarrow> parse_socket_addr address \<noteq> None"
    and "list_all (\<lambda>s. parse_socket_addr s \<noteq> None) (unwrap_or (cl_bootstrap cl) [])"
    and "all_values (verify_upstream w) (cl_upstream cl)"
  using assms by (auto simp: get_matches_def all_values_def split: if_splits)

lemma upstreams_read:
  assumes "hosts_agree w"
  shows "list_all (\<lambda>s. \<not> isl (parse_upstream_arg w s)) (unwrap_or (cl_upstream cl) [SERVER_ADDRESS])
    \<longleftrightarrow> all_values (verify_upstream w) (cl_upstream cl)"
  using isl_parse_upstream_arg [OF assms]
  by (cases "cl_upstream cl") (simp_all add: all_values_def default_upstream flip: isl_parse_upstream_arg [OF assms])

lemma isl_get_matches: "isl (get_matches w cl) \<longleftrightarrow> get_matches w cl \<noteq> Inr cl"
  by (simp add: get_matches_def)

lemma isl_parse_opts:
  assumes "hosts_agree w"
  shows "isl (parse_opts w_check w cl g) \<longleftrightarrow> get_matches w_check cl \<noteq> Inr cl
    \<or> \<not> all_values (verify_upstream w) (cl_upstream cl) \<or> \<not> numbers_readable cl"
proof (cases "get_matches w_check cl = Inr cl")
  case True
  note checks = get_matches_checks [OF True]
  have listen: "\<not> isl (case cl_listen_address cl of
      Some values \<Rightarrow> traverse (parse_address ''listen address'') values
    | None \<Rightarrow> traverse (parse_address ''default listen address'') [LISTEN_ADDRESS])"
    using checks(1) default_addresses by (simp split: option.split)
  have bind: "\<not> isl (case cl_local_bind_address cl of
      Some address \<Rightarrow> parse_address ''local bind address'' address | None \<Rightarrow> Inr b)" for b
    using checks(2) by (auto split: option.split)
  show ?thesis
    using listen bind checks(3) default_upstream [of w] upstreams_read [OF assms, of cl]
    by (auto simp: parse_opts_def Let_def True isl_print_stamps numbers_readable_def default_values)
qed (simp add: parse_opts_def isl_get_matches)

subsection \<open>Properties\<close>

text \<open>An upstream as it is before its first query.\<close>

fun fresh_upstream :: "DohUpstream Upstream \<Rightarrow> bool" where
  "fresh_upstream (Doh u) \<longleftrightarrow> protocol_hint u = 0 \<and> h3_failures u = 0 \<and> h3_backoff_until_ms u = 0 \<and> h2_client u = None
     \<and> h2_target_addr u = None \<and> du_path u \<noteq> []"
| "fresh_upstream _ \<longleftrightarrow> True"

lemma parse_upstream_arg_fresh: "parse_upstream_arg w s = Inr u \<Longrightarrow> fresh_upstream u"
  by (auto simp: parse_upstream_arg_def doh_upstream_of_def Let_def PATH_def split: if_splits sum.splits option.splits list.splits)

lemma traverse_all: "traverse f as = Inr bs \<Longrightarrow> (\<And>a b. f a = Inr b \<Longrightarrow> P b) \<Longrightarrow> list_all P bs"
  by (induction as arbitrary: bs) auto

lemma default_bind_family:
  "same_family (sa_ip (default_local_bind_addr (Dns addr :: DohUpstream Upstream))) (sa_ip addr)
   \<and> is_unspecified (sa_ip (default_local_bind_addr (Dns addr :: DohUpstream Upstream)))"
  by (cases addr) (simp_all add: is_unspecified_def unspecified4_def)

lemma upstream_mode_ok_reads:
  "upstream_mode_ok mode \<Longrightarrow> upstream_mode_from_str (unwrap_or mode ''load_balance'') \<noteq> None"
  by (auto simp: upstream_mode_ok_def upstream_mode_from_str_def)

lemma parse_opts_Inr:
  assumes "parse_opts w_check w cl g = Inr (g', printed)"
  shows "upstream_mode_ok (cl_upstream_mode cl)
    \<and> (\<exists>upstreams. traverse (parse_upstream_arg w) (unwrap_or (cl_upstream cl) [SERVER_ADDRESS]) = Inr upstreams
      \<and> (if upstreams = [] then and_then (parse_upstream_arg w SERVER_ADDRESS) (\<lambda>u. Inr [u]) else Inr upstreams)
        = Inr (g_upstreams g'))
    \<and> (case cl_local_bind_address cl of
        Some address \<Rightarrow> parse_address ''local bind address'' address
      | None \<Rightarrow> Inr (case g_upstreams g' of u # _ \<Rightarrow> default_local_bind_addr u | [] \<Rightarrow> SocketV4 unspecified4 0))
        = Inr (g_local_bind_address g')
    \<and> g_path g' = (if starts_with ''/'' (unwrap_or (cl_path cl) PATH) then unwrap_or (cl_path cl) PATH
                  else ''/'' @ unwrap_or (cl_path cl) PATH)
    \<and> g_upstream_mode g' = unwrap_or (upstream_mode_from_str (unwrap_or (cl_upstream_mode cl) ''load_balance'')) LoadBalance
    \<and> (case cl_listen_address cl of
        Some values \<Rightarrow> traverse (parse_address ''listen address'') values
      | None \<Rightarrow> traverse (parse_address ''default listen address'') [LISTEN_ADDRESS]) = Inr (g_listen_addresses g')
    \<and> g_tls_cert_path g' = cl_tls_cert_path cl
    \<and> g_tls_cert_key_path g' = (case cl_tls_cert_key_path cl of Some p \<Rightarrow> Some p | None \<Rightarrow> cl_tls_cert_path cl)"
proof -
  have "get_matches w_check cl = Inr cl" "upstream_mode_ok (cl_upstream_mode cl)"
    using assms by (simp_all add: parse_opts_def get_matches_def split: if_splits)
  with assms show ?thesis
    unfolding parse_opts_def Let_def and_then_eq_Inr
    apply (elim exE conjE)
    apply (simp only: sum.inject prod.inject)
    apply (elim exE conjE)
    apply hypsubst_thin
    apply (simp cong: option.case_cong list.case_cong)
    done
qed

text \<open>No option is given.\<close>

definition no_options :: cli where
  "no_options = \<lparr>cl_hostname = None, cl_public_address = None, cl_public_port = None, cl_listen_address = None,
    cl_upstream = None, cl_upstream_mode = None, cl_local_bind_address = None, cl_bootstrap = None, cl_path = None,
    cl_max_clients = None, cl_max_concurrent = None, cl_timeout = None, cl_min_ttl = None, cl_max_ttl = None,
    cl_err_ttl = None, cl_disable_keepalive = False, cl_disable_post = False, cl_allow_odoh_post = False,
    cl_enable_ecs = False, cl_ecs_prefix_v4 = None, cl_ecs_prefix_v6 = None, cl_tls_cert_path = None,
    cl_tls_cert_key_path = None\<rparr>"

lemma no_options_matched: "get_matches w no_options = Inr no_options"
  by (simp add: get_matches_def all_values_def upstream_mode_ok_def no_options_def)

text \<open>A system without names, with the address that \<open>tls://\<close> URLs of the samples stand for.\<close>

definition sample_url :: "url_host \<Rightarrow> url" where
  "sample_url h = \<lparr>url_text = ''tls://a'', url_scheme = ''tls'', url_host = Some h, url_host_str = Some (show_url_host h),
     url_port = None, url_known_default = None, url_path = [], url_query = None\<rparr>"

definition sample_world :: "url_host \<Rightarrow> world" where
  "sample_world h = \<lparr>w_url_parse = (\<lambda>_. Inr (sample_url h)), w_lookup = (\<lambda>_ _. Inl ''no such name''),
     w_doh_stamp = (\<lambda>_ _ _ _. Inl ''no stamp''), w_odoh_stamp = (\<lambda>_ _ _. Inl ''no stamp'')\<rparr>"

lemma sample_hosts_agree: "hosts_agree (sample_world h)"
  by (simp add: hosts_agree_def sample_world_def sample_url_def)

definition sample_options :: cli where
  "sample_options = no_options\<lparr>cl_upstream := Some [''tls://a''], cl_timeout := Some ''5'', cl_path := Some ''q''\<rparr>"

lemma sample_options_matched: "get_matches (sample_world h) sample_options = Inr sample_options"
  by (simp add: get_matches_def all_values_def upstream_mode_ok_def sample_options_def no_options_def verify_upstream_def
      is_url_arg_def starts_with_def sample_world_def sample_url_def)

lemma sample_numbers_readable: "numbers_readable sample_options"
  by (simp add: numbers_readable_def reads_def sample_options_def no_options_def parse_uint_def to_digit_def)

text \<open>
  without options the settings that the program starts from are kept: the
  defaults of the option parser are the initial settings.
\<close>

lemma defaults_are_initial:
  "\<exists>g printed. initial_settings = Some g \<and> parse_opts w_check w no_options g = Inr (g, printed)"
  unfolding parse_opts_def no_options_matched
  by (simp add: no_options_def initial_settings_def default_addresses parse_default_prefixes default_upstream
      parse_address_def print_stamps_def upstream_mode_from_str_def starts_with_def PATH_def default_values
      unspecified4_def del: and_then_eq_Inr)

text \<open>
  C39 (invariant): the settings that were read are usable: there is an upstream, no upstream has
  failures or a connection, the path is absolute, the strategy is the one that was named, and where no
  local address is given and the first upstream is given by its address, queries leave from the unspecified
  address of the family of that upstream, so that a socket bound to it can send there.
\<close>

theorem parsed_settings_usable:
  assumes "parse_opts w_check w cl g = Inr (g', printed)"
  shows "g_upstreams g' \<noteq> [] \<and> list_all fresh_upstream (g_upstreams g') \<and> starts_with ''/'' (g_path g')
    \<and> upstream_mode_from_str (unwrap_or (cl_upstream_mode cl) ''load_balance'') = Some (g_upstream_mode g')
    \<and> (\<forall>addr. cl_local_bind_address cl = None \<and> hd (g_upstreams g') = Dns addr
        \<longrightarrow> same_family (sa_ip (g_local_bind_address g')) (sa_ip addr) \<and> is_unspecified (sa_ip (g_local_bind_address g')))"
proof -
  note parsed = parse_opts_Inr [OF assms]
  then obtain upstreams where
    ups: "traverse (parse_upstream_arg w) (unwrap_or (cl_upstream cl) [SERVER_ADDRESS]) = Inr upstreams"
      "(if upstreams = [] then and_then (parse_upstream_arg w SERVER_ADDRESS) (\<lambda>u. Inr [u]) else Inr upstreams)
        = Inr (g_upstreams g')" by blast
  have given: "g_upstreams g' \<noteq> [] \<and> list_all fresh_upstream (g_upstreams g')"
    using ups traverse_all [OF ups(1) parse_upstream_arg_fresh] default_upstream
    by (cases "upstreams = []") (auto simp: eq_commute [of _ "g_upstreams g'"])
  moreover have "starts_with ''/'' (g_path g')"
    using parsed by (simp add: starts_with_def)
  moreover have "upstream_mode_from_str (unwrap_or (cl_upstream_mode cl) ''load_balance'') = Some (g_upstream_mode g')"
    using parsed upstream_mode_ok_reads [of "cl_upstream_mode cl"] by auto
  moreover have "same_family (sa_ip (g_local_bind_address g')) (sa_ip addr) \<and> is_unspecified (sa_ip (g_local_bind_address g'))"
    if "cl_local_bind_address cl = None" "hd (g_upstreams g') = Dns addr" for addr
    using that parsed given default_bind_family [of addr] by (cases "g_upstreams g'") auto
  ultimately show ?thesis by blast
qed

theorem parsed_settings_usable_witness:
  "\<exists>g printed. parse_opts (sample_world (Domain ''a'')) (sample_world (Domain ''a'')) no_options g = Inr (g, printed)
     \<and> g_upstreams g = [Dns (SocketV4 (Octets4 9 9 9 9) 53)] \<and> starts_with ''/'' (g_path g)
     \<and> same_family (sa_ip (g_local_bind_address g)) (V4 (Octets4 9 9 9 9))"
proof -
  obtain g printed where g: "initial_settings = Some g"
    and r: "parse_opts (sample_world (Domain ''a'')) (sample_world (Domain ''a'')) no_options g = Inr (g, printed)"
    using defaults_are_initial by blast
  have "g_upstreams g = [Dns (SocketV4 (Octets4 9 9 9 9) 53)]" "cl_local_bind_address no_options = None"
    using g by (auto simp: initial_settings_def default_addresses no_options_def)
  with r parsed_settings_usable [OF r] show ?thesis by auto
qed

lemma bracket_is_no_address: "parse_ip_addr (CHR ''['' # s) = None"
proof -
  have v4: "read_ipv4_addr (CHR ''['' # s) = None"
    by (simp add: read_ipv4_addr_def read_octet_def read_number_def to_digit_def)
  have "read_groups 8 0 (CHR ''['' # s) = ([], False, CHR ''['' # s)"
    by (subst read_groups.simps) (simp add: v4 read_separator_def read_number_def to_digit_def)
  with v4 show ?thesis by (simp add: parse_ip_addr_def read_ipv6_addr_def read_given_char_def)
qed

text \<open>The host and port that are resolved for an upstream given by a URL.\<close>

fun upstream_target :: "DohUpstream Upstream \<Rightarrow> (string \<times> u16) option" where
  "upstream_target (Dns _) = None"
| "upstream_target (Doh u) = Some (du_host u, du_port u)"
| "upstream_target (Dot u) = Some (dot_host u, dot_port u)"

lemma url_upstream_target:
  assumes "is_url_arg s" "w_url_parse w s = Inr url" "url_scheme url \<in> {''https'', ''h3'', ''tls''}"
    and "url_host url = Some h" "url_host_str url = Some (show_url_host h)"
  obtains u port where "parse_upstream_arg w s = Inr u" "upstream_target u = Some (show_url_host h, port)"
  using assms that by (auto simp: parse_upstream_arg_def doh_upstream_of_def Let_def)

text \<open>An upstream given by a URL with an IPv4 address is reached at this address; no name is looked up.\<close>

lemma address_in_url_needs_no_lookup:
  assumes "is_url_arg s" "w_url_parse w s = Inr url" "url_scheme url \<in> {''https'', ''h3'', ''tls''}"
    and "url_host url = Some (UrlIpv4 q)" "url_host_str url = Some (show_url_host (UrlIpv4 q))"
  shows "\<exists>u host port. parse_upstream_arg w s = Inr u \<and> upstream_target u = Some (host, port)
    \<and> (\<forall>bs net finished cache. resolve_upstream_addrs bs net finished host port cache = (Ok [SocketV4 q port], cache))"
proof -
  obtain u port where "parse_upstream_arg w s = Inr u" "upstream_target u = Some (show_octets4 q, port)"
    using url_upstream_target [OF assms] by (auto simp: show_url_host_def)
  moreover have "parse_ip_addr (show_octets4 q) = Some (V4 q)" using parse_show_ipv4 [of q] by simp
  ultimately show ?thesis by (auto simp: resolve_upstream_addrs_def)
qed

text \<open>
  C40 (error): an upstream given by a URL with an IPv6 address is accepted, but the host that is
  resolved keeps its brackets: it is not read as an address, and fails when the system does not know
  the bracketed text as a name.
\<close>

theorem ipv6_url_is_taken_as_name:
  assumes "is_url_arg s" "w_url_parse w s = Inr url" "url_scheme url \<in> {''https'', ''h3'', ''tls''}"
    and "url_host url = Some (UrlIpv6 a b c d)" "url_host_str url = Some (show_url_host (UrlIpv6 a b c d))"
  shows "\<exists>u host port. parse_upstream_arg w s = Inr u \<and> upstream_target u = Some (host, port)
    \<and> host = ''['' @ show_ip (V6 a b c d) @ '']''
    \<and> (\<forall>bs net finished cache. bs_bootstrap_dns bs = [] \<and> bn_lookup_host net host port = None
        \<longrightarrow> resolve_upstream_addrs bs net finished host port cache = (Err UpstreamIssue, cache))"
proof -
  obtain u port where "parse_upstream_arg w s = Inr u"
    "upstream_target u = Some (''['' @ show_ip (V6 a b c d) @ '']'', port)"
    using url_upstream_target [OF assms] by (auto simp: show_url_host_def)
  moreover have "parse_ip_addr (''['' @ show_ip (V6 a b c d) @ '']'') = None" by (simp add: bracket_is_no_address)
  ultimately show ?thesis
    by (auto simp: resolve_upstream_addrs_def Let_def split: res.split prod.split simp del: show_ip.simps)
qed

theorem ipv6_url_is_taken_as_name_witness:
  "\<exists>u host port. parse_upstream_arg (sample_world (UrlIpv6 unspecified4 unspecified4 unspecified4 (Octets4 0 0 0 1))) ''tls://a'' = Inr u
    \<and> upstream_target u = Some (host, port)
    \<and> host = ''['' @ show_ip (V6 unspecified4 unspecified4 unspecified4 (Octets4 0 0 0 1)) @ '']''
    \<and> (\<forall>bs net finished cache. bs_bootstrap_dns bs = [] \<and> bn_lookup_host net host port = None
        \<longrightarrow> resolve_upstream_addrs bs net finished host port cache = (Err UpstreamIssue, cache))"
  by (rule ipv6_url_is_taken_as_name
        [where url = "sample_url (UrlIpv6 unspecified4 unspecified4 unspecified4 (Octets4 0 0 0 1))"])
    (simp_all add: is_url_arg_def starts_with_def sample_world_def sample_url_def del: show_ip.simps)

end
