(* ===== verification/Tls_Setup.thy ===== *)
theory Tls_Setup
  imports Net_Addr
begin

text \<open>
  Certificates and the HTTPS services (\<open>src/libdoh/src/tls.rs\<close>): loading of the certificate files,
  the acceptor that the listeners share and its replacement, and the loop that accepts connections.

  The files are those of the moment they are read; reading PEM files and checking that a key belongs
  to a certificate are functions of the libraries rustls-pemfile and rustls, and parameters.
\<close>

subsection \<open>Loading the files\<close>

datatype private_key = Pkcs8Key packet | RsaKey packet

record tls_lib =
  tl_open :: "string \<Rightarrow> io_error + nat"
  tl_certs :: "nat \<Rightarrow> string + packet list"
  tl_read_to_end :: "nat \<Rightarrow> io_error + packet"
  tl_pkcs8_private_keys :: "packet \<Rightarrow> string + packet list"
  tl_rsa_private_keys :: "packet \<Rightarrow> string + packet list"
  tl_with_single_cert :: "packet list \<Rightarrow> private_key \<Rightarrow> bool"

record tls_acceptor =
  ta_certs :: "packet list"
  ta_key :: private_key
  ta_alpn_protocols :: "string list"

definition io_error_new :: "io_kind \<Rightarrow> string \<Rightarrow> io_error" where
  "io_error_new kind msg = IoError kind (Some StdOther) msg"

text \<open>\<open>Result::sum_map_err\<close>.\<close>

fun sum_map_err :: "('e \<Rightarrow> 'f) \<Rightarrow> 'e + 'a \<Rightarrow> 'f + 'a" where
  "sum_map_err f (Inl e) = Inl (f e)"
| "sum_map_err f (Inr a) = Inr a"

lemma sum_map_err_eq_Inr [simp]: "sum_map_err f r = Inr a \<longleftrightarrow> r = Inr a"
  by (cases r) simp_all

definition load_certs :: "tls_lib \<Rightarrow> string \<Rightarrow> io_error + packet list" where
  "load_certs lib certs_path =
    and_then (sum_map_err (\<lambda>e. io_error_new (io_kind e) (''Unable to load the certificates ['' @ certs_path @ '']: '' @ io_text e))
        (tl_open lib certs_path)) (\<lambda>reader.
      sum_map_err (\<lambda>e. io_error_new InvalidInputKind (''Unable to parse the certificates: '' @ e)) (tl_certs lib reader))"

definition load_keys :: "tls_lib \<Rightarrow> string \<Rightarrow> io_error + private_key list" where
  "load_keys lib certs_keys_path =
    and_then (sum_map_err (\<lambda>e. io_error_new (io_kind e) (''Unable to load the certificate keys ['' @ certs_keys_path @ '']: '' @ io_text e))
        (tl_open lib certs_keys_path)) (\<lambda>file.
    and_then (tl_read_to_end lib file) (\<lambda>encoded_keys.
    and_then (sum_map_err (\<lambda>e. io_error_new InvalidInputKind (''Unable to parse the certificates private keys (PKCS8): '' @ e))
        (tl_pkcs8_private_keys lib encoded_keys)) (\<lambda>pkcs8_keys.
    and_then (sum_map_err (\<lambda>e. io_error_new InvalidInputKind (''Unable to parse the certificates private keys (RSA): '' @ e))
        (tl_rsa_private_keys lib encoded_keys)) (\<lambda>rsa_keys.
    let keys = map Pkcs8Key pkcs8_keys @ map RsaKey rsa_keys in
    if keys = [] then
      Inl (io_error_new InvalidInputKind ''No private keys found - Make sure that they are in PKCS#8/PEM format'')
    else Inr keys))))"

definition create_tls_acceptor :: "tls_lib \<Rightarrow> string \<Rightarrow> string \<Rightarrow> io_error + tls_acceptor" where
  "create_tls_acceptor lib certs_path certs_keys_path =
    and_then (load_certs lib certs_path) (\<lambda>certs.
    and_then (load_keys lib certs_keys_path) (\<lambda>certs_keys.
    case find (tl_with_single_cert lib certs) certs_keys of
      None \<Rightarrow> Inl (io_error_new InvalidInputKind ''Unable to find a valid certificate and key'')
    | Some key \<Rightarrow> Inr \<lparr>ta_certs = certs, ta_key = key, ta_alpn_protocols = [''h2'', ''http/1.1'']\<rparr>))"

subsection \<open>The acceptor in use\<close>

text \<open>The first acceptor: the files are tried again until they load; \<open>libs i\<close> is the state at attempt \<open>i\<close>.\<close>

partial_function (option) initial_acceptor ::
  "(nat \<Rightarrow> tls_lib) \<Rightarrow> string \<Rightarrow> string \<Rightarrow> nat \<Rightarrow> (tls_acceptor \<times> nat) option" where
  "initial_acceptor libs certs_path certs_keys_path i =
    (case create_tls_acceptor (libs i) certs_path certs_keys_path of
       Inr acceptor \<Rightarrow> Some (acceptor, i)
     | Inl _ \<Rightarrow> initial_acceptor libs certs_path certs_keys_path (i + 1))"

text \<open>One round of \<open>cert_service\<close>.\<close>

definition cert_service_round :: "string \<Rightarrow> string \<Rightarrow> tls_acceptor \<Rightarrow> tls_lib \<Rightarrow> tls_acceptor" where
  "cert_service_round certs_path certs_keys_path store lib =
    (case create_tls_acceptor lib certs_path certs_keys_path of
       Inr new_acceptor \<Rightarrow> new_acceptor
     | Inl _ \<Rightarrow> store)"

text \<open>
  \<open>start_with_tls\<close> up to the start of its services: an error, or the acceptor that they share, if
  the files ever load. The acceptor after some rounds of \<open>cert_service\<close> is \<open>acceptor_after\<close>.
\<close>

definition start_with_tls ::
  "(nat \<Rightarrow> tls_lib) \<Rightarrow> string option \<Rightarrow> string option \<Rightarrow> DoHError + (tls_acceptor \<times> nat) option" where
  "start_with_tls libs tls_cert_path tls_cert_key_path =
    (case tls_cert_path of
       None \<Rightarrow> Inl (Io (io_error_new NotFoundKind ''TLS certificate path not provided''))
     | Some certs_path \<Rightarrow>
         (case tls_cert_key_path of
            None \<Rightarrow> Inl (Io (io_error_new NotFoundKind ''TLS certificate key path not provided''))
          | Some certs_keys_path \<Rightarrow> Inr (initial_acceptor libs certs_path certs_keys_path 0)))"

definition acceptor_after :: "(nat \<Rightarrow> tls_lib) \<Rightarrow> string \<Rightarrow> string \<Rightarrow> tls_acceptor \<times> nat \<Rightarrow> nat \<Rightarrow> tls_acceptor" where
  "acceptor_after libs certs_path certs_keys_path start rounds =
    foldl (cert_service_round certs_path certs_keys_path) (fst start) (map libs [snd start + 1 ..< snd start + 1 + rounds])"

subsection \<open>Accepting connections\<close>

text \<open>\<open>while let Ok(c) = listener.accept()\<close>: an error ends the loop.\<close>

fun accept_loop :: "('c \<Rightarrow> 'o) \<Rightarrow> (io_error + 'c) list \<Rightarrow> 'o list" where
  "accept_loop handle [] = []"
| "accept_loop handle (Inl _ # _) = []"
| "accept_loop handle (Inr c # cs) = handle c # accept_loop handle cs"

text \<open>
  A connection over TLS: the count of clients that its increment returns, the number of rounds that
  \<open>cert_service\<close> has made when its task loads the acceptor, and with which acceptors its handshake succeeds.
  \<open>store n\<close> is the acceptor that is stored after \<open>n\<close> rounds.
\<close>

datatype connection_fate = Refused | HandshakeFailed | Served

record https_connection =
  hc_client_addr :: SocketAddr
  hc_count :: nat
  hc_round :: nat
  hc_handshake :: "tls_acceptor \<Rightarrow> bool"

definition https_connection_fate ::
  "nat \<Rightarrow> (nat \<Rightarrow> tls_acceptor) \<Rightarrow> https_connection \<Rightarrow> SocketAddr \<times> connection_fate" where
  "https_connection_fate max_clients store c =
    (hc_client_addr c,
     if hc_count c \<ge> max_clients then Refused
     else if hc_handshake c (store (hc_round c)) then Served else HandshakeFailed)"

definition start_https_service ::
  "nat \<Rightarrow> (nat \<Rightarrow> tls_acceptor) \<Rightarrow> (io_error + https_connection) list \<Rightarrow> (SocketAddr \<times> connection_fate) list" where
  "start_https_service max_clients store incoming = accept_loop (https_connection_fate max_clients store) incoming"

subsection \<open>Which key is used\<close>

lemma find_Some_split:
  "find P xs = Some x \<Longrightarrow> \<exists>before after. xs = before @ x # after \<and> P x \<and> (\<forall>y\<in>set before. \<not> P y)"
proof (induction xs)
  case (Cons y ys)
  show ?case
  proof (cases "P y")
    case True
    then show ?thesis using Cons.prems by (intro exI [of _ "[]"] exI [of _ ys]) auto
  next
    case False
    then obtain before after where "ys = before @ x # after" "P x" "\<forall>y\<in>set before. \<not> P y"
      using Cons by auto
    then show ?thesis using False by (intro exI [of _ "y # before"] exI [of _ after]) auto
  qed
qed simp

lemma acceptor_uses_first_key:
  assumes "create_tls_acceptor lib certs_path keys_path = Inr acceptor"
  shows "\<exists>keys before after. load_certs lib certs_path = Inr (ta_certs acceptor) \<and> load_keys lib keys_path = Inr keys
    \<and> keys = before @ ta_key acceptor # after \<and> tl_with_single_cert lib (ta_certs acceptor) (ta_key acceptor)
    \<and> (\<forall>key\<in>set before. \<not> tl_with_single_cert lib (ta_certs acceptor) key)"
proof -
  obtain certs keys key where "load_certs lib certs_path = Inr certs" "load_keys lib keys_path = Inr keys"
    "find (tl_with_single_cert lib certs) keys = Some key" "ta_certs acceptor = certs" "ta_key acceptor = key"
    using assms by (auto simp: create_tls_acceptor_def split: option.splits)
  then show ?thesis using find_Some_split [of "tl_with_single_cert lib certs" keys key] by blast
qed

subsection \<open>The acceptor in use\<close>

lemma initial_acceptor_first:
  assumes "create_tls_acceptor (libs k) c key = Inr acceptor" "i \<le> k"
    "\<forall>j. i \<le> j \<and> j < k \<longrightarrow> isl (create_tls_acceptor (libs j) c key)"
  shows "initial_acceptor libs c key i = Some (acceptor, k)"
  using assms(2,3)
proof (induction "k - i" arbitrary: i)
  case 0
  then show ?case using assms(1) by (subst initial_acceptor.simps) simp
next
  case (Suc n)
  then have "isl (create_tls_acceptor (libs i) c key)" "initial_acceptor libs c key (i + 1) = Some (acceptor, k)"
    by auto
  then show ?case by (subst initial_acceptor.simps) (auto simp: isl_def)
qed

lemma initial_acceptor_loads:
  "\<not> isl (create_tls_acceptor (libs m) c key) \<Longrightarrow>
    \<exists>acceptor k. initial_acceptor libs c key 0 = Some (acceptor, k) \<and> create_tls_acceptor (libs k) c key = Inr acceptor"
proof -
  assume m: "\<not> isl (create_tls_acceptor (libs m) c key)"
  define k where "k = (LEAST k. \<not> isl (create_tls_acceptor (libs k) c key))"
  have "\<not> isl (create_tls_acceptor (libs k) c key)" unfolding k_def by (rule LeastI [of _ m]) (rule m)
  moreover have "isl (create_tls_acceptor (libs j) c key)" if "j < k" for j
    using that not_less_Least unfolding k_def by blast
  ultimately show ?thesis
    by (metis initial_acceptor_first le0 sum.collapse(2))
qed

lemma initial_acceptor_Some:
  "initial_acceptor libs c key i = Some r \<Longrightarrow> create_tls_acceptor (libs (snd r)) c key = Inr (fst r)"
  by (erule initial_acceptor.raw_induct [rotated]) (auto split: sum.splits)

lemma initial_acceptor_waits:
  assumes "\<forall>j. isl (create_tls_acceptor (libs j) c key)"
  shows "initial_acceptor libs c key i = None"
proof (cases "initial_acceptor libs c key i")
  case (Some r)
  with assms initial_acceptor_Some [OF Some] show ?thesis by (metis sum.disc(2))
qed simp

lemma acceptor_after_Suc:
  "acceptor_after libs c key start (Suc n) = cert_service_round c key (acceptor_after libs c key start n) (libs (snd start + Suc n))"
  by (simp add: acceptor_after_def)

lemma acceptor_after_last:
  assumes "create_tls_acceptor (libs (snd start)) c key = Inr (fst start)"
  shows "\<exists>j \<le> snd start + n. create_tls_acceptor (libs j) c key = Inr (acceptor_after libs c key start n)
    \<and> (\<forall>i. j < i \<and> i \<le> snd start + n \<longrightarrow> isl (create_tls_acceptor (libs i) c key))"
proof (induction n)
  case 0
  show ?case using assms by (intro exI [of _ "snd start"]) (auto simp: acceptor_after_def)
next
  case (Suc n)
  show ?case
  proof (cases "create_tls_acceptor (libs (snd start + Suc n)) c key")
    case (Inl e)
    from Suc obtain j where "j \<le> snd start + n" "create_tls_acceptor (libs j) c key = Inr (acceptor_after libs c key start n)"
      "\<forall>i. j < i \<and> i \<le> snd start + n \<longrightarrow> isl (create_tls_acceptor (libs i) c key)" by blast
    with Inl show ?thesis
      by (intro exI [of _ j]) (auto simp: acceptor_after_Suc cert_service_round_def le_Suc_eq)
  next
    case (Inr a)
    then show ?thesis
      by (intro exI [of _ "snd start + Suc n"]) (auto simp: acceptor_after_Suc cert_service_round_def)
  qed
qed

subsection \<open>Accepting connections\<close>

text \<open>The first error of \<open>accept\<close> ends the service of a listener, whatever arrives afterwards.\<close>

lemma accept_loop_cut: "accept_loop f (map Inr cs @ Inl e # rest) = map f cs"
  by (induction cs) simp_all

lemma accept_loop_mem: "out \<in> set (accept_loop f incoming) \<Longrightarrow> \<exists>c. Inr c \<in> set incoming \<and> f c = out"
  by (induction f incoming rule: accept_loop.induct) auto

text \<open>A connection that is served has shaken hands with files that load, the latest that did when it came.\<close>

lemma served_with_latest:
  assumes "create_tls_acceptor (libs (snd start)) certs keys = Inr (fst start)"
    and "(addr, Served) \<in> set (start_https_service max_clients (acceptor_after libs certs keys start) incoming)"
  shows "\<exists>c j acceptor. Inr c \<in> set incoming \<and> hc_client_addr c = addr \<and> j \<le> snd start + hc_round c
    \<and> create_tls_acceptor (libs j) certs keys = Inr acceptor \<and> hc_handshake c acceptor
    \<and> (\<forall>i. j < i \<and> i \<le> snd start + hc_round c \<longrightarrow> isl (create_tls_acceptor (libs i) certs keys))"
proof -
  let ?store = "acceptor_after libs certs keys start"
  obtain c where c: "Inr c \<in> set incoming" "https_connection_fate max_clients ?store c = (addr, Served)"
    using accept_loop_mem assms(2) unfolding start_https_service_def by metis
  then have a: "hc_client_addr c = addr" "hc_handshake c (?store (hc_round c))"
    by (auto simp: https_connection_fate_def split: if_splits)
  obtain j where "j \<le> snd start + hc_round c" "create_tls_acceptor (libs j) certs keys = Inr (?store (hc_round c))"
    "\<forall>i. j < i \<and> i \<le> snd start + hc_round c \<longrightarrow> isl (create_tls_acceptor (libs i) certs keys)"
    using acceptor_after_last [of libs start certs keys "hc_round c"] assms(1) by blast
  with c(1) a show ?thesis by (intro exI [of _ c] exI [of _ j] exI [of _ "?store (hc_round c)"]) simp
qed

subsection \<open>Properties\<close>

text \<open>
  C35 (liveness): once the certificate files load, the server has an acceptor, and from then on it
  uses the files of the latest attempt that loaded: files that do not load replace nothing.
\<close>

theorem certificates_in_use_are_latest:
  assumes "\<not> isl (create_tls_acceptor (libs m) certs_path keys_path)"
  shows "\<exists>start. start_with_tls libs (Some certs_path) (Some keys_path) = Inr (Some start)
    \<and> (\<forall>rounds. \<exists>j \<le> snd start + rounds.
        create_tls_acceptor (libs j) certs_path keys_path = Inr (acceptor_after libs certs_path keys_path start rounds)
        \<and> (\<forall>i. j < i \<and> i \<le> snd start + rounds \<longrightarrow> isl (create_tls_acceptor (libs i) certs_path keys_path)))"
proof -
  obtain acceptor k where "initial_acceptor libs certs_path keys_path 0 = Some (acceptor, k)"
    "create_tls_acceptor (libs k) certs_path keys_path = Inr acceptor"
    using initial_acceptor_loads [of libs m, OF assms] by blast
  then show ?thesis
    using acceptor_after_last [of libs "(acceptor, k)" certs_path keys_path]
    by (intro exI [of _ "(acceptor, k)"]) (simp add: start_with_tls_def)
qed

text \<open>Files with one certificate and one key, which belong together.\<close>

definition sample_tls_lib :: tls_lib where
  "sample_tls_lib = \<lparr>tl_open = (\<lambda>_. Inr 0), tl_certs = (\<lambda>_. Inr [[1]]), tl_read_to_end = (\<lambda>_. Inr [2]),
     tl_pkcs8_private_keys = (\<lambda>_. Inr [[2]]), tl_rsa_private_keys = (\<lambda>_. Inr []), tl_with_single_cert = (\<lambda>_ _. True)\<rparr>"

lemma sample_tls_lib_loads: "\<not> isl (create_tls_acceptor sample_tls_lib c k)"
  by (simp add: create_tls_acceptor_def load_certs_def load_keys_def sample_tls_lib_def Let_def
      del: and_then_eq_Inr sum_map_err_eq_Inr)

theorem certificates_in_use_are_latest_witness:
  "\<exists>start. start_with_tls (\<lambda>_. sample_tls_lib) (Some ''c'') (Some ''k'') = Inr (Some start)
    \<and> (\<forall>rounds. create_tls_acceptor sample_tls_lib ''c'' ''k''
          = Inr (acceptor_after (\<lambda>_. sample_tls_lib) ''c'' ''k'' start rounds))"
  using certificates_in_use_are_latest [of "\<lambda>_. sample_tls_lib" 0, OF sample_tls_lib_loads] by blast

end
