(* ===== verification/Cert_Watcher.thy ===== *)
theory Cert_Watcher
  imports Net_Addr
begin

text \<open>
  The watcher of the certificate files (\<open>spawn_cert_watcher\<close>, \<open>tls_file_state\<close>, \<open>absolutize_path\<close> in
  \<open>src/libdoh/src/lib.rs\<close>): the directories it observes and the handler that decides which events are
  announced. Paths are compared by their components, as the standard library does; what the library
  that observes directories reports is a parameter. The messages on standard error are left out.
\<close>

subsection \<open>Paths\<close>

datatype path_component = RootDir | CurDir | ParentDir | NormalDir string

text \<open>
  The components of a path: separators that are repeated or at the end do not count, nor does a
  single dot, except at the start of a relative path.
\<close>

definition path_part :: "string \<Rightarrow> path_component list" where
  "path_part part =
    (if part = [] \<or> part = ''.'' then [] else if part = ''..'' then [ParentDir] else [NormalDir part])"

definition path_components :: "string \<Rightarrow> path_component list" where
  "path_components path =
    (let parts = split_on (CHR ''/'') path in
     (if starts_with ''/'' path then [RootDir] else if hd parts = ''.'' then [CurDir] else [])
     @ concat (map path_part parts))"

definition path_parent :: "path_component list \<Rightarrow> path_component list option" where
  "path_parent path = (if path = [] \<or> last path = RootDir then None else Some (butlast path))"

definition absolutize_path :: "string option \<Rightarrow> string \<Rightarrow> string" where
  "absolutize_path current_dir path =
    (if starts_with ''/'' path then path
     else case current_dir of
       None \<Rightarrow> path
     | Some cwd \<Rightarrow> if cwd \<noteq> [] \<and> last cwd = CHR ''/'' then cwd @ path else cwd @ ''/'' @ path)"

subsection \<open>State and handler\<close>

text \<open>The metadata of a file: its time of modification in milliseconds since the epoch, if known, and its length.\<close>

type_synonym metadata = "string \<Rightarrow> (int option \<times> u64) option"

definition tls_file_state :: "metadata \<Rightarrow> string \<Rightarrow> (u64 \<times> u64) option" where
  "tls_file_state fs path =
    Option.bind (fs path) (\<lambda>(modified, len).
    Option.bind modified (\<lambda>ms.
    if ms < 0 then None else Some (of_int (min ms (2 ^ 64 - 1)), len)))"

record watcher =
  last_cert_state :: "(u64 \<times> u64) option"
  last_key_state :: "(u64 \<times> u64) option"

definition watcher_start :: "metadata \<Rightarrow> string \<Rightarrow> string \<Rightarrow> watcher" where
  "watcher_start fs certs_path certs_keys_path =
    \<lparr>last_cert_state = tls_file_state fs certs_path, last_key_state = tls_file_state fs certs_keys_path\<rparr>"

text \<open>The handler of the watcher: errors, or events with their paths. It returns whether a message is sent.\<close>

definition watcher_handler ::
  "metadata \<Rightarrow> string \<Rightarrow> string \<Rightarrow> string + string list list \<Rightarrow> watcher \<Rightarrow> watcher \<times> bool" where
  "watcher_handler fs certs_path certs_keys_path result st =
    (case result of
       Inl _ \<Rightarrow> (st, False)
     | Inr events \<Rightarrow>
         if list_ex (list_ex (\<lambda>path. path_components path = path_components certs_path
                                   \<or> path_components path = path_components certs_keys_path)) events then
           (let cert_state = tls_file_state fs certs_path; key_state = tls_file_state fs certs_keys_path in
            if cert_state \<noteq> last_cert_state st \<or> key_state \<noteq> last_key_state st
            then (\<lparr>last_cert_state = cert_state, last_key_state = key_state\<rparr>, True)
            else (st, False))
         else (st, False))"

subsection \<open>The thread\<close>

text \<open>
  What the thread meets: an error when it is made, the current directory, the files, an error of the
  library, and for a directory an error of observing it.
\<close>

record watcher_env =
  we_spawn :: "string option"
  we_current_dir :: "string option"
  we_files :: metadata
  we_debouncer :: "string option"
  we_watch :: "path_component list \<Rightarrow> string option"

definition watch_dir :: "string \<Rightarrow> path_component list" where
  "watch_dir path = (case path_parent (path_components path) of Some dir \<Rightarrow> dir | None \<Rightarrow> [CurDir])"

definition watch_dirs :: "string \<Rightarrow> string \<Rightarrow> path_component list list" where
  "watch_dirs certs_path certs_keys_path =
    fold (\<lambda>path dirs. if watch_dir path \<in> set dirs then dirs else dirs @ [watch_dir path]) [certs_path, certs_keys_path] []"

text \<open>
  A thread that goes on observes directories with the paths and the state of its handler. A thread
  that ends drops its handler, and with it the sender of messages.
\<close>

datatype watcher_thread =
    WatcherEnded
  | Watching "path_component list list" string string watcher

definition cert_watcher :: "watcher_env \<Rightarrow> string \<Rightarrow> string \<Rightarrow> watcher_thread" where
  "cert_watcher env certs_path certs_keys_path =
    (let certs_path = absolutize_path (we_current_dir env) certs_path;
         certs_keys_path = absolutize_path (we_current_dir env) certs_keys_path;
         dirs = watch_dirs certs_path certs_keys_path;
         st = watcher_start (we_files env) certs_path certs_keys_path in
     if we_debouncer env \<noteq> None then WatcherEnded
     else if list_ex (\<lambda>dir. we_watch env dir \<noteq> None) dirs then WatcherEnded
     else Watching dirs certs_path certs_keys_path st)"

definition spawn_cert_watcher :: "watcher_env \<Rightarrow> string \<Rightarrow> string \<Rightarrow> watcher_thread option" where
  "spawn_cert_watcher env certs_path certs_keys_path =
    (case we_spawn env of
       None \<Rightarrow> Some (cert_watcher env certs_path certs_keys_path)
     | Some _ \<Rightarrow> None)"

subsection \<open>Properties of the watcher\<close>

lemma watch_dirs_cover: "set (watch_dirs c k) = {watch_dir c, watch_dir k}"
  by (auto simp: watch_dirs_def)

lemma watch_dirs_distinct: "distinct (watch_dirs c k)"
  by (simp add: watch_dirs_def)

lemma file_in_watch_dir: "path_components p = dir @ [NormalDir n] \<Longrightarrow> watch_dir p = dir"
  by (simp add: watch_dir_def path_parent_def)

lemma cert_watcher_Watching:
  assumes "spawn_cert_watcher env certs_path certs_keys_path = Some (Watching dirs c k st)"
  shows "c = absolutize_path (we_current_dir env) certs_path" "k = absolutize_path (we_current_dir env) certs_keys_path"
    "dirs = watch_dirs c k" "st = watcher_start (we_files env) c k" "\<forall>dir\<in>set dirs. we_watch env dir = None"
  using assms by (auto simp: spawn_cert_watcher_def cert_watcher_def Let_def list_ex_iff split: option.splits if_splits)

text \<open>The files have changed since the state was taken; an event names a file, however its path is written.\<close>

definition files_changed :: "metadata \<Rightarrow> string \<Rightarrow> string \<Rightarrow> watcher \<Rightarrow> bool" where
  "files_changed fs c k st \<longleftrightarrow> tls_file_state fs c \<noteq> last_cert_state st \<or> tls_file_state fs k \<noteq> last_key_state st"

definition event_concerns :: "string list list \<Rightarrow> string \<Rightarrow> bool" where
  "event_concerns events p \<longleftrightarrow> (\<exists>paths \<in> set events. \<exists>path \<in> set paths. path_components path = path_components p)"

lemma watcher_handler_sends:
  "snd (watcher_handler fs c k (Inr events) st) \<longleftrightarrow>
     (event_concerns events c \<or> event_concerns events k) \<and> files_changed fs c k st"
proof -
  have "list_ex (list_ex (\<lambda>path. path_components path = path_components c \<or> path_components path = path_components k)) events
      \<longleftrightarrow> event_concerns events c \<or> event_concerns events k"
    unfolding event_concerns_def list_ex_iff by blast
  then show ?thesis by (simp add: watcher_handler_def files_changed_def Let_def)
qed

text \<open>After a message the state of the handler is that of the files, and no event sends a second one.\<close>

lemma watcher_handler_current:
  assumes "watcher_handler fs c k result st = (st', True)"
  shows "st' = watcher_start fs c k" "\<not> snd (watcher_handler fs c k result' st')"
proof -
  show st': "st' = watcher_start fs c k"
    using assms by (auto simp: watcher_handler_def watcher_start_def Let_def split: sum.splits if_splits)
  show "\<not> snd (watcher_handler fs c k result' st')"
  proof (cases result')
    case (Inl e)
    then show ?thesis by (simp add: watcher_handler_def)
  next
    case (Inr events)
    then show ?thesis by (simp add: watcher_handler_sends st' files_changed_def watcher_start_def)
  qed
qed

text \<open>Repeated separators and dots make no difference.\<close>

lemma path_components_examples:
  "path_components ''/etc//ssl/./cert.pem'' = [RootDir, NormalDir ''etc'', NormalDir ''ssl'', NormalDir ''cert.pem'']"
  "path_components ''./cert.pem'' = [CurDir, NormalDir ''cert.pem'']" "watch_dir ''cert.pem'' = []" "watch_dir ''/'' = [CurDir]"
  by (simp_all add: path_components_def path_part_def watch_dir_def path_parent_def starts_with_def Let_def)

end
