(* ===== verification/Listeners.thy ===== *)
theory Listeners
  imports Config Tls_Setup Machine Http_Front Cert_Watcher
begin

text \<open>
  Start and supervision of the listeners (\<open>src/libdoh/src/lib.rs\<close>): binding of the addresses, the
  choice of the service, the HTTP/3 listener with its reaction to the messages of \<open>Cert_Watcher\<close>, and the
  supervisor that starts the HTTP/3 listener again.

  Sockets are numbers. The HTTP/3 listener is a state machine: its phase is the point at which
  \<open>start_http3\<close> waits or goes on, and the channel on which the watcher announces changes is the
  number of messages in it.
\<close>

subsection \<open>Binding\<close>

text \<open>
  \<open>try_bind i a\<close> is the result of binding address \<open>a\<close> as number \<open>i\<close> of the addresses: sockets bound before
  may be in the way.
\<close>

type_synonym bind_fn = "nat \<Rightarrow> SocketAddr \<Rightarrow> io_error + nat"

fun bind_each ::
  "string \<Rightarrow> bind_fn \<Rightarrow> nat \<Rightarrow> SocketAddr list \<Rightarrow> io_error option
    \<Rightarrow> (SocketAddr \<times> nat) list \<times> io_error option \<times> printed list" where
  "bind_each warning try_bind i [] last_error = ([], last_error, [])"
| "bind_each warning try_bind i (address # rest) last_error =
    (case try_bind i address of
       Inr listener \<Rightarrow>
         (let (listeners, last_error, out) = bind_each warning try_bind (i + 1) rest last_error
          in ((address, listener) # listeners, last_error, out))
     | Inl err \<Rightarrow>
         (let (listeners, last_error, out) = bind_each warning try_bind (i + 1) rest (Some err)
          in (listeners, last_error, Stderr (warning @ show_socket_addr address @ '': '' @ io_text err) # out)))"

definition bind_listeners :: "bind_fn \<Rightarrow> SocketAddr list \<Rightarrow> (DoHError + (SocketAddr \<times> nat) list) \<times> printed list" where
  "bind_listeners try_bind listen_addresses =
    (let total = length listen_addresses in
     if total = 0 then (Inl (Io (io_error_new InvalidInputKind ''No listen addresses configured'')), [])
     else
       let (listeners, last_error, out) = bind_each ''Warning: Failed to bind '' try_bind 0 listen_addresses None in
       if listeners = [] then
         (Inl (Io (unwrap_or last_error (io_error_new AddrNotAvailableKind ''No available listen addresses''))), out)
       else
         (Inr listeners,
          out @ (if total > 1 \<and> length listeners < total then
                   [Stderr (''Warning: Bound '' @ show_nat (length listeners) @ '' of '' @ show_nat total
                      @ '' configured listen addresses.'')]
                 else [])))"

subsection \<open>The service that is started\<close>

record server_config =
  sc_keepalive :: bool
  sc_max_concurrent_streams :: u32

text \<open>With certificates, an HTTP/3 listener on the same addresses is supervised beside the HTTPS service.\<close>

datatype service =
    PlainService "nat list" server_config
  | TlsService "nat list" server_config "SocketAddr list"

definition entrypoint :: "bind_fn \<Rightarrow> 'u Settings \<Rightarrow> (DoHError + service) \<times> printed list" where
  "entrypoint try_bind globals =
    (case bind_listeners try_bind (g_listen_addresses globals) of
       (Inl e, out) \<Rightarrow> (Inl e, out)
     | (Inr bound_listeners, out) \<Rightarrow>
         (let path = g_path globals;
              tls_enabled = (g_tls_cert_path globals \<noteq> None \<and> g_tls_cert_key_path globals \<noteq> None);
              out = out @ map (\<lambda>(address, _). Stdout (''Listening on '' @ (if tls_enabled then ''https://'' else ''http://'')
                      @ show_socket_addr address @ path)) bound_listeners;
              server_config = \<lparr>sc_keepalive = g_keepalive globals,
                sc_max_concurrent_streams = g_max_concurrent_streams globals\<rparr>;
              h3_listen_addrs = map fst bound_listeners;
              listeners = map snd bound_listeners
          in (Inr (if tls_enabled then TlsService listeners server_config h3_listen_addrs
                   else PlainService listeners server_config), out)))"

text \<open>A service without TLS: the connections of a listener are counted and served by \<open>client_serve\<close>.\<close>

definition serve_listener_without_tls :: "(io_error + SocketAddr) list \<Rightarrow> SocketAddr list" where
  "serve_listener_without_tls incoming = accept_loop id incoming"

text \<open>Every listener has its task; the service returns when all have ended.\<close>

definition start_without_tls :: "(io_error + SocketAddr) list list \<Rightarrow> SocketAddr list list \<times> (DoHError + unit)" where
  "start_without_tls listeners = (map serve_listener_without_tls listeners, Inr ())"

text \<open>
  The program up to the start of its service. The runtime and the keys of Oblivious DNS, from the key
  pair \<open>new_pair\<close>, are made first. A runtime that cannot be made is a message; keys that cannot be made are
  a panic of the rotator, which never returns the error that \<open>main\<close> has a message for.
\<close>

definition main ::
  "string option \<Rightarrow> ('k, 'm, 'p, 's) odoh_rs \<Rightarrow> 'k \<Rightarrow> world \<Rightarrow> world \<Rightarrow> cli \<Rightarrow> bind_fn
    \<Rightarrow> (cli_exit, service \<times> printed list) res" where
  "main runtime_error crate new_pair w_check w cl try_bind =
    (case runtime_error of
       Some e \<Rightarrow> Err (Exit (''Failed to create Tokio runtime: '' @ e))
     | None \<Rightarrow>
         rbind (map_err (\<lambda>e. Exit (''Failed to create ODoH rotator: '' @ show_error e)) (odoh_rotator_new crate new_pair)) (\<lambda>rotator.
         case initial_settings of
           None \<Rightarrow> Err (Exit ''Invalid default address'')
         | Some globals \<Rightarrow>
             (case parse_opts w_check w cl globals of
                Inl e \<Rightarrow> Err e
              | Inr (globals, printed) \<Rightarrow>
                  (case entrypoint try_bind globals of
                     (Inl e, _) \<Rightarrow> Err (Exit (''Failed to start DoH server: '' @ show_error e))
                   | (Inr service, out) \<Rightarrow> Ok (service, printed @ out)))))"

subsection \<open>The HTTP/3 listener\<close>

text \<open>What the loop meets when it checks the certificates, binds and listens.\<close>

record listener_env =
  he_validate :: "io_error + tls_acceptor"
  he_bind :: bind_fn
  he_listen :: bool

datatype h3_phase =
    H3Check                      \<comment> \<open>at the head of the loop\<close>
  | H3AwaitCert                  \<comment> \<open>waiting for new files, after files that do not load\<close>
  | H3AwaitRebind io_error       \<comment> \<open>waiting for new files, after a conflict of addresses\<close>
  | H3Listening "nat list"       \<comment> \<open>accepting on these sockets\<close>
  | H3Joining                    \<comment> \<open>no more messages can come; waiting for the accepting tasks to end\<close>
  | H3Closing                    \<comment> \<open>accepting tasks told to stop; waiting for them\<close>
  | H3Stopped "DoHError + unit"  \<comment> \<open>returned\<close>

record h3_listener =
  hl_phase :: h3_phase
  hl_had_successful_bind :: bool
  hl_reloads :: nat
  hl_sender :: bool

definition listener_start :: h3_listener where
  "listener_start = \<lparr>hl_phase = H3Check, hl_had_successful_bind = False, hl_reloads = 0, hl_sender = True\<rparr>"

definition listener_check :: "SocketAddr list \<Rightarrow> listener_env \<Rightarrow> bool \<Rightarrow> h3_phase \<times> bool" where
  "listener_check listen_addresses env had_successful_bind =
    (case he_validate env of
       Inl _ \<Rightarrow> (H3AwaitCert, had_successful_bind)
     | Inr _ \<Rightarrow>
         (let (sockets, last_error, _) =
                bind_each ''Warning: Failed to bind HTTP/3 socket '' (he_bind env) 0 listen_addresses None in
          if sockets = [] then
            (let err = unwrap_or last_error (io_error_new AddrNotAvailableKind ''No available HTTP/3 listen addresses'') in
             (if had_successful_bind \<and> io_kind err = AddrInUseKind then H3AwaitRebind err
              else H3Stopped (Inl (Io err)), had_successful_bind))
          else (if he_listen env then H3Listening (map snd sockets) else H3Stopped (Inl UpstreamIssue), True)))"

text \<open>The end of the accepting tasks; \<open>None\<close> when the task that waits for them failed.\<close>

fun join_result :: "(DoHError + unit) option \<Rightarrow> DoHError + unit" where
  "join_result None = Inl UpstreamIssue"
| "join_result (Some r) = r"

text \<open>
  The task that accepts on a socket: told to stop, a connection, an error, or the end of the
  connections. \<open>accept_join\<close> waits for the tasks in turn.
\<close>

datatype h3_accept_event = AcceptShutdown | AcceptConnection SocketAddr | AcceptError | AcceptStreamEnd

fun h3_accept_task :: "h3_accept_event list \<Rightarrow> SocketAddr list" where
  "h3_accept_task [] = []"
| "h3_accept_task (AcceptShutdown # _) = []"
| "h3_accept_task (AcceptConnection client_addr # events) = client_addr # h3_accept_task events"
| "h3_accept_task (AcceptError # events) = h3_accept_task events"
| "h3_accept_task (AcceptStreamEnd # _) = []"

fun accept_join :: "(DoHError + unit) option list \<Rightarrow> DoHError + unit" where
  "accept_join [] = Inr ()"
| "accept_join (handle # handles) = and_then (join_result handle) (\<lambda>_. accept_join handles)"

datatype listener_event =
    ReloadSent                               \<comment> \<open>the watcher announces a change\<close>
  | SenderDropped                            \<comment> \<open>the watcher is gone\<close>
  | Proceed listener_env                           \<comment> \<open>the listener takes its next action\<close>
  | AcceptEnded "(DoHError + unit) option"   \<comment> \<open>the accepting tasks end\<close>

definition listener_proceed :: "SocketAddr list \<Rightarrow> listener_env \<Rightarrow> h3_listener \<Rightarrow> h3_listener option" where
  "listener_proceed listen_addresses env l =
    (case hl_phase l of
       H3Check \<Rightarrow>
         (case listener_check listen_addresses env (hl_had_successful_bind l) of
            (phase, had) \<Rightarrow> Some (l\<lparr>hl_phase := phase, hl_had_successful_bind := had\<rparr>))
     | H3AwaitCert \<Rightarrow>
         if hl_reloads l > 0 then Some (l\<lparr>hl_phase := H3Check, hl_reloads := hl_reloads l - 1\<rparr>)
         else if hl_sender l then None
         else Some (l\<lparr>hl_phase := H3Stopped (Inl UpstreamIssue)\<rparr>)
     | H3AwaitRebind err \<Rightarrow>
         if hl_reloads l > 0 then Some (l\<lparr>hl_phase := H3Check, hl_reloads := 0\<rparr>)
         else if hl_sender l then None
         else Some (l\<lparr>hl_phase := H3Stopped (Inl (Io err))\<rparr>)
     | H3Listening sockets \<Rightarrow>
         if hl_reloads l > 0 then
           (case he_validate env of
              Inl _ \<Rightarrow> Some (l\<lparr>hl_reloads := 0\<rparr>)
            | Inr _ \<Rightarrow> Some (l\<lparr>hl_phase := H3Closing, hl_reloads := 0\<rparr>))
         else if hl_sender l then None
         else Some (l\<lparr>hl_phase := H3Joining\<rparr>)
     | _ \<Rightarrow> None)"

definition listener_accept_ended :: "(DoHError + unit) option \<Rightarrow> h3_listener \<Rightarrow> h3_listener option" where
  "listener_accept_ended res l =
    (let stopped = l\<lparr>hl_phase := H3Stopped (and_then (join_result res) (\<lambda>_. Inl UpstreamIssue))\<rparr> in
     case hl_phase l of
       H3Listening _ \<Rightarrow> Some stopped
     | H3Joining \<Rightarrow> Some stopped
     | H3Closing \<Rightarrow>
         (case join_result res of
            Inl e \<Rightarrow> Some (l\<lparr>hl_phase := H3Stopped (Inl e)\<rparr>)
          | Inr _ \<Rightarrow> Some (l\<lparr>hl_phase := H3Check\<rparr>))
     | _ \<Rightarrow> None)"

fun listener_step :: "SocketAddr list \<Rightarrow> listener_event \<Rightarrow> h3_listener \<Rightarrow> h3_listener option" where
  "listener_step addrs ReloadSent l = (if hl_sender l then Some (l\<lparr>hl_reloads := hl_reloads l + 1\<rparr>) else None)"
| "listener_step addrs SenderDropped l = (if hl_sender l then Some (l\<lparr>hl_sender := False\<rparr>) else None)"
| "listener_step addrs (Proceed env) l = listener_proceed addrs env l"
| "listener_step addrs (AcceptEnded res) l = listener_accept_ended res l"

text \<open>\<open>start_http3\<close>: the paths are needed before the loop starts.\<close>

definition start_http3 :: "string option \<Rightarrow> string option \<Rightarrow> h3_listener" where
  "start_http3 tls_cert_path tls_cert_key_path =
    (if tls_cert_path = None \<or> tls_cert_key_path = None then listener_start\<lparr>hl_phase := H3Stopped (Inl InvalidData)\<rparr> else listener_start)"

text \<open>
  A connection: the requests that arrive before the first event that is not one of the core events
  are answered, each on its own.
\<close>

datatype h3_server_event =
    CoreHeaders "nat \<Rightarrow> bool" h3_headers "inbound_frame list"
  | CoreOther
  | NotCore

fun handle_h3_connection ::
  "('k, 'm, 'p, 's) server \<Rightarrow> h3_server_event list \<Rightarrow> (outbound_frame list \<times> (DoHError, unit) res) option list" where
  "handle_h3_connection doh [] = []"
| "handle_h3_connection doh (CoreHeaders send headers recv # events) =
     handle_h3_request doh send headers recv # handle_h3_connection doh events"
| "handle_h3_connection doh (CoreOther # events) = handle_h3_connection doh events"
| "handle_h3_connection doh (NotCore # events) = []"

subsection \<open>The supervisor\<close>

definition H3_SUPERVISOR_RESTART_DELAY_MS :: u64 where "H3_SUPERVISOR_RESTART_DELAY_MS = 500"
definition H3_SUPERVISOR_RESTART_DELAY_MAX_MS :: u64 where "H3_SUPERVISOR_RESTART_DELAY_MAX_MS = 30000"

text \<open>
  A round of the loop: the stop signal is there at its head; no watcher can be started; the signal
  comes while the listener runs; or the listener returns. The last component says whether the signal
  comes during the wait that follows.
\<close>

datatype supervisor_round =
    StopSeen
  | NoWatcher bool
  | StopWhileRunning
  | ListenerReturned "DoHError + unit" bool

text \<open>The waits of the loop, and whether it has ended.\<close>

fun supervise :: "u64 \<Rightarrow> supervisor_round list \<Rightarrow> u64 list \<times> bool" where
  "supervise restart_delay_ms [] = ([], False)"
| "supervise restart_delay_ms (StopSeen # _) = ([], True)"
| "supervise restart_delay_ms (NoWatcher stop # rounds) =
    (if stop then ([], True)
     else apfst ((#) H3_SUPERVISOR_RESTART_DELAY_MS) (supervise restart_delay_ms rounds))"
| "supervise restart_delay_ms (StopWhileRunning # _) = ([], True)"
| "supervise restart_delay_ms (ListenerReturned (Inr _) _ # _) = ([], True)"
| "supervise restart_delay_ms (ListenerReturned (Inl _) stop # rounds) =
    (if stop then ([], True)
     else apfst ((#) restart_delay_ms)
       (supervise (min (saturating_mul_u64 restart_delay_ms 2) H3_SUPERVISOR_RESTART_DELAY_MAX_MS) rounds))"

definition run_http3_supervisor :: "string option \<Rightarrow> string option \<Rightarrow> supervisor_round list \<Rightarrow> u64 list \<times> bool" where
  "run_http3_supervisor tls_cert_path tls_cert_key_path rounds =
    (if tls_cert_path = None \<or> tls_cert_key_path = None then ([], True)
     else supervise H3_SUPERVISOR_RESTART_DELAY_MS rounds)"

subsection \<open>Binding\<close>

text \<open>The addresses that are bound, with their sockets, in the order given.\<close>

definition bound :: "bind_fn \<Rightarrow> nat \<Rightarrow> SocketAddr list \<Rightarrow> (SocketAddr \<times> nat) list" where
  "bound try_bind i addrs =
    List.map_filter (\<lambda>(k, a). case try_bind k a of Inr l \<Rightarrow> Some (a, l) | Inl _ \<Rightarrow> None) (enumerate i addrs)"

definition bind_errors :: "bind_fn \<Rightarrow> nat \<Rightarrow> SocketAddr list \<Rightarrow> io_error list" where
  "bind_errors try_bind i addrs =
    List.map_filter (\<lambda>(k, a). case try_bind k a of Inr _ \<Rightarrow> None | Inl e \<Rightarrow> Some e) (enumerate i addrs)"

lemma bound_simps [simp]:
  "bound try_bind i [] = []"
  "bound try_bind i (a # as) = (case try_bind i a of Inr l \<Rightarrow> [(a, l)] | Inl _ \<Rightarrow> []) @ bound try_bind (Suc i) as"
  by (simp_all add: bound_def map_filter_simps split: sum.split)

lemma bind_errors_simps [simp]:
  "bind_errors try_bind i [] = []"
  "bind_errors try_bind i (a # as) = (case try_bind i a of Inr _ \<Rightarrow> [] | Inl e \<Rightarrow> [e]) @ bind_errors try_bind (Suc i) as"
  by (simp_all add: bind_errors_def map_filter_simps split: sum.split)

lemma bind_each_bound: "fst (bind_each warning try_bind i addrs last_error) = bound try_bind i addrs"
  by (induction addrs arbitrary: i last_error) (auto simp: Let_def split_beta split: sum.split)

lemma bind_each_error:
  "fst (snd (bind_each warning try_bind i addrs last_error))
     = (if bind_errors try_bind i addrs = [] then last_error else Some (last (bind_errors try_bind i addrs)))"
  by (induction addrs arbitrary: i last_error) (auto simp: Let_def split_beta split: sum.split)

lemma bound_or_error: "addrs \<noteq> [] \<Longrightarrow> bound try_bind i addrs = [] \<Longrightarrow> bind_errors try_bind i addrs \<noteq> []"
  by (cases addrs) (auto split: sum.splits)

lemma bound_addresses: "set (map fst (bound try_bind i addrs)) \<subseteq> set addrs"
  by (auto simp: bound_def map_filter_def in_set_enumerate_eq split: sum.splits)

lemma bind_listeners_result:
  "fst (bind_listeners try_bind addrs) =
    (if addrs = [] then Inl (Io (io_error_new InvalidInputKind ''No listen addresses configured''))
     else if bound try_bind 0 addrs = [] then Inl (Io (last (bind_errors try_bind 0 addrs)))
     else Inr (bound try_bind 0 addrs))"
  using bind_each_bound [of "''Warning: Failed to bind ''" try_bind 0 addrs None]
    bind_each_error [of "''Warning: Failed to bind ''" try_bind 0 addrs None] bound_or_error [of addrs try_bind 0]
  by (auto simp: bind_listeners_def Let_def split_beta)

subsection \<open>The HTTP/3 listener\<close>

lemma listener_check_cases:
  "listener_check addrs env had =
    (if isl (he_validate env) then (H3AwaitCert, had)
     else if bound (he_bind env) 0 addrs = [] then
       (let err = (if bind_errors (he_bind env) 0 addrs = []
                   then io_error_new AddrNotAvailableKind ''No available HTTP/3 listen addresses''
                   else last (bind_errors (he_bind env) 0 addrs)) in
        (if had \<and> io_kind err = AddrInUseKind then H3AwaitRebind err else H3Stopped (Inl (Io err)), had))
     else (if he_listen env then H3Listening (map snd (bound (he_bind env) 0 addrs)) else H3Stopped (Inl UpstreamIssue), True))"
  using bind_each_bound [of "''Warning: Failed to bind HTTP/3 socket ''" "he_bind env" 0 addrs None]
    bind_each_error [of "''Warning: Failed to bind HTTP/3 socket ''" "he_bind env" 0 addrs None]
  by (cases "he_validate env") (auto simp: listener_check_def Let_def split_beta)

definition listener_inv :: "h3_listener \<Rightarrow> bool" where
  "listener_inv l = (case hl_phase l of
     H3Listening sockets \<Rightarrow> sockets \<noteq> [] \<and> hl_had_successful_bind l
   | H3AwaitRebind err \<Rightarrow> io_kind err = AddrInUseKind \<and> hl_had_successful_bind l
   | H3Joining \<Rightarrow> hl_had_successful_bind l \<and> \<not> hl_sender l
   | H3Closing \<Rightarrow> hl_had_successful_bind l
   | H3Stopped r \<Rightarrow> isl r
   | _ \<Rightarrow> True)"

lemma listener_check_inv: "listener_check addrs env had = (phase, had') \<Longrightarrow> listener_inv (l\<lparr>hl_phase := phase, hl_had_successful_bind := had'\<rparr>)"
  by (auto simp: listener_check_cases listener_inv_def Let_def split: if_splits)

lemma listener_proceed_inv: "listener_proceed addrs env l = Some l' \<Longrightarrow> listener_inv l \<Longrightarrow> listener_inv l'"
  by (cases "hl_phase l") (auto simp: listener_proceed_def listener_inv_def dest: listener_check_inv [unfolded listener_inv_def] split: if_splits sum.splits prod.splits)

lemma listener_accept_ended_inv: "listener_accept_ended res l = Some l' \<Longrightarrow> listener_inv l \<Longrightarrow> listener_inv l'"
  by (cases "join_result res"; cases "hl_phase l") (auto simp: listener_accept_ended_def listener_inv_def)

lemma listener_step_inv: "listener_step addrs e l = Some l' \<Longrightarrow> listener_inv l \<Longrightarrow> listener_inv l'"
  by (cases e) (auto dest: listener_proceed_inv listener_accept_ended_inv simp: listener_inv_def split: if_splits h3_phase.splits)

lemma listener_inv_start: "listener_inv listener_start"
  by (simp add: listener_inv_def listener_start_def)

interpretation listener: machine "listener_step addrs" listener_start listener_inv for addrs
  by unfold_locales (auto intro: listener_inv_start listener_step_inv)

text \<open>Other than the accept loops over TCP, the tasks go on after an error.\<close>

lemma h3_accept_survives_errors:
  "h3_accept_task (filter (\<lambda>e. e \<noteq> AcceptError) events) = h3_accept_task events"
  by (induction events rule: h3_accept_task.induct) simp_all

lemma accept_join_ok: "accept_join handles = Inr () \<longleftrightarrow> (\<forall>h\<in>set handles. h = Some (Inr ()))"
proof (induction handles)
  case (Cons h hs)
  then show ?case by (cases h) auto
qed simp

text \<open>Files that load, at least one address that can be bound, and a library that listens.\<close>

definition can_listen :: "SocketAddr list \<Rightarrow> listener_env \<Rightarrow> bool" where
  "can_listen addrs env \<longleftrightarrow> \<not> isl (he_validate env) \<and> bound (he_bind env) 0 addrs \<noteq> [] \<and> he_listen env"

lemma listener_check_listens:
  "can_listen addrs env \<Longrightarrow> listener_check addrs env had = (H3Listening (map snd (bound (he_bind env) 0 addrs)), True)"
  by (simp add: can_listen_def listener_check_cases)

text \<open>A message for a waiting listener makes it check again.\<close>

definition waiting :: "h3_phase \<Rightarrow> bool" where
  "waiting phase = (case phase of H3AwaitCert \<Rightarrow> True | H3AwaitRebind _ \<Rightarrow> True | _ \<Rightarrow> False)"

lemma waiting_listener_recovers:
  assumes "waiting (hl_phase l)" "0 < hl_reloads l" "can_listen addrs env"
  shows "\<exists>l'. run_events (listener_step addrs) [Proceed env', Proceed env] l = Some l'
    \<and> hl_phase l' = H3Listening (map snd (bound (he_bind env) 0 addrs))"
  using assms by (auto simp: listener_proceed_def waiting_def listener_check_listens split: h3_phase.splits)

lemma listening_restarts:
  assumes "hl_phase l = H3Listening sockets" "0 < hl_reloads l" "\<not> isl (he_validate env')" "can_listen addrs env"
  shows "\<exists>l'. run_events (listener_step addrs) [Proceed env', AcceptEnded (Some (Inr ())), Proceed env] l = Some l'
    \<and> hl_phase l' = H3Listening (map snd (bound (he_bind env) 0 addrs))"
  using assms by (auto simp: listener_proceed_def listener_accept_ended_def listener_check_listens split: sum.splits)

subsection \<open>The supervisor\<close>

lemma next_delay:
  assumes "unat d \<le> 30000"
  shows "unat (min (saturating_mul_u64 d 2) H3_SUPERVISOR_RESTART_DELAY_MAX_MS) = min (unat d * 2) 30000"
proof -
  have "unat (saturating_mul_u64 d 2) = unat d * 2" using assms by (simp add: unat_saturating_mul u64_max_def)
  then show ?thesis by (simp add: H3_SUPERVISOR_RESTART_DELAY_MAX_MS_def min_def word_le_nat_alt)
qed

lemma min_doubled: "min (min (x * 2) m * 2 ^ k) m = min (x * 2 ^ Suc k) (m :: nat)"
proof (cases "x * 2 \<le> m")
  case False
  then have "m \<le> m * 2 ^ k" "m * 2 ^ k \<le> x * 2 * 2 ^ k" by simp_all
  then have "min (m * 2 ^ k) m = m" "min (x * 2 ^ Suc k) m = m"
    using le_trans [of m "m * 2 ^ k" "x * 2 * 2 ^ k"] by (auto intro!: min_absorb2 simp: mult.assoc)
  moreover have "min (x * 2) m = m" using False by simp
  ultimately show ?thesis by simp
qed (simp add: mult.assoc)

text \<open>The listeners that failed in the given rounds.\<close>

definition failed_listeners :: "supervisor_round list \<Rightarrow> nat" where
  "failed_listeners rounds = length (filter (\<lambda>r. r \<noteq> NoWatcher False) rounds)"

definition goes_on :: "supervisor_round \<Rightarrow> bool" where
  "goes_on r \<longleftrightarrow> r = NoWatcher False \<or> (\<exists>e. r = ListenerReturned (Inl e) False)"

lemma supervise_delays:
  assumes "list_all goes_on rounds" "unat d \<le> 30000"
  shows "supervise d rounds = (map (\<lambda>i. if rounds ! i = NoWatcher False then 500
      else of_nat (min (unat d * 2 ^ failed_listeners (take i rounds)) 30000)) [0..<length rounds], False)"
  using assms
proof (induction rounds arbitrary: d)
  case (Cons r rs)
  have upt: "[0..<length (r # rs)] = 0 # map Suc [0..<length rs]" by (simp add: upt_conv_Cons map_Suc_upt del: upt_Suc)
  from Cons.prems(1) consider "r = NoWatcher False" | e where "r = ListenerReturned (Inl e) False" by (auto simp: goes_on_def)
  then show ?case
  proof cases
    case 1
    with Cons.IH [of d] Cons.prems show ?thesis
      unfolding upt by (simp add: failed_listeners_def H3_SUPERVISOR_RESTART_DELAY_MS_def)
  next
    case 2
    let ?d' = "min (saturating_mul_u64 d 2) H3_SUPERVISOR_RESTART_DELAY_MAX_MS"
    have d': "unat ?d' = min (unat d * 2) 30000" using Cons.prems next_delay by blast
    have "min (unat ?d' * 2 ^ k) 30000 = min (unat d * 2 ^ Suc k) 30000" for k
      using min_doubled [of "unat d" 30000 k] by (simp add: d')
    moreover have "supervise ?d' rs = (map (\<lambda>i. if rs ! i = NoWatcher False then 500
        else of_nat (min (unat ?d' * 2 ^ failed_listeners (take i rs)) 30000)) [0..<length rs], False)"
      using Cons d' by simp
    ultimately show ?thesis using 2 Cons.prems(2) unfolding upt by (simp add: failed_listeners_def)
  qed
qed simp

subsection \<open>Properties\<close>

text \<open>The addresses to listen to, as the options give them.\<close>

definition listen_addresses_of :: "cli \<Rightarrow> SocketAddr list" where
  "listen_addresses_of cl =
    (case cl_listen_address cl of
       Some values \<Rightarrow> map (\<lambda>s. the (parse_socket_addr s)) values
     | None \<Rightarrow> [SocketV4 (Octets4 127 0 0 1) 3000])"

lemma traverse_parse_address:
  "traverse (parse_address what) ss = Inr addrs \<Longrightarrow> addrs = map (\<lambda>s. the (parse_socket_addr s)) ss"
  by (induction ss arbitrary: addrs) (auto simp: parse_address_def split: option.splits)

lemma parsed_listen_addresses:
  assumes "parse_opts w_check w cl g = Inr (g', printed)"
  shows "g_listen_addresses g' = listen_addresses_of cl"
proof (cases "cl_listen_address cl")
  case None
  with parse_opts_Inr [OF assms] default_addresses(1) show ?thesis
    by (simp add: listen_addresses_of_def parse_address_def split: option.splits)
next
  case (Some ss)
  with parse_opts_Inr [OF assms] show ?thesis
    by (auto simp: listen_addresses_of_def dest!: traverse_parse_address)
qed

lemma entrypoint_starts: "(\<exists>service. fst (entrypoint try_bind g) = Inr service) \<longleftrightarrow> bound try_bind 0 (g_listen_addresses g) \<noteq> []"
  using bind_listeners_result [of try_bind "g_listen_addresses g"]
  by (auto simp: entrypoint_def Let_def split: prod.split sum.split if_splits)

text \<open>
  C38 (equivalence): the program starts exactly when its runtime and its first key can be made, the
  option parser accepts the options, every upstream given is accepted again when it is read (a host name in it
  is looked up a second time, and the lookup may answer differently), every number given fits its type, and
  one of the addresses to listen to can be bound. Nothing else that was checked is refused when it is read. A key
  that cannot be made is the only panic.
\<close>

theorem server_starts_iff:
  assumes "hosts_agree w"
  shows "((\<exists>r. main runtime_error crate new_pair w_check w cl try_bind = Ok r) \<longleftrightarrow>
      runtime_error = None \<and> \<not> isl (oc_serialize_configs crate new_pair)
      \<and> get_matches w_check cl = Inr cl \<and> all_values (verify_upstream w) (cl_upstream cl) \<and> numbers_readable cl
      \<and> bound try_bind 0 (listen_addresses_of cl) \<noteq> [])
    \<and> (main runtime_error crate new_pair w_check w cl try_bind = Panic \<longleftrightarrow>
      runtime_error = None \<and> isl (oc_serialize_configs crate new_pair))"
proof (cases "runtime_error = None \<and> \<not> isl (oc_serialize_configs crate new_pair)")
  case False
  then show ?thesis
    by (auto simp: main_def odoh_rotator_new_def odoh_key_new_def split: option.split sum.split)
next
  case True
  obtain g where g: "initial_settings = Some g" by (simp add: initial_settings_def default_addresses)
  obtain key where "odoh_rotator_new crate new_pair = Ok key"
    using True by (cases "oc_serialize_configs crate new_pair") (simp_all add: odoh_rotator_new_def odoh_key_new_def)
  then have m: "main runtime_error crate new_pair w_check w cl try_bind =
      (case parse_opts w_check w cl g of
         Inl e \<Rightarrow> Err e
       | Inr (globals, printed) \<Rightarrow>
           (case entrypoint try_bind globals of
              (Inl e, _) \<Rightarrow> Err (Exit (''Failed to start DoH server: '' @ show_error e))
            | (Inr service, out) \<Rightarrow> Ok (service, printed @ out)))"
    using True by (simp add: main_def g del: rbind_eq_Ok)
  show ?thesis
  proof (cases "parse_opts w_check w cl g")
    case (Inl e)
    with True isl_parse_opts [OF assms, of w_check cl g] show ?thesis unfolding m by auto
  next
    case (Inr r)
    obtain g' printed where r: "r = (g', printed)" by fastforce
    with Inr True parsed_listen_addresses [of w_check w cl g g' printed] entrypoint_starts [of try_bind g']
      isl_parse_opts [OF assms, of w_check cl g] show ?thesis
      unfolding m by (auto split: prod.split sum.splits)
  qed
qed

theorem server_starts_iff_witness:
  "\<exists>r. main None sample_odoh 7 (sample_world (Domain ''a'')) (sample_world (Domain ''a'')) sample_options (\<lambda>i _. Inr i) = Ok r"
proof -
  have "all_values (verify_upstream (sample_world (Domain ''a''))) (cl_upstream sample_options)"
    by (rule get_matches_checks(4) [OF sample_options_matched])
  then show ?thesis
    using server_starts_iff [OF sample_hosts_agree, where runtime_error = None and crate = sample_odoh and new_pair = 7
        and w_check = "sample_world (Domain ''a'')" and cl = sample_options and try_bind = "\<lambda>i _. Inr i" and h1 = "Domain ''a''"] sample_options_matched [of "Domain ''a''"] sample_numbers_readable
    by (simp add: listen_addresses_of_def sample_options_def no_options_def sample_odoh_def)
qed

text \<open>
  C34 (safety): the program serves HTTPS exactly when a certificate is given on the command line, on
  the addresses that can be bound, and HTTP/3 on the same addresses; a key without a certificate
  makes no difference. It fails when no address can be bound.
\<close>

theorem tls_needs_certificate_option:
  assumes "parse_opts w_check w cl g = Inr (g', printed)"
  shows "let bs = bound try_bind 0 (g_listen_addresses g');
      config = \<lparr>sc_keepalive = g_keepalive g', sc_max_concurrent_streams = g_max_concurrent_streams g'\<rparr>
    in (bs = [] \<longrightarrow> isl (fst (entrypoint try_bind g')))
      \<and> (bs \<noteq> [] \<longrightarrow> fst (entrypoint try_bind g') =
          Inr (if cl_tls_cert_path cl \<noteq> None then TlsService (map snd bs) config (map fst bs)
               else PlainService (map snd bs) config))"
proof -
  have tls: "g_tls_cert_path g' \<noteq> None \<and> g_tls_cert_key_path g' \<noteq> None \<longleftrightarrow> cl_tls_cert_path cl \<noteq> None"
    using parse_opts_Inr [OF assms] by (auto split: option.splits)
  then show ?thesis
    using bind_listeners_result [of try_bind "g_listen_addresses g'"]
    by (auto simp: entrypoint_def Let_def split: prod.split sum.split if_splits)
qed

lemma parse_opts_starts:
  assumes "hosts_agree w" "get_matches w cl = Inr cl" "numbers_readable cl"
  obtains g' printed where "parse_opts w w cl g = Inr (g', printed)"
  using isl_parse_opts [OF assms(1), of w cl g] get_matches_checks(4) [OF assms(2)] assms(2,3) that
  by (cases "parse_opts w w cl g") auto

definition sample_tls_options :: cli where
  "sample_tls_options = sample_options\<lparr>cl_tls_cert_path := Some ''c''\<rparr>"

theorem tls_needs_certificate_option_witness:
  "\<exists>g' printed. parse_opts (sample_world (Domain ''a'')) (sample_world (Domain ''a'')) sample_tls_options (the initial_settings)
      = Inr (g', printed) \<and> (\<forall>try_bind ls c. fst (entrypoint try_bind g') \<noteq> Inr (PlainService ls c))"
proof -
  have "get_matches (sample_world (Domain ''a'')) sample_tls_options = Inr sample_tls_options"
    using sample_options_matched [of "Domain ''a''"] by (simp add: get_matches_def sample_tls_options_def split: if_splits)
  moreover have "numbers_readable sample_tls_options"
    using sample_numbers_readable by (simp add: numbers_readable_def sample_tls_options_def)
  ultimately obtain g' printed where r: "parse_opts (sample_world (Domain ''a'')) (sample_world (Domain ''a''))
      sample_tls_options (the initial_settings) = Inr (g', printed)"
    using parse_opts_starts [OF sample_hosts_agree] by blast
  moreover have "fst (entrypoint try_bind g') \<noteq> Inr (PlainService ls c)" for try_bind ls c
    using tls_needs_certificate_option [OF r, of try_bind] by (auto simp: Let_def sample_tls_options_def)
  ultimately show ?thesis by blast
qed

text \<open>
  C36 (liveness): new certificates reach the HTTP/3 listener. The watcher observes the directories of
  both files; an event that names one of them, however its path is written, makes the handler send a
  message when the files have changed since the last one; and the message is not lost: a listener
  that waits for better files, or for an address in use, or that is listening with the old files,
  goes on to listen on every address that can be bound, once the files load.
\<close>

theorem new_certificates_reach_listener:
  assumes "spawn_cert_watcher w certs_path keys_path = Some (Watching dirs c k st0)"
    and "event_concerns events c \<or> event_concerns events k" "files_changed fs c k st"
    and "hl_sender l" "can_listen addrs env" "\<not> isl (he_validate env')"
  shows "(\<forall>dir \<in> {watch_dir c, watch_dir k}. dir \<in> set dirs \<and> we_watch w dir = None)
    \<and> watcher_handler fs c k (Inr events) st = (watcher_start fs c k, True)
    \<and> (waiting (hl_phase l) \<longrightarrow> (\<exists>l'. run_events (listener_step addrs) [ReloadSent, Proceed env', Proceed env] l = Some l'
        \<and> hl_phase l' = H3Listening (map snd (bound (he_bind env) 0 addrs))))
    \<and> (\<forall>sockets. hl_phase l = H3Listening sockets \<longrightarrow>
        (\<exists>l'. run_events (listener_step addrs) [ReloadSent, Proceed env', AcceptEnded (Some (Inr ())), Proceed env] l = Some l'
          \<and> hl_phase l' = H3Listening (map snd (bound (he_bind env) 0 addrs))))"
proof -
  let ?l = "l\<lparr>hl_reloads := hl_reloads l + 1\<rparr>"
  have sent: "run_events (listener_step addrs) (ReloadSent # evs) l = run_events (listener_step addrs) evs ?l" for evs
    using assms(4) by simp
  have "snd (watcher_handler fs c k (Inr events) st)" using assms(2,3) by (simp add: watcher_handler_sends)
  then obtain st' where h: "watcher_handler fs c k (Inr events) st = (st', True)" by (metis prod.collapse)
  have "\<forall>dir \<in> {watch_dir c, watch_dir k}. dir \<in> set dirs \<and> we_watch w dir = None"
    using cert_watcher_Watching(3,5) [OF assms(1)] watch_dirs_cover [of c k] by simp
  moreover note h watcher_handler_current(1) [OF h] waiting_listener_recovers [of ?l addrs env env']
    listening_restarts [of ?l _ env' addrs env] assms(5,6)
  ultimately show ?thesis unfolding sent by simp
qed

definition sample_listener_env :: "bool \<Rightarrow> listener_env" where
  "sample_listener_env free = \<lparr>he_validate = create_tls_acceptor sample_tls_lib ''c'' ''k'',
     he_bind = (\<lambda>i a. if free then Inr i else Inl (io_error_new AddrInUseKind ''in use'')), he_listen = True\<rparr>"

definition sample_listen_address :: SocketAddr where "sample_listen_address = SocketV4 (Octets4 127 0 0 1) 3000"

definition sample_watcher :: watcher_env where
  "sample_watcher = \<lparr>we_spawn = None, we_current_dir = Some ''/a'', we_files = (\<lambda>_. None), we_debouncer = None,
     we_watch = (\<lambda>_. None)\<rparr>"

theorem new_certificates_reach_listener_witness:
  "\<exists>l'. run_events (listener_step [sample_listen_address]) [ReloadSent, Proceed (sample_listener_env True), Proceed (sample_listener_env True)]
      (listener_start\<lparr>hl_phase := H3AwaitCert\<rparr>) = Some l' \<and> hl_phase l' = H3Listening [0]"
proof -
  let ?fs = "\<lambda>_ :: string. Some (Some 1 :: int option, 1 :: u64)"
  have s: "spawn_cert_watcher sample_watcher ''c'' ''k''
      = Some (Watching (watch_dirs ''/a/c'' ''/a/k'') ''/a/c'' ''/a/k'' (watcher_start (\<lambda>_. None) ''/a/c'' ''/a/k''))"
    by (simp add: spawn_cert_watcher_def cert_watcher_def sample_watcher_def absolutize_path_def starts_with_def list_ex_iff Let_def)
  have "event_concerns [[''/a//c'']] ''/a/c''"
    by (simp add: event_concerns_def path_components_def path_part_def starts_with_def)
  moreover have "files_changed ?fs ''/a/c'' ''/a/k'' (watcher_start (\<lambda>_. None) ''/a/c'' ''/a/k'')"
    by (simp add: files_changed_def watcher_start_def tls_file_state_def)
  moreover have "can_listen [sample_listen_address] (sample_listener_env True)" "\<not> isl (he_validate (sample_listener_env True))"
    using sample_tls_lib_loads by (simp_all add: can_listen_def sample_listener_env_def)
  ultimately have "waiting (hl_phase (listener_start\<lparr>hl_phase := H3AwaitCert\<rparr>)) \<longrightarrow>
      (\<exists>l'. run_events (listener_step [sample_listen_address]) [ReloadSent, Proceed (sample_listener_env True), Proceed (sample_listener_env True)]
        (listener_start\<lparr>hl_phase := H3AwaitCert\<rparr>) = Some l'
        \<and> hl_phase l' = H3Listening (map snd (bound (he_bind (sample_listener_env True)) 0 [sample_listen_address])))"
    using new_certificates_reach_listener [OF s, of "[[''/a//c'']]" ?fs "watcher_start (\<lambda>_. None) ''/a/c'' ''/a/k''"
        "listener_start\<lparr>hl_phase := H3AwaitCert\<rparr>" "[sample_listen_address]" "sample_listener_env True" "sample_listener_env True"]
    by (simp add: listener_start_def)
  then show ?thesis by (simp add: waiting_def sample_listener_env_def)
qed

text \<open>
  C37 (bounds): the supervisor of the HTTP/3 listener does not end by itself: every run of the listener
  returns an error. After the n-th failed run, counted from zero, it waits \<open>500 * 2 ^ n\<close> milliseconds, at most
  thirty seconds, however long the run was and whatever rounds without a watcher lie between: such a
  round waits 500 milliseconds and leaves the next wait after a failed run as it was. The wait after failed runs
  never falls: only a run without error could end the series, and that would end the loop.
\<close>

theorem restart_delays_double:
  assumes "list_all (\<lambda>r. r = NoWatcher False \<or>
    (\<exists>result l. r = ListenerReturned result False \<and> reachable (listener_step addrs) listener_start l
       \<and> hl_phase l = H3Stopped result)) rounds"
  shows "run_http3_supervisor (Some certs_path) (Some keys_path) rounds
    = (map (\<lambda>i. if rounds ! i = NoWatcher False then 500
         else of_nat (min (500 * 2 ^ failed_listeners (take i rounds)) 30000)) [0..<length rounds], False)"
proof -
  have "isl result" if "reachable (listener_step addrs) listener_start l" "hl_phase l = H3Stopped result" for result l
    using listener.inv_reachable [OF that(1)] that(2) by (simp add: listener_inv_def)
  then have "list_all goes_on rounds"
    using assms by (auto simp: list_all_iff goes_on_def isl_def)
  then show ?thesis
    using supervise_delays [of rounds H3_SUPERVISOR_RESTART_DELAY_MS]
    by (simp add: run_http3_supervisor_def H3_SUPERVISOR_RESTART_DELAY_MS_def)
qed

theorem restart_delays_double_witness:
  "run_http3_supervisor (Some ''c'') (Some ''k'')
     [ListenerReturned (Inl (Io (io_error_new AddrInUseKind ''in use''))) False,
      ListenerReturned (Inl (Io (io_error_new AddrInUseKind ''in use''))) False, NoWatcher False,
      ListenerReturned (Inl (Io (io_error_new AddrInUseKind ''in use''))) False]
    = ([500, 1000, 500, 2000], False)"
proof -
  let ?e = "Inl (Io (io_error_new AddrInUseKind ''in use''))"
  let ?stopped = "listener_start\<lparr>hl_phase := H3Stopped ?e\<rparr>"
  have "listener_step [sample_listen_address] (Proceed (sample_listener_env False)) listener_start = Some ?stopped"
    using sample_tls_lib_loads
    by (simp add: listener_proceed_def listener_start_def listener_check_cases sample_listener_env_def Let_def)
  then have "reachable (listener_step [sample_listen_address]) listener_start ?stopped"
    using reachable_start by (rule reachable_step [rotated])
  moreover have "hl_phase ?stopped = H3Stopped ?e" by simp
  ultimately have "list_all (\<lambda>r. r = NoWatcher False \<or> (\<exists>result l. r = ListenerReturned result False
      \<and> reachable (listener_step [sample_listen_address]) listener_start l \<and> hl_phase l = H3Stopped result))
      [ListenerReturned ?e False, ListenerReturned ?e False, NoWatcher False, ListenerReturned ?e False]"
    by (auto simp: listener_start_def simp del: h3_listener.update_convs)
  from restart_delays_double [OF this] show ?thesis by (simp add: failed_listeners_def upt_rec)
qed

end
