(* ===== verification/Upstream_Clients.thy ===== *)
theory Upstream_Clients
  imports Config Http_Front
begin

text \<open>
  The clients of the upstreams put together: \<open>exchange_single\<close> (\<open>src/libdoh/src/upstream/mod.rs\<close>) over
  the UDP and TCP client of \<open>Proxy\<close>, the HTTPS client of \<open>Doh_Protocol\<close> and the TLS client of
  \<open>Bootstrap\<close>, under the settings of \<open>Config\<close>. Everything an attempt meets on the network is in one
  record, given for every attempt and upstream.

  The lemmas say which networks deliver a reply, by datagram, by stream after a truncated datagram,
  over TLS and over HTTP/2.
\<close>

subsection \<open>One attempt\<close>

record attempt_net =
  an_time :: duration
  an_dns :: dns_net
  an_dns_time :: duration
  an_bootstrap :: bootstrap_net
  an_finished :: "SocketAddr list"
  an_cache :: bootstrap_cache
  an_dot :: dot_net
  an_dot_time :: duration
  an_doh :: doh_env
  an_doh_run :: doh_run

text \<open>The HTTPS client returns its result as a sum.\<close>

definition sum_res :: "'e + 'a \<Rightarrow> ('e, 'a) res" where
  "sum_res r = (case r of Inl e \<Rightarrow> Err e | Inr a \<Rightarrow> Ok a)"

definition bootstrap_of :: "'u Settings \<Rightarrow> bootstrap_settings" where
  "bootstrap_of g = \<lparr>bs_local_bind_address = g_local_bind_address g, bs_bootstrap_dns = g_bootstrap_dns g,
     bs_timeout = g_timeout g\<rparr>"

text \<open>
  The HTTPS client takes the settings of the server, the description of the upstream from the
  configuration, and what earlier requests have left in it from the network's record.
\<close>

definition doh_env_of :: "'u Settings \<Rightarrow> attempt_net \<Rightarrow> doh_env" where
  "doh_env_of g net = (an_doh net)\<lparr>de_local := g_local_bind_address g, de_bootstrap_dns := g_bootstrap_dns g,
     de_timeout := g_timeout g\<rparr>"

definition doh_run_of :: "attempt_net \<Rightarrow> DohUpstream \<Rightarrow> doh_run" where
  "doh_run_of net u = (an_doh_run net)\<lparr>r_up := (r_up (an_doh_run net))\<lparr>du_url := du_url u, du_host := du_host u,
     du_port := du_port u, du_path := du_path u, du_authority := du_authority u, du_h3_only := du_h3_only u\<rparr>\<rparr>"

definition upstream_exchange ::
  "'u Settings \<Rightarrow> attempt_net \<Rightarrow> DohUpstream Upstream \<Rightarrow> packet \<Rightarrow> (DoHError, packet) res" where
  "upstream_exchange g net upstream query =
    exchange_single (g_timeout g)
      (\<lambda>server_address query. (proxy_dns_udp_tcp (g_max_clients g) (g_local_bind_address g) (an_dns net) query server_address,
        an_dns_time net))
      (\<lambda>doh_upstream query. sum_res (fst (run_state (proxy_doh (doh_env_of g net) query) (doh_run_of net doh_upstream))))
      (\<lambda>dot_upstream query. (fst (proxy_dot (bootstrap_of g) (an_bootstrap net) (an_dot net) (an_finished net) query
          dot_upstream (an_cache net)), an_dot_time net))
      query upstream"

text \<open>
  The environment of the strategies on a network; what else it holds is kept. The strategies take an
  attempt that returns: \<open>settled\<close> reads its result, for the clients do not panic, as
  \<open>upstream_exchange_not_Panic\<close> below shows.
\<close>

fun settled :: "(DoHError, 'a) res \<Rightarrow> DoHError + 'a" where
  "settled (Ok a) = Inr a"
| "settled (Err e) = Inl e"
| "settled Panic = Inl UpstreamIssue"

definition on_network ::
  "'u Settings \<Rightarrow> (nat \<Rightarrow> DohUpstream Upstream \<Rightarrow> attempt_net)
    \<Rightarrow> (DohUpstream Upstream, 'f, 'z) fastest_env_scheme \<Rightarrow> (DohUpstream Upstream, 'f, 'z) fastest_env_scheme" where
  "on_network g nets env =
    env\<lparr>ex_single := (\<lambda>n u query. (settled (upstream_exchange g (nets n u) u query), an_time (nets n u))),
        ex_address := upstream_address du_url\<rparr>"

subsection \<open>The clients do not panic\<close>

lemma io_result_simps [simp]:
  "io_result r \<noteq> Panic" "io_result r = Ok a \<longleftrightarrow> r = Inr a"
  by (simp_all add: io_result_def split: sum.split)

lemma framed_exchange_not_Panic: "framed_exchange s query \<noteq> Panic"
  by (auto simp: framed_exchange_def write_all_def flush_def read_exact_def Let_def rbind_eq_Panic)

lemma is_truncated_Ok: "12 \<le> length p \<Longrightarrow> \<exists>b. is_truncated p = Ok b"
  by (simp add: is_truncated_def DNS_OFFSET_FLAGS_def)

lemma proxy_dns_not_Panic: "proxy_dns_udp_tcp max_clients local net query addr \<noteq> Panic"
proof
  assume "proxy_dns_udp_tcp max_clients local net query addr = Panic"
  then have "\<exists>p. 17 \<le> length p \<and> is_truncated (take MAX_DNS_RESPONSE_LEN p) = Panic"
    using framed_exchange_not_Panic
    by (auto simp: proxy_dns_udp_tcp_def Let_def rbind_eq_Panic MIN_DNS_PACKET_LEN_def not_less split: if_splits)
  then obtain p where "17 \<le> length p" "is_truncated (take MAX_DNS_RESPONSE_LEN p) = Panic" by blast
  with is_truncated_Ok [of "take MAX_DNS_RESPONSE_LEN p"] show False by (simp add: MAX_DNS_RESPONSE_LEN_def)
qed

lemma dot_loop_not_Panic: "dot_loop net local query addrs last_err \<noteq> Panic"
  by (induction addrs arbitrary: last_err)
    (auto simp: dns_exchange_over_stream_def framed_exchange_not_Panic split: sum.splits option.splits)

lemma bootstrap_race_not_Panic: "fst (bootstrap_race bs net host finished last_err cache) \<noteq> Panic"
proof (induction finished arbitrary: last_err cache)
  case (Cons resolver pending)
  with resolve_with_not_Panic [of bs net host resolver cache] show ?case by (auto split: prod.split res.split)
qed simp

lemma resolve_upstream_addrs_not_Panic: "fst (resolve_upstream_addrs bs net finished host port cache) \<noteq> Panic"
  using bootstrap_race_not_Panic [of bs net host finished None cache]
  by (auto simp: resolve_upstream_addrs_def resolve_upstream_ips_with_bootstrap_def split: option.split prod.split res.split)

lemma proxy_dot_not_Panic: "fst (proxy_dot bs net dot finished query u cache) \<noteq> Panic"
  using resolve_upstream_addrs_not_Panic [of bs net finished "dot_host u" "dot_port u" cache]
  by (auto simp: proxy_dot_def dot_loop_not_Panic split: sum.split prod.split res.split)

lemma upstream_exchange_not_Panic: "upstream_exchange g net u query \<noteq> Panic"
  using proxy_dns_not_Panic proxy_dot_not_Panic
  by (auto simp: upstream_exchange_def exchange_single_def run_with_timeout_def sum_res_def split: Upstream.split sum.split)

lemma settled_eq_Inr: "settled r = Inr p \<longleftrightarrow> r = Ok p"
  by (cases r) simp_all

subsection \<open>Networks that deliver\<close>

text \<open>A stream that takes the query and, once it has it, holds the length and the octets of the reply.\<close>

definition stream_delivers :: "stream \<Rightarrow> packet \<Rightarrow> packet \<Rightarrow> bool" where
  "stream_delivers s query reply \<longleftrightarrow> st_write s 0 = Inr () \<and> st_write s 1 = Inr () \<and> st_write s 2 = Inr ()
     \<and> 17 \<le> length reply \<and> length reply \<le> 4096
     \<and> (\<exists>rest. st_reply s (framed query) = u16_be (of_nat (length reply)) @ reply @ rest)"

lemma stream_delivers_reply:
  assumes "stream_delivers s query reply"
  shows "framed_exchange s query = Ok reply"
proof -
  obtain rest where r: "st_reply s (framed query) = u16_be (of_nat (length reply)) @ reply @ rest"
    using assms by (auto simp: stream_delivers_def)
  have "get_u16 (u16_be (of_nat (length reply))) 0 = of_nat (length reply)"
    using get_u16_append [of "[]" 0 "of_nat (length reply)" "[]"] by simp
  moreover have "unat (of_nat (length reply) :: u16) = length reply"
    using assms by (simp add: stream_delivers_def unat_of_nat take_bit_nat_eq_self)
  ultimately show ?thesis
    using assms r by (simp add: stream_delivers_def framed_exchange_def opened_def stream.defs write_all_def flush_def
        io_result_def read_exact_def framed_def Let_def numeral_2_eq_2 MIN_DNS_PACKET_LEN_def MAX_DNS_RESPONSE_LEN_def)
qed

text \<open>A datagram with the reply to the query, from the server that was asked.\<close>

definition udp_delivers :: "SocketAddr \<Rightarrow> dns_net \<Rightarrow> SocketAddr \<Rightarrow> packet \<Rightarrow> packet \<Rightarrow> bool" where
  "udp_delivers local net addr query reply \<longleftrightarrow> dn_bind net local = Inr () \<and> dn_send net local addr query = Inr ()
     \<and> dn_recv net addr query = Inr (reply, addr)
     \<and> 17 \<le> length reply \<and> length reply \<le> 4096 \<and> is_truncated reply = Ok False"

text \<open>A truncated datagram, and the reply over a TCP connection that the limit on clients allows.\<close>

definition tcp_delivers :: "nat \<Rightarrow> SocketAddr \<Rightarrow> dns_net \<Rightarrow> SocketAddr \<Rightarrow> packet \<Rightarrow> packet \<Rightarrow> bool" where
  "tcp_delivers max_clients local net addr query reply \<longleftrightarrow> dn_bind net local = Inr () \<and> dn_send net local addr query = Inr ()
     \<and> (\<exists>p. dn_recv net addr query = Inr (p, addr) \<and> 17 \<le> length p \<and> length p \<le> 4096 \<and> is_truncated p = Ok True)
     \<and> (8 \<le> max_clients \<longrightarrow> dn_clients net < max_clients div 8)
     \<and> connect_tcp_with_local_bind (dn_connect net) local addr = Inr () \<and> dn_nodelay net = Inr ()
     \<and> stream_delivers (dn_stream net) query reply"

lemma proxy_dns_delivers:
  assumes "udp_delivers local net addr query reply \<or> tcp_delivers max_clients local net addr query reply"
  shows "proxy_dns_udp_tcp max_clients local net query addr = Ok reply"
  using assms
proof
  assume "udp_delivers local net addr query reply"
  then show ?thesis
    by (simp add: udp_delivers_def proxy_dns_udp_tcp_def io_result_def MIN_DNS_PACKET_LEN_def MAX_DNS_RESPONSE_LEN_def)
next
  assume t: "tcp_delivers max_clients local net addr query reply"
  then have "framed_exchange (dn_stream net) query = Ok reply"
    by (intro stream_delivers_reply) (simp add: tcp_delivers_def)
  with t show ?thesis
    by (auto simp: tcp_delivers_def proxy_dns_udp_tcp_def io_result_def MIN_DNS_PACKET_LEN_def MAX_DNS_RESPONSE_LEN_def
        UDP_TCP_RATIO_def simp del: rbind_eq_Ok)
qed

text \<open>
  A TLS server: its name is accepted and resolved, and of the addresses one takes connections, those
  before it being tried in vain.
\<close>

definition dot_fails :: "dot_net \<Rightarrow> SocketAddr \<Rightarrow> SocketAddr \<Rightarrow> bool" where
  "dot_fails net local addr \<longleftrightarrow>
    isl (connect_tcp_with_local_bind (dt_connect net) local addr) \<or> isl (dt_nodelay net addr) \<or> dt_tls net addr = None"

definition dot_delivers :: "bootstrap_settings \<Rightarrow> attempt_net \<Rightarrow> DotUpstream \<Rightarrow> packet \<Rightarrow> packet \<Rightarrow> bool" where
  "dot_delivers bs net u query reply \<longleftrightarrow> dt_server_name_ok (an_dot net) (dot_host u) \<and> \<not> isl (dt_config (an_dot net))
     \<and> (\<exists>tried addr rest. fst (resolve_upstream_addrs bs (an_bootstrap net) (an_finished net) (dot_host u) (dot_port u) (an_cache net))
            = Ok (tried @ addr # rest)
          \<and> list_all (dot_fails (an_dot net) (bs_local_bind_address bs)) tried
          \<and> connect_tcp_with_local_bind (dt_connect (an_dot net)) (bs_local_bind_address bs) addr = Inr () \<and> dt_nodelay (an_dot net) addr = Inr ()
          \<and> (\<exists>s. dt_tls (an_dot net) addr = Some s \<and> stream_delivers s query reply))"

lemma dot_loop_delivers:
  assumes "list_all (dot_fails net local) tried" "connect_tcp_with_local_bind (dt_connect net) local addr = Inr ()"
    "dt_nodelay net addr = Inr ()" "dt_tls net addr = Some s" "stream_delivers s query reply" "length query \<le> 65535"
  shows "dot_loop net local query (tried @ addr # rest) last_err = Ok reply"
  using assms(1)
proof (induction tried arbitrary: last_err)
  case Nil
  show ?case using assms(2-6) stream_delivers_reply [OF assms(5)] by (simp add: dns_exchange_over_stream_def)
next
  case (Cons a tried)
  then show ?case by (auto simp: dot_fails_def isl_def split: sum.splits option.splits)
qed

lemma proxy_dot_delivers:
  assumes "dot_delivers bs net u query reply" "length query \<le> 65535"
  shows "fst (proxy_dot bs (an_bootstrap net) (an_dot net) (an_finished net) query u (an_cache net)) = Ok reply"
proof -
  obtain tried addr rest s where d: "list_all (dot_fails (an_dot net) (bs_local_bind_address bs)) tried"
    "connect_tcp_with_local_bind (dt_connect (an_dot net)) (bs_local_bind_address bs) addr = Inr ()" "dt_nodelay (an_dot net) addr = Inr ()"
    "dt_tls (an_dot net) addr = Some s" "stream_delivers s query reply"
    and r: "fst (resolve_upstream_addrs bs (an_bootstrap net) (an_finished net) (dot_host u) (dot_port u) (an_cache net))
      = Ok (tried @ addr # rest)"
    using assms(1) by (auto simp: dot_delivers_def)
  have ok: "dt_server_name_ok (an_dot net) (dot_host u)" "dt_config (an_dot net) = Inr ()"
    using assms(1) by (auto simp: dot_delivers_def, cases "dt_config (an_dot net)", auto)
  from dot_loop_delivers [OF d assms(2)] r ok show ?thesis
    by (auto simp: proxy_dot_def split: prod.split)
qed

text \<open>An HTTPS server that can be reached over HTTP/2, in time.\<close>

definition doh_delivers :: "'u Settings \<Rightarrow> attempt_net \<Rightarrow> DohUpstream \<Rightarrow> packet \<Rightarrow> bool" where
  "doh_delivers g net u query \<longleftrightarrow> h2_available (doh_env_of g net) (r_up (doh_run_of net u)) query \<and> \<not> du_h3_only u
     \<and> (g_timeout g = 0 \<or> de_cancelled (an_doh net) (doh_run_of net u) = None)"

lemma proxy_doh_delivers:
  assumes "doh_delivers g net u query"
  shows "\<exists>p. fst (run_state (proxy_doh (doh_env_of g net) query) (doh_run_of net u)) = Inr p"
proof -
  have "\<not> du_h3_only (r_up (doh_run_of net u))" using assms by (simp add: doh_delivers_def doh_run_of_def)
  then obtain p s where "run_state (proxy_doh_attempt (doh_env_of g net) query) (doh_run_of net u) = (Inr p, s)"
    using assms proxy_doh_available [of "doh_env_of g net" "doh_run_of net u" query] by (auto simp: doh_delivers_def)
  moreover have "de_timeout (doh_env_of g net) = g_timeout g" "de_cancelled (doh_env_of g net) = de_cancelled (an_doh net)"
    by (simp_all add: doh_env_of_def)
  ultimately show ?thesis using assms by (auto simp: proxy_doh_def doh_delivers_def)
qed

definition in_time :: "duration \<Rightarrow> duration \<Rightarrow> bool" where
  "in_time timeout d \<longleftrightarrow> timeout = 0 \<or> d \<le> timeout"

text \<open>The network delivers a reply of the upstream.\<close>

fun delivers :: "'u Settings \<Rightarrow> attempt_net \<Rightarrow> packet \<Rightarrow> DohUpstream Upstream \<Rightarrow> bool" where
  "delivers g net query (Dns addr) \<longleftrightarrow> in_time (g_timeout g) (an_dns_time net)
     \<and> (\<exists>reply. udp_delivers (g_local_bind_address g) (an_dns net) addr query reply
          \<or> tcp_delivers (g_max_clients g) (g_local_bind_address g) (an_dns net) addr query reply)"
| "delivers g net query (Dot u) \<longleftrightarrow> in_time (g_timeout g) (an_dot_time net) \<and> length query \<le> 65535
     \<and> (\<exists>reply. dot_delivers (bootstrap_of g) net u query reply)"
| "delivers g net query (Doh u) \<longleftrightarrow> doh_delivers g net u query"

lemma run_in_time: "in_time timeout d \<Longrightarrow> run_with_timeout timeout (r, d) = r"
  by (auto simp: in_time_def run_with_timeout_def)

lemma delivers_reply:
  assumes "delivers g net query u"
  shows "\<exists>reply. upstream_exchange g net u query = Ok reply"
proof (cases u)
  case (Dns addr)
  with assms proxy_dns_delivers [of "g_local_bind_address g" "an_dns net" addr query _ "g_max_clients g"] show ?thesis
    by (fastforce simp: upstream_exchange_def exchange_single_def run_in_time)
next
  case (Doh d)
  with assms proxy_doh_delivers [of g net d query] show ?thesis by (auto simp: upstream_exchange_def exchange_single_def sum_res_def)
next
  case (Dot d)
  with assms proxy_dot_delivers [of "bootstrap_of g" net d query] show ?thesis
    by (fastforce simp: upstream_exchange_def exchange_single_def run_in_time)
qed

lemma on_network_answers:
  assumes "\<And>n. delivers g (nets n u) query u"
    "\<And>n reply. upstream_exchange g (nets n u) u query = Ok reply \<Longrightarrow> validate_packet reply"
  shows "answers (on_network g nets env) query u"
  using delivers_reply [OF assms(1)] assms(2) by (simp add: answers_def on_network_def settled_eq_Inr) blast

subsection \<open>Strategies that keep the reply\<close>

text \<open>Load balancing and parallel exchange return a reply as it was sent.\<close>

interpretation unchanged: exchange_strategy "exchange_outcome mode"
  "\<lambda>env. mode \<noteq> FastestAddr \<and> exchange_ready mode env" "\<lambda>reply p. p = reply" for mode
proof unfold_locales
  fix env :: "('u, 'f, 'z) fastest_env_scheme" and query and upstreams :: "'u list" and out p e u
  assume ready: "mode \<noteq> FastestAddr \<and> exchange_ready mode env"
  then show "\<exists>out. exchange_outcome mode env query upstreams = Ok out" by (simp add: dispatch.exch_returns)
  assume o: "exchange_outcome mode env query upstreams = Ok out"
  show "\<exists>u \<in> set upstreams. \<exists>reply. sent_by env query u reply \<and> validate_packet reply \<and> p = reply"
    if "o_packet out = Inr p"
  proof (cases "upstreams = []")
    case False
    with ready o that exchange_outcome_cases [OF False, of mode env query] show ?thesis
      using load_balance.exch_sound [of env query upstreams out p] parallel.exch_sound [of env query upstreams out p]
      by (cases mode) (auto simp: exchange_ready_def)
  qed (use o that in \<open>auto simp: exchange_outcome_empty\<close>)
  show "\<not> answers env query u" if "o_packet out = Inl e" "u \<in> set upstreams"
    using ready o that dispatch.exch_complete [of mode env query upstreams out e u] by simp
qed

text \<open>A reply that the server can date: one question, at least one record, at most 4096 octets.\<close>

definition proper_reply :: "packet \<Rightarrow> bool" where
  "proper_reply p \<longleftrightarrow> length p \<le> 4096 \<and> (\<exists>m. msg_unpack p = Ok m \<and> length (m_questions m) = 1 \<and> msg_rrs m \<noteq> [])"

lemma proper_reply_response:
  assumes "proper_reply p"
  shows "\<exists>r. proxy_response g p stats = Ok r"
proof -
  obtain m where m: "length p \<le> 4096" "msg_unpack p = Ok m" "length (m_questions m) = 1" "msg_rrs m \<noteq> []"
    using assms by (auto simp: proper_reply_def)
  then have "12 \<le> length p" by (auto elim: msg_unpack_OkE)
  from proxy_response_cases(2) [OF this] min_ttl_unpacked [OF m(2,1,3)] m(4) show ?thesis by metis
qed

text \<open>The query as it is sent when no client subnet is added.\<close>

definition sent_query :: "packet \<Rightarrow> packet" where
  "sent_query query = fst (set_edns_max_payload_size query 4096)"

lemma proxy_request_without_subnet:
  assumes "17 \<le> length query" "\<not> g_enable_ecs g"
  shows "proxy_request g query client_ip = Ok (sent_query query)"
  using assms set_edns_not_Panic [of query 4096]
  by (auto simp: sent_query_def proxy_request_def MIN_DNS_PACKET_LEN_def MAX_DNS_RESPONSE_LEN_def split: prod.split res.split)

lemma proxy_delivers:
  assumes "g_upstream_mode g \<noteq> FastestAddr" "exchange_ready (g_upstream_mode g) env"
    and "proxy_request g query client_ip = Ok query'" "u \<in> set (g_upstreams g)" "answers env query' u"
    and "\<And>v reply. v \<in> set (g_upstreams g) \<Longrightarrow> sent_by env query' v reply \<Longrightarrow> validate_packet reply \<Longrightarrow> proper_reply reply"
  shows "\<exists>v \<in> set (g_upstreams g). \<exists>reply r env'. sent_by env query' v reply
    \<and> dr_packet r = fst (add_edns_padding reply) \<and> proxy g env query client_ip = (Ok r, env')"
proof -
  obtain out env' where x: "exchange (g_upstream_mode g) env query' (g_upstreams g) = Ok (out, env')"
    "exchange_outcome (g_upstream_mode g) env query' (g_upstreams g) = Ok out"
    using exchange_Ok [OF assms(2)] by blast
  have ready: "g_upstream_mode g \<noteq> FastestAddr \<and> exchange_ready (g_upstream_mode g) env" using assms(1,2) by blast
  from unchanged.one_answer_suffices [OF ready assms(4,5)] x(2)
  obtain v p where v: "o_packet out = Inr p" "v \<in> set (g_upstreams g)" "sent_by env query' v p" "validate_packet p"
    by auto
  obtain r where r: "proxy_response g p (o_query_stats out) = Ok r"
    using proper_reply_response [OF assms(6) [OF v(2-4)]] by blast
  have "12 \<le> length p" using v(4) by (auto simp: validate_packet_def is_ok_iff elim: msg_unpack_OkE)
  from proxy_response_cases(3) [OF this r] have "dr_packet r = fst (add_edns_padding p)" by blast
  moreover have "proxy g env query client_ip = (Ok r, env')" using v(1) x(1) assms(3) r by (simp add: proxy_def)
  ultimately show ?thesis using v(2,3) by blast
qed

end
