(* ===== verification/H3_Request.thy ===== *)
theory H3_Request
  imports Doh_Protocol
begin

text \<open>
  A request over an HTTP/3 connection as its caller sees it (\<open>DohH3Client::request\<close> and
  \<open>PendingH3RequestGuard\<close> in \<open>src/libdoh/src/lib.rs\<close>): the stages of sending, the wait for the result,
  and the guard that clears the pending table when the caller ends before it has a result.

  The lemmas compose the callers with the event loop of \<open>H3_Pending\<close>: callers that have ended leave
  nothing behind in the pending table.
\<close>

subsection \<open>The caller\<close>

definition h3_request_headers :: "DohUpstream \<Rightarrow> packet \<Rightarrow> (string \<times> string) list" where
  "h3_request_headers upstream query =
    [('':method'', ''POST''), ('':scheme'', ''https''), ('':authority'', du_authority upstream), ('':path'', du_path upstream),
     (''content-type'', ''application/dns-message''), (''accept'', ''application/dns-message''),
     (''content-length'', show_nat (length query))]"

text \<open>
  What a caller meets: an error of handing the request to the driver, of waiting for the sender of
  the body, of sending the body; a result, or the loss of its channel. A caller can be dropped at
  each point at which it waits.
\<close>

record caller_net =
  cn_send :: "std_error option"
  cn_body_sender :: "std_error option"
  cn_outbound :: "std_error option"
  cn_result :: "h3_result option"

datatype caller_end = Dropped | Returned h3_result

text \<open>The end of a caller that waits at most \<open>awaits\<close> times, and whether its guard is still active.\<close>

definition client_request :: "caller_net \<Rightarrow> nat \<Rightarrow> caller_end \<times> bool" where
  "client_request net awaits =
    (case cn_send net of
       Some err \<Rightarrow> (Returned (Inl (h3f_from_send_error err)), True)
     | None \<Rightarrow>
         if awaits = 0 then (Dropped, True)
         else case cn_body_sender net of
           Some err \<Rightarrow> (Returned (Inl (h3f_from_send_error err)), True)
         | None \<Rightarrow>
             if awaits = 1 then (Dropped, True)
             else case cn_outbound net of
               Some err \<Rightarrow> (Returned (Inl (h3f_from_send_error err)), True)
             | None \<Rightarrow>
                 if awaits = 2 then (Dropped, True)
                 else (Returned (case cn_result net of
                                   Some result \<Rightarrow> result
                                 | None \<Rightarrow> Inl (h3f_retry UpstreamIssue)), False))"

text \<open>\<open>Drop\<close> of the guard. Callers run, and are dropped, within the runtime, so that the task is spawned.\<close>

definition guard_drop :: "u64 \<Rightarrow> bool \<Rightarrow> h3_event list" where
  "guard_drop request_id active = (if active then [Clear request_id] else [])"

subsection \<open>Entries of the pending table\<close>

lemma loop_event_keeps: "set (by_request (lp_pending (loop_event ev lp))) \<subseteq> set (by_request (lp_pending lp))"
proof (cases ev)
  case (BodyDone s frames)
  then show ?thesis using complete.keeps [of s "read_h3_response_body frames" "lp_pending lp"] by (simp add: sending_def)
next
  case (NewOutboundRequest s r)
  then show ?thesis using announce.keeps [of s r "lp_pending lp"] by simp
next
  case (IncomingHeaders s hs)
  then show ?thesis
    using complete.keeps [of s "Inl \<lparr>h3f_err = UpstreamIssue, h3f_retryable = False\<rparr>" "lp_pending lp"] by (simp add: sending_def)
qed (use complete.keeps in \<open>simp_all add: sending_def stopping_def fail_all_pending_h3_requests_def\<close>)

text \<open>An entry was registered and not cleared since.\<close>

definition outstanding :: "h3_event list \<Rightarrow> u64 \<Rightarrow> nat \<Rightarrow> bool" where
  "outstanding evs rid ch \<longleftrightarrow> (\<exists>pre post. evs = pre @ Register rid ch # post \<and> Clear rid \<notin> set post)"

lemma outstanding_snoc: "outstanding evs rid ch \<Longrightarrow> ev \<noteq> Clear rid \<Longrightarrow> outstanding (evs @ [ev]) rid ch"
  unfolding outstanding_def by (elim exE conjE) (rule_tac x = pre in exI, rule_tac x = "post @ [ev]" in exI, simp)

lemma h3_step_entries:
  assumes "(rid, ch) \<in> set (by_request (lp_pending (h3_step lp ev)))"
  shows "ev = Register rid ch \<or> (rid, ch) \<in> set (by_request (lp_pending lp)) \<and> ev \<noteq> Clear rid"
proof (cases ev)
  case (Register rid' ch')
  then show ?thesis using assms by (auto simp: register_def dest!: update_mem)
next
  case (Clear rid')
  then show ?thesis using assms by (auto simp: clear_pending_h3_request_def AList.delete_eq)
qed (use assms loop_event_keeps [of ev lp] in \<open>auto split: if_splits\<close>)

lemma entry_outstanding: "(rid, ch) \<in> set (by_request (lp_pending (h3_run evs))) \<Longrightarrow> outstanding evs rid ch"
proof (induction evs rule: rev_induct)
  case Nil
  then show ?case by (simp add: h3_run_def h3_start_def)
next
  case (snoc ev evs)
  from h3_step_entries [OF snoc.prems [unfolded h3_run_snoc]] show ?case
  proof
    assume "ev = Register rid ch"
    then show ?thesis unfolding outstanding_def by (intro exI [of _ evs] exI [of _ "[]"]) simp
  qed (use snoc.IH in \<open>auto intro: outstanding_snoc\<close>)
qed

subsection \<open>Callers that have ended\<close>

text \<open>The caller gets as far as the wait for its result, and the channel is settled.\<close>

definition receives_result :: "caller_net \<Rightarrow> nat \<Rightarrow> bool" where
  "receives_result net awaits \<longleftrightarrow>
    cn_send net = None \<and> cn_body_sender net = None \<and> cn_outbound net = None \<and> 3 \<le> awaits"

lemma guard_stays_active: "snd (client_request net awaits) \<longleftrightarrow> \<not> receives_result net awaits"
  by (auto simp: client_request_def receives_result_def split: option.split)

text \<open>A channel is lost: some step removed its sender from the table and did not use it.\<close>

definition channel_lost :: "h3_event list \<Rightarrow> nat \<Rightarrow> bool" where
  "channel_lost evs ch \<longleftrightarrow> (\<exists>pre ev post. evs = pre @ ev # post
     \<and> ch \<in> set (chans (lp_pending (h3_run pre))) \<and> ch \<notin> set (chans (lp_pending (h3_run (pre @ [ev]))))
     \<and> ch \<notin> set (served (h3_run (pre @ [ev]))))"

text \<open>
  A caller has ended: what dropping its guard does has happened since its registration. A caller that
  waits for its result has the one that was sent to it, or has lost its channel.
\<close>

definition caller_ended :: "h3_event list \<Rightarrow> u64 \<Rightarrow> nat \<Rightarrow> caller_net \<Rightarrow> nat \<Rightarrow> bool" where
  "caller_ended evs rid ch net awaits \<longleftrightarrow>
    ((\<exists>pre post. evs = pre @ Register rid ch # post
        \<and> set (guard_drop rid (snd (client_request net awaits))) \<subseteq> set post)
     \<and> (receives_result net awaits \<longrightarrow> (case cn_result net of
          Some result \<Rightarrow> (ch, result) \<in> set (lp_sent (h3_run evs))
        | None \<Rightarrow> channel_lost evs ch)))"

lemma registration_unique:
  assumes "distinct (senders evs)" "evs = pre @ Register rid ch # post" "evs = pre' @ Register rid ch # post'"
  shows "pre = pre' \<and> post = post'"
proof -
  have "ch \<notin> set (senders pre)" "ch \<notin> set (senders post)"
    using assms(1) by (auto simp: assms(2) senders_append)
  then have "Register rid ch \<notin> set pre" "Register rid ch \<notin> set post" using Register_mem by blast+
  with assms(2,3) show ?thesis using append_Cons_eq_iff [of "Register rid ch" pre post pre' post'] by simp
qed

lemma gone_stays_gone:
  assumes "ch \<notin> set (chans (lp_pending (h3_run xs)))" "ch \<notin> set (senders ys)"
  shows "ch \<notin> set (chans (lp_pending (h3_run (xs @ ys))))"
  using assms(2)
proof (induction ys rule: rev_induct)
  case (snoc y ys)
  have "(rid, ch) \<notin> set (by_request (lp_pending (h3_step (h3_run (xs @ ys)) y)))" for rid
  proof
    assume "(rid, ch) \<in> set (by_request (lp_pending (h3_step (h3_run (xs @ ys)) y)))"
    from h3_step_entries [OF this] snoc show False by (force simp: senders_append chans_def)
  qed
  then show ?case using h3_run_snoc [of "xs @ ys" y] by (force simp: chans_def)
qed (use assms(1) in simp)

lemma lost_not_pending:
  assumes "distinct (senders evs)" "channel_lost evs ch"
  shows "ch \<notin> set (chans (lp_pending (h3_run evs)))"
proof -
  obtain pre ev post where e: "evs = pre @ [ev] @ post" "ch \<in> set (chans (lp_pending (h3_run pre)))"
    "ch \<notin> set (chans (lp_pending (h3_run (pre @ [ev]))))"
    using assms(2) by (auto simp: channel_lost_def)
  have "distinct (senders pre)" using assms(1) e(1) by (simp add: senders_append)
  from h3_run_inv [OF this] e(2) have "ch \<in> set (senders pre)" by (auto simp: chan_inv_def)
  with assms(1) have "ch \<notin> set (senders post)" unfolding e(1) senders_append by auto
  with gone_stays_gone [OF e(3)] e(1) show ?thesis by simp
qed

lemma ended_not_pending:
  assumes "distinct (senders evs)" "caller_ended evs rid ch net awaits"
  shows "(rid, ch) \<notin> set (by_request (lp_pending (h3_run evs)))"
proof
  assume entry: "(rid, ch) \<in> set (by_request (lp_pending (h3_run evs)))"
  from entry_outstanding [OF entry] obtain pre post where o: "evs = pre @ Register rid ch # post" "Clear rid \<notin> set post"
    by (auto simp: outstanding_def)
  obtain pre' post' where g: "evs = pre' @ Register rid ch # post'"
    "set (guard_drop rid (snd (client_request net awaits))) \<subseteq> set post'"
    using assms(2) by (auto simp: caller_ended_def)
  have "post' = post" using registration_unique [OF assms(1) o(1) g(1)] by simp
  with o(2) g(2) have inactive: "receives_result net awaits"
    by (auto simp: guard_drop_def guard_stays_active split: if_splits)
  have "ch \<in> set (chans (lp_pending (h3_run evs)))" using entry by (force simp: chans_def)
  then have unserved: "ch \<notin> set (served (h3_run evs))" using h3_run_inv [OF assms(1)] by (auto simp: chan_inv_def)
  show False
  proof (cases "cn_result net")
    case None
    with assms(2) inactive have "channel_lost evs ch" by (simp add: caller_ended_def)
    from lost_not_pending [OF assms(1) this] entry show False by (force simp: chans_def)
  next
    case (Some result)
    with assms(2) inactive have "(ch, result) \<in> set (lp_sent (h3_run evs))" by (simp add: caller_ended_def)
    with unserved show False by (force simp: served_def)
  qed
qed

subsection \<open>Streams lead to requests\<close>

text \<open>The requests that the driver announces, in order.\<close>

fun announced :: "h3_event list \<Rightarrow> u64 list" where
  "announced [] = []"
| "announced (NewOutboundRequest s rid # evs) = rid # announced evs"
| "announced (_ # evs) = announced evs"

lemma announced_append: "announced (xs @ ys) = announced xs @ announced ys"
  by (induction xs rule: announced.induct) simp_all

text \<open>A stream leads to a request that is waiting, and no two streams to the same one.\<close>

definition streams_inv :: "u64 set \<Rightarrow> DohH3Pending \<Rightarrow> bool" where
  "streams_inv A st \<longleftrightarrow> distinct (map snd (by_stream st)) \<and> snd ` set (by_stream st) \<subseteq> A
     \<and> snd ` set (by_stream st) \<subseteq> fst ` set (by_request st)"

lemma streams_inv_mono: "streams_inv A st \<Longrightarrow> A \<subseteq> B \<Longrightarrow> streams_inv B st"
  by (auto simp: streams_inv_def)

lemma fst_update: "fst ` set (AList.update k v al) = insert k (fst ` set al)"
  by (induction al) auto

lemma register_streams: "streams_inv A st \<Longrightarrow> streams_inv A (register rid ch st)"
  by (auto simp: streams_inv_def register_def fst_update)

lemma clear_streams: "streams_inv A st \<Longrightarrow> streams_inv A (clear_pending_h3_request rid st)"
  by (force simp: streams_inv_def clear_pending_h3_request_def AList.delete_eq distinct_map_filter image_iff)

lemma complete_streams:
  assumes "streams_inv A st"
  shows "streams_inv A (fst (complete_pending_h3_stream s result st))"
proof (cases "map_of (by_stream st) s")
  case (Some rid)
  have d: "distinct (map snd (by_stream st))" using assms by (simp add: streams_inv_def)
  have "snd ` set (AList.delete s (by_stream st)) \<subseteq> fst ` set (AList.delete rid (by_request st))"
    using assms delete_removes [OF d Some] by (force simp: streams_inv_def AList.delete_eq)
  moreover have "snd ` set (AList.delete s (by_stream st)) \<subseteq> A"
    using assms by (auto simp: streams_inv_def AList.delete_eq)
  ultimately show ?thesis
    using Some d by (simp add: complete_pending_h3_stream_def streams_inv_def distinct_snd_delete)
qed (use assms in \<open>simp add: complete_pending_h3_stream_def\<close>)

lemma announce_streams:
  assumes "streams_inv A st" "rid \<notin> A"
  shows "streams_inv (insert rid A) (new_outbound_request s rid st)"
proof (cases "map_of (by_request st) rid")
  case None
  with assms(1) show ?thesis by (auto simp: new_outbound_request_def streams_inv_def)
next
  case (Some ch)
  let ?al = "AList.update s rid (by_stream st)"
  have "rid \<notin> snd ` set (by_stream st)" using assms by (auto simp: streams_inv_def)
  with map_snd_update [of rid "by_stream st" s] assms(1)
  have al: "distinct (map snd ?al)" "snd ` set ?al \<subseteq> insert rid (snd ` set (by_stream st))"
    by (simp_all add: streams_inv_def)
  have "rid \<in> fst ` set (by_request st)" using map_of_SomeD [OF Some] by force
  then have "insert rid (snd ` set (by_stream st)) \<subseteq> fst ` set (by_request st)"
    "insert rid (snd ` set (by_stream st)) \<subseteq> insert rid A"
    using assms(1) by (simp_all add: streams_inv_def subset_insertI2)
  with al(2) have "snd ` set ?al \<subseteq> fst ` set (by_request st)" "snd ` set ?al \<subseteq> insert rid A"
    by (blast intro: order_trans)+
  with al(1) have "streams_inv (insert rid A) (st\<lparr>by_stream := ?al\<rparr>)" by (simp add: streams_inv_def)
  with Some show ?thesis by (simp add: new_outbound_request_def)
qed

lemma h3_step_streams:
  assumes "streams_inv A (lp_pending lp)" "\<And>s rid. ev = NewOutboundRequest s rid \<Longrightarrow> rid \<notin> A"
  shows "streams_inv (A \<union> set (announced [ev])) (lp_pending (h3_step lp ev))"
proof (cases ev)
  case (NewOutboundRequest s rid)
  with assms announce_streams [OF assms(1), of rid s] show ?thesis
    by (auto intro: streams_inv_mono)
qed (use assms(1) complete_streams [OF assms(1)] in
    \<open>auto simp: register_streams clear_streams sending_def stopping_def fail_all_pending_h3_requests_def\<close>,
    simp_all add: streams_inv_def)

lemma h3_run_streams: "distinct (announced evs) \<Longrightarrow> streams_inv (set (announced evs)) (lp_pending (h3_run evs))"
proof (induction evs rule: rev_induct)
  case Nil
  then show ?case by (simp add: h3_run_def h3_start_def streams_inv_def)
next
  case (snoc ev evs)
  have "streams_inv (set (announced evs)) (lp_pending (h3_run evs))" using snoc by (simp add: announced_append)
  moreover have "rid \<notin> set (announced evs)" if "ev = NewOutboundRequest s rid" for s rid
    using snoc.prems that by (simp add: announced_append)
  ultimately show ?case using h3_step_streams [of "set (announced evs)" "h3_run evs" ev]
    by (simp add: announced_append h3_run_snoc)
qed

text \<open>
  C27 (safety): when every caller that registered a request has ended, by a result, an error of
  sending, the loss of its channel or by being dropped at any point, the pending table of the
  connection is empty: no request waits in it, and no stream leads to one. Every request has its own channel,
  and the driver announces a request on one stream.
\<close>

theorem ended_callers_leave_nothing:
  assumes "distinct (senders evs)" "distinct (announced evs)"
    and "\<And>rid ch. Register rid ch \<in> set evs \<Longrightarrow> \<exists>net awaits. caller_ended evs rid ch net awaits"
  shows "lp_pending (h3_run evs) = \<lparr>by_request = [], by_stream = []\<rparr>"
proof -
  have "by_request (lp_pending (h3_run evs)) = []"
  proof (rule ccontr)
    assume "by_request (lp_pending (h3_run evs)) \<noteq> []"
    then obtain rid ch where entry: "(rid, ch) \<in> set (by_request (lp_pending (h3_run evs)))"
      by (metis list.set_sel(1) surj_pair)
    then have "Register rid ch \<in> set evs" using entry_outstanding [OF entry] unfolding outstanding_def by force
    with assms ended_not_pending entry show False by blast
  qed
  with h3_run_streams [OF assms(2)] show ?thesis by (simp add: streams_inv_def)
qed

text \<open>
  One caller gets the end of its stream as a result, another is dropped after its request was announced.
\<close>

definition sample_calls :: "h3_event list" where
  "sample_calls = [Register 1 7, Register 2 8, NewOutboundRequest 4 1, NewOutboundRequest 8 2, Clear 2, ResetStream 4]"

definition sample_caller :: caller_net where
  "sample_caller = \<lparr>cn_send = None, cn_body_sender = None, cn_outbound = None, cn_result = Some (Inl (h3f_retry UpstreamIssue))\<rparr>"

lemma sample_calls_sent: "lp_sent (h3_run sample_calls) = [(7, Inl (h3f_retry UpstreamIssue))]"
  by (simp add: sample_calls_def h3_run_def h3_start_def register_def clear_pending_h3_request_def sending_def
      new_outbound_request_def complete_pending_h3_stream_def AList.delete_eq)

theorem ended_callers_leave_nothing_witness: "lp_pending (h3_run sample_calls) = \<lparr>by_request = [], by_stream = []\<rparr>"
proof (rule ended_callers_leave_nothing)
  show "distinct (senders sample_calls)" "distinct (announced sample_calls)" by (simp_all add: sample_calls_def)
  fix rid ch
  assume "Register rid ch \<in> set sample_calls"
  then consider "rid = 1" "ch = 7" | "rid = 2" "ch = 8" by (auto simp: sample_calls_def)
  then show "\<exists>net awaits. caller_ended sample_calls rid ch net awaits"
  proof cases
    case 1
    have "sample_calls = [] @ Register 1 7 # tl sample_calls" by (simp add: sample_calls_def)
    then have "caller_ended sample_calls 1 7 sample_caller 3"
      unfolding caller_ended_def
      by (intro conjI exI [of _ "[]"] exI [of _ "tl sample_calls"])
        (simp_all add: receives_result_def client_request_def sample_caller_def guard_drop_def sample_calls_sent)
    with 1 show ?thesis by blast
  next
    case 2
    let ?post = "[NewOutboundRequest 4 1, NewOutboundRequest 8 2, Clear 2, ResetStream 4]"
    have "sample_calls = [Register 1 7] @ Register 2 8 # ?post" by (simp add: sample_calls_def)
    then have "caller_ended sample_calls 2 8 sample_caller 2"
      unfolding caller_ended_def
      by (intro conjI exI [of _ "[Register 1 7]"] exI [of _ ?post])
        (simp_all add: receives_result_def client_request_def sample_caller_def guard_drop_def)
    with 2 show ?thesis by blast
  qed
qed

end
