(* ===== verification/Probes.thy ===== *)
theory Probes
  imports Bootstrap Doh_Protocol
begin

text \<open>
  The probes that choose between HTTP/3 and HTTP/2 (\<open>probe_h3\<close>, \<open>probe_tls\<close>, \<open>dot_tls_config\<close> and the
  race in \<open>select_doh_protocol\<close> of \<open>src/libdoh/src/lib.rs\<close>). \<open>Doh_Protocol\<close> takes the outcome of the
  race as a parameter; here it is computed from the two probes, each with the time it takes.
\<close>

definition probe_quic_timeout :: "duration \<Rightarrow> duration" where
  "probe_quic_timeout timeout = (if timeout = 0 then DOH_PROBE_TLS_TIMEOUT_SECS * 1000000000 else timeout)"

text \<open>The TLS configuration is built once; what the library builds is a parameter.\<close>

definition dot_tls_config :: "'e + 'c \<Rightarrow> 'c option \<Rightarrow> (DoHError + 'c) \<times> 'c option" where
  "dot_tls_config build cell =
    (case cell of
       Some config \<Rightarrow> (Inr config, cell)
     | None \<Rightarrow>
         (case build of
            Inl _ \<Rightarrow> (Inl UpstreamIssue, cell)
          | Inr config \<Rightarrow> (Inr config, Some config)))"

text \<open>A future with the time it takes, under a time limit.\<close>

definition within :: "duration \<Rightarrow> (DoHError + 'a) \<times> duration \<Rightarrow> (DoHError + 'a) \<times> duration" where
  "within timeout fut = (if snd fut \<le> timeout then fut else (Inl UpstreamTimeout, timeout))"

record probe_net =
  pn_tls :: dot_net
  pn_tls_time :: duration
  pn_udp_bind :: "SocketAddr \<Rightarrow> io_error + unit"
  pn_udp_connect :: "SocketAddr \<Rightarrow> io_error + unit"
  pn_from_udp :: "io_error + unit"
  pn_quic_connect :: "string \<Rightarrow> std_error + unit"
  pn_quic_time :: duration

definition probe_tls ::
  "probe_net \<Rightarrow> SocketAddr \<Rightarrow> SocketAddr \<Rightarrow> DohUpstream \<Rightarrow> duration \<Rightarrow> (DoHError + unit) \<times> duration" where
  "probe_tls net local_bind_address peer_addr upstream timeout =
    (if \<not> dt_server_name_ok (pn_tls net) (du_host upstream) then (Inl UpstreamIssue, 0)
     else case dt_config (pn_tls net) of
       Inl e \<Rightarrow> (Inl e, 0)
     | Inr _ \<Rightarrow>
         within timeout
           (case connect_tcp_with_local_bind (dt_connect (pn_tls net)) local_bind_address peer_addr of
              Inl e \<Rightarrow> Inl (Io e)
            | Inr _ \<Rightarrow> if dt_tls (pn_tls net) peer_addr = None then Inl UpstreamIssue else Inr (), pn_tls_time net))"

definition probe_h3 ::
  "probe_net \<Rightarrow> SocketAddr \<Rightarrow> SocketAddr \<Rightarrow> DohUpstream \<Rightarrow> duration \<Rightarrow> (DoHError + unit) \<times> duration" where
  "probe_h3 net local_bind_address peer_addr upstream timeout =
    within timeout
      (case local_bind_for_peer local_bind_address peer_addr of
         None \<Rightarrow> Inl bind_mismatch
       | Some bind_addr \<Rightarrow>
           (case pn_udp_bind net bind_addr of
              Inl e \<Rightarrow> Inl (Io e)
            | Inr _ \<Rightarrow>
                (case pn_udp_connect net peer_addr of
                   Inl e \<Rightarrow> Inl (Io e)
                 | Inr _ \<Rightarrow>
                     (case pn_from_udp net of
                        Inl e \<Rightarrow> Inl (Io e)
                      | Inr _ \<Rightarrow>
                          (case pn_quic_connect net (du_host upstream) of
                             Inl _ \<Rightarrow> Inl UpstreamIssue
                           | Inr _ \<Rightarrow> Inr ())))), pn_quic_time net)"

text \<open>The first probe to end decides; \<open>h3_polled_first\<close> decides between probes that end together.\<close>

definition race_of :: "bool \<Rightarrow> (DoHError + unit) \<times> duration \<Rightarrow> (DoHError + unit) \<times> duration \<Rightarrow> probe_race" where
  "race_of h3_polled_first h3 tls =
    (if snd h3 < snd tls \<or> (snd h3 = snd tls \<and> h3_polled_first) then H3First (\<not> isl (fst h3))
     else TlsFirst (\<not> isl (fst tls)))"

definition probe_race_of :: "probe_net \<Rightarrow> SocketAddr \<Rightarrow> duration \<Rightarrow> bool \<Rightarrow> SocketAddr \<Rightarrow> DohUpstream \<Rightarrow> probe_race" where
  "probe_race_of net local_bind_address timeout h3_polled_first peer_addr upstream =
    race_of h3_polled_first
      (probe_h3 net local_bind_address peer_addr upstream (probe_quic_timeout timeout))
      (probe_tls net local_bind_address peer_addr upstream (DOH_PROBE_TLS_TIMEOUT_SECS * 1000000000))"

subsection \<open>Properties of the probes\<close>

lemma dot_tls_config_once:
  "dot_tls_config build cell = (Inr config, cell') \<Longrightarrow> dot_tls_config build' cell' = (Inr config, cell')"
  by (auto simp: dot_tls_config_def split: option.splits sum.splits)

lemma probes_end_in_time:
  "snd (probe_h3 net local peer u timeout) \<le> timeout" "snd (probe_tls net local peer u timeout) \<le> timeout"
  by (auto simp: probe_h3_def probe_tls_def within_def split: sum.split)

lemma probe_family_mismatch:
  assumes "local_bind_for_peer local peer = None"
  shows "isl (fst (probe_h3 net local peer u timeout))" "isl (fst (probe_tls net local peer u timeout))"
  using assms by (auto simp: probe_h3_def probe_tls_def within_def connect_tcp_with_local_bind_def split: sum.split)

text \<open>A host that is no server name decides the race at once, for HTTP/3, unless HTTP/3 answers at once.\<close>

lemma bad_server_name_selects_h3:
  assumes "\<not> dt_server_name_ok (pn_tls net) (du_host u)" "0 < pn_quic_time net" "0 < timeout"
  shows "probe_race_of net local timeout first peer u = TlsFirst False"
  using assms
  by (auto simp: probe_race_of_def race_of_def probe_tls_def probe_h3_def within_def probe_quic_timeout_def)

text \<open>HTTP/3 is selected only after its probe has succeeded, when one of the two probes does.\<close>

lemma selected_protocol_was_probed:
  fixes nets :: "nat \<Rightarrow> probe_net" and u :: DohUpstream and local peer :: SocketAddr and timeout :: duration
  defines "h3 \<equiv> \<lambda>n. \<not> isl (fst (probe_h3 (nets n) local peer u (probe_quic_timeout timeout)))"
    and "tls \<equiv> \<lambda>n. \<not> isl (fst (probe_tls (nets n) local peer u (DOH_PROBE_TLS_TIMEOUT_SECS * 1000000000)))"
  assumes race: "\<And>n. de_race env n = probe_race_of (nets n) local timeout (first n) peer u"
    and one: "\<And>n. h3 n \<or> tls n"
    and sel: "run_state (select_doh_protocol env) s = (Inr DOH_PROTO_H3, s')"
  shows "\<exists>n. h3 n"
proof -
  from sel obtain n where n: "de_race env n = H3First True \<or> de_race env n = TlsFirst False"
    by (auto simp: select_doh_protocol_def proto_defs split: if_splits sum.splits prod.splits probe_race.splits)
  show ?thesis
  proof (cases "h3 n")
    case False
    with one [of n] have "tls n" by blast
    with False n race [of n] have False by (simp add: h3_def tls_def probe_race_of_def race_of_def split: if_splits)
    then show ?thesis ..
  qed blast
qed

end
