(* ===== verification/Spec2Isabelle.thy ===== *)
theory Spec2Isabelle
  imports Msg Dns Edns_Ecs Fast_Ip_Cache Clients_Count Upstream_Errors Upstream_Exchange Net_Addr
    Fastest_Addr H3_Pool H3_Pending Doh_Protocol Proxy Json_Api
    Odoh Http_Front Bootstrap Config Machine Tls_Setup Listeners
    Upstream_Clients H3_Request Probes
begin

text \<open>
  A verification development of doh-server, a DNS-over-HTTPS server in Rust.

  The program. An HTTP front end (\<open>src/libdoh/src/lib.rs\<close>) accepts DNS queries, gives them an
  OPT record and a client subnet (\<open>dns.rs\<close>, \<open>edns_ecs.rs\<close>), and lets one of three strategies
  (\<open>upstream/load_balance.rs\<close>, \<open>parallel.rs\<close>, \<open>fastest_addr.rs\<close>) ask the configured upstream
  resolvers, which are reached over UDP and TCP, TLS, or HTTP/2 and HTTP/3. The answer is checked,
  given a time to live, padded and returned.

  Theories, bottom up. A file name is relative to \<open>src/libdoh/src\<close>.
  \<^item> \<open>Prelude\<close>: bytes, the outcome type \<open>res\<close> (a value, an error, a panic), checked access and
    checked slices, big-endian accessors.
  \<^item> \<open>Rr_Types\<close>, \<open>Msg\<close>: the message codec (\<open>upstream/rr_types.rs\<close>, \<open>upstream/msg.rs\<close>). The
    lemmas give the round trip, the acceptance of exactly the well-formed encodings' messages, the
    absence of panics on every byte string, and the refinement of the in-place rewriting of
    addresses by a change of the message.
  \<^item> \<open>Dns\<close>: the operations on raw packets (\<open>dns.rs\<close>): smallest time to live, payload size,
    padding, each as a change of the message. Both readers of records are instances of one locale.
  \<^item> \<open>Edns_Ecs\<close>: the client subnet option (\<open>edns_ecs.rs\<close>): its insertion as a change of the message, and
    what it tells of a client's address, which is whole octets.
  \<^item> \<open>Fast_Ip_Cache\<close>: the cache of address probes (\<open>globals.rs\<close>), linked nodes in a hash map,
    refining a list in order of use.
  \<^item> \<open>Clients_Count\<close>: the limit on concurrent clients (\<open>globals.rs\<close>, \<open>lib.rs\<close>) as interleaved
    accesses to an atomic counter.
  \<^item> \<open>Upstream_Errors\<close>: errors, durations, statistics and packet helpers (\<open>errors.rs\<close>,
    \<open>upstream/stats.rs\<close>, \<open>upstream/dns_packet.rs\<close>).
  \<^item> \<open>Upstream_Exchange\<close>, \<open>Fastest_Addr\<close>: the three strategies. The locale
    \<open>exchange_strategy\<close> states what a strategy promises; all three are interpreted.
  \<^item> \<open>Net_Addr\<close>: strings and addresses as the standard library reads and prints them.
  \<^item> \<open>H3_Pool\<close>, \<open>H3_Pending\<close>, \<open>Doh_Protocol\<close>: the DNS-over-HTTPS client of \<open>lib.rs\<close>: the pool of
    HTTP/3 connections with the steps tasks take on it, the requests in flight on a connection, and
    the choice of the protocol with fallback, retries and back-off. The bounds of the pool hold in
    every state the steps reach.
  \<^item> \<open>H3_Request\<close>: a request over HTTP/3 as its caller sees it, with the guard that clears the pending
    table; the lemmas compose callers and event loop.
  \<^item> \<open>Probes\<close>: the two probes and their race, which \<open>Doh_Protocol\<close> takes as a parameter.
  \<^item> \<open>Proxy\<close>: the path of a query through the server (\<open>_proxy\<close> in \<open>lib.rs\<close>, \<open>upstream/mod.rs\<close>).
  \<^item> \<open>Json_Api\<close>: the JSON interface (\<open>dns_json.rs\<close>): the reader of responses, as an option because
    it need not return, and the writer of queries.
  \<^item> \<open>Bootstrap\<close>: the resolution of upstream host names by bootstrap servers (\<open>lib.rs\<close>) with its
    cache, and the DNS-over-TLS client.
  \<^item> \<open>Config\<close>: the command line (\<open>src/config.rs\<close>, \<open>utils.rs\<close>, \<open>constants.rs\<close>, \<open>main.rs\<close>): the
    checks of options and the settings made of them. The lemmas show which options are accepted, what
    holds of the settings, and that the defaults agree.
  \<^item> \<open>Machine\<close>: machines that take events, and the locale that carries an invariant over their runs;
    interpreted by \<open>Clients_Count\<close> and \<open>Listeners\<close>.
  \<^item> \<open>Tls_Setup\<close>: certificate files and HTTPS services (\<open>tls.rs\<close>). The first acceptor is a partial
    function, because the files may never load; the lemmas show which acceptor is in use.
  \<^item> \<open>Cert_Watcher\<close>: the watcher of the certificate files (\<open>lib.rs\<close>): observed directories, handler.
  \<^item> \<open>Listeners\<close>: start and supervision of the listeners (\<open>lib.rs\<close>): binding, the HTTP/3 listener as a
    state machine, the supervisor; and \<open>main\<close>, which leads from the options to the service, with
    the exact condition under which the program starts.
  \<^item> \<open>Upstream_Clients\<close>: \<open>exchange_single\<close> over the three clients and the network an attempt meets; the
    lemmas say which networks deliver a reply. This theory leads from there through the strategies
    and the front end to the response, and collects where no panic can come from.
  \<^item> \<open>Odoh\<close>: keys of Oblivious DNS over HTTPS (\<open>odoh.rs\<close>) over the functions of the crate.
  \<^item> \<open>Http_Front\<close>: the handlers of requests over HTTP/1, HTTP/2 and HTTP/3 (\<open>lib.rs\<close>) and the
    address a client is taken to have. The lemmas compose them with \<open>Proxy\<close> and compare the two
    front ends.

  Conventions. A panic of the source (an index or a slice out of range, an unsigned subtraction below
  zero, a sum of durations that overflows) is the outcome \<open>Panic\<close>, so that its absence is a theorem. Machine integers are words; a \<open>usize\<close> is
  a natural number, because no length in the program comes near its bound. Hash maps are association
  lists or functions; where the order of iteration matters it is a parameter. The network, the
  clock, random numbers, floating point and the crates are parameters about which nothing is assumed,
  unless a theorem says so by name: \<open>all_arrive\<close> and \<open>fastest_ready\<close> (the tasks of a strategy report),
  \<open>delivers\<close> and \<open>h2_available\<close> (the network reaches the upstream in question), \<open>proper_reply\<close> (a
  reply has one question and a record), \<open>hosts_agree\<close> (the URL crate gives a host exactly when it gives its text),
  \<open>seals\<close> (what an Oblivious client seals within the sizes of the formats is opened),
  \<open>caller_ended\<close> (a caller of an HTTP/3 request is no longer running), \<open>others_step\<close> (other tasks change
  the pools by steps of the pools only).

  Bounds. Loops over packets are bounded by the packet; the two name readers carry their own
  measures. The eviction loop of the cache is a partial function whose termination is part of the
  theorem about the cache. The retry loops count down from the limit of the source.

  Not modelled: the sockets, TLS, HTTP and QUIC libraries, the library that observes directories, and
  the code that only configures them.
\<close>

section \<open>From the socket to the response\<close>

text \<open>
  C1 (liveness): from the socket to the response. A server with the settings \<open>g\<close>, which adds no client
  subnets and balances the load or asks in parallel, answers every DNS request of at least 17 octets
  with status 200 and a reply of one of its upstreams, padded, when one upstream is reached on every
  attempt: by datagram, by stream after a truncated datagram, over TLS at one of its addresses, or
  over HTTP/2. The replies have to decode, and those that decode to have one question, a record and at
  most 4096 octets.
\<close>

theorem working_upstream_answers_client:
  assumes "backed_by sv (Globals.truncate g) (on_network g nets env)"
    and "g_upstream_mode g \<noteq> FastestAddr" "exchange_ready (g_upstream_mode g) (on_network g nets env)" "\<not> g_enable_ecs g"
    and "rq_path req = g_path g" "parse_content_type (rq_headers req) = Inr Standard"
    and "request_query sv req = Some query" "17 \<le> length query"
    and "u \<in> set (g_upstreams g)" "\<And>n. delivers g (nets n u) (sent_query query) u"
    and "\<And>n reply. upstream_exchange g (nets n u) u (sent_query query) = Ok reply \<Longrightarrow> validate_packet reply"
    and proper: "\<And>n v reply. v \<in> set (g_upstreams g) \<Longrightarrow> upstream_exchange g (nets n v) v (sent_query query) = Ok reply
      \<Longrightarrow> validate_packet reply \<Longrightarrow> proper_reply reply"
  shows "\<exists>v n reply ttl. v \<in> set (g_upstreams g) \<and> upstream_exchange g (nets n v) v (sent_query query) = Ok reply
    \<and> http_call sv req = Some (Ok (packet_response (fst (add_edns_padding reply)) ttl ''application/dns-message'' True))"
proof -
  let ?g = "Globals.truncate g" and ?env = "on_network g nets env" and ?ip = "http_client_ip sv (rq_headers req)"
  have g: "g_upstream_mode ?g = g_upstream_mode g" "g_upstreams ?g = g_upstreams g" "g_path ?g = g_path g"
    "g_enable_ecs ?g = g_enable_ecs g" by (simp_all add: Globals.defs)
  have "answers ?env (sent_query query) u" by (rule on_network_answers) (rule assms)+
  moreover have "proper_reply reply" if "v \<in> set (g_upstreams g)" "sent_by ?env (sent_query query) v reply" "validate_packet reply" for v reply
    using that proper by (auto simp: sent_by_def on_network_def settled_eq_Inr)
  ultimately obtain v reply r env' where v: "v \<in> set (g_upstreams g)" "sent_by ?env (sent_query query) v reply"
    "dr_packet r = fst (add_edns_padding reply)" "proxy ?g ?env query ?ip = (Ok r, env')"
    using proxy_delivers [of ?g ?env query ?ip "sent_query query" u] assms(2-4,8,9) g
      proxy_request_without_subnet [of query ?g ?ip] by auto
  obtain n where "upstream_exchange g (nets n v) v (sent_query query) = Ok reply"
    using v(2) by (auto simp: sent_by_def on_network_def settled_eq_Inr)
  moreover have "sv_path sv = g_path g" "sv_proxy sv query ?ip = Ok r"
    using assms(1) v(4) g by (simp_all add: backed_by_def)
  ultimately show ?thesis
    using http_call_query(1) [of req sv query] assms(5-7) v(1,3) by (auto simp: serve_doh_query_eq)
qed

text \<open>The settings without options, and a network in which every datagram is answered.\<close>

definition sample_settings :: "DohUpstream Upstream Settings" where "sample_settings = the initial_settings"

definition sample_attempt :: attempt_net where
  "sample_attempt = \<lparr>an_time = 1,
     an_dns = \<lparr>dn_bind = (\<lambda>_. Inr ()), dn_send = (\<lambda>_ _ _. Inr ()), dn_recv = (\<lambda>server _. Inr (enc_msg sample_msg, server)),
       dn_connect = (\<lambda>_ _. Inr ()), dn_nodelay = Inr (),
       dn_stream = \<lparr>st_write = (\<lambda>_. Inr ()), st_reply = (\<lambda>_. []), st_end = IoError OtherKind None ''end''\<rparr>, dn_clients = 1\<rparr>,
     an_dns_time = 1, an_bootstrap = sample_net 5 [], an_finished = [], an_cache = Map.empty,
     an_dot = \<lparr>dt_server_name_ok = (\<lambda>_. False), dt_config = Inr (), dt_connect = (\<lambda>_ _. Inr ()), dt_nodelay = (\<lambda>_. Inr ()),
       dt_tls = (\<lambda>_. None)\<rparr>, an_dot_time = 1, an_doh = sample_doh_env,
     an_doh_run = \<lparr>r_up = sample_upstream, r_store = empty_store, r_tick = 0\<rparr>\<rparr>"

definition sample_server_env :: "(DohUpstream Upstream, nat) fastest_env" where
  "sample_server_env = \<lparr>ex_single = (\<lambda>_ _ _. (Inl UpstreamIssue, 1)), ex_address = (\<lambda>_. []), ex_float = ex_float sample_env,
     ex_random = (\<lambda>_. 0), ex_rtt = (\<lambda>_. None), ex_arrivals = (\<lambda>n. [0..<n]), fe_cache = with_max_size 4, fe_now = 1000,
     fe_ip_order = (\<lambda>_. []), fe_probes = (\<lambda>_. [])\<rparr>"

lemma sample_settings_simps:
  "g_upstreams sample_settings = [Dns (SocketV4 (Octets4 9 9 9 9) 53)]" "g_upstream_mode sample_settings = LoadBalance"
  "g_enable_ecs sample_settings = False" "g_path sample_settings = ''/dns-query''" "g_timeout sample_settings = from_secs 10"
  "g_odoh_configs_path sample_settings = ''/.well-known/odohconfigs''" "g_disable_post sample_settings = False"
  "g_allow_odoh_post sample_settings = False" "g_max_clients sample_settings = 512"
  by (simp_all add: sample_settings_def initial_settings_def default_addresses PATH_def ODOH_CONFIGS_PATH_def
      TIMEOUT_SEC_def MAX_CLIENTS_def)

lemma sample_reply:
  "17 \<le> length (enc_msg sample_msg)" "length (enc_msg sample_msg) \<le> 4096" "is_truncated (enc_msg sample_msg) = Ok False"
  "proper_reply (enc_msg sample_msg)"
proof -
  show l: "17 \<le> length (enc_msg sample_msg)" "length (enc_msg sample_msg) \<le> 4096"
    by (simp_all add: enc_msg_def sample_msg_def wire_simps sample_name_def name_wire_len_def)
  show "is_truncated (enc_msg sample_msg) = Ok False" by code_simp
  have "msg_unpack (enc_msg sample_msg) = Ok sample_msg"
    using msg_unpack_enc [OF wf_sample_msg] by (simp add: sample_msg_def)
  with l(2) show "proper_reply (enc_msg sample_msg)" by (simp add: proper_reply_def) (simp add: sample_msg_def msg_rrs_def)
qed

lemma sample_delivers:
  "udp_delivers local (an_dns sample_attempt) (SocketV4 (Octets4 9 9 9 9) 53) query (enc_msg sample_msg)"
  using sample_reply by (simp add: udp_delivers_def sample_attempt_def)

theorem working_upstream_answers_client_witness:
  "\<exists>reply ttl. http_call (sample_server (\<lambda>query ip. fst (proxy (Globals.truncate sample_settings)
        (on_network sample_settings (\<lambda>_ _. sample_attempt) sample_server_env) query ip)))
      (sample_request Standard ''GET'' ''dns=p'')
    = Some (Ok (packet_response (fst (add_edns_padding reply)) ttl ''application/dns-message'' True))"
proof -
  let ?g = sample_settings and ?env = "on_network sample_settings (\<lambda>_ _. sample_attempt) sample_server_env"
  let ?sv = "sample_server (\<lambda>query ip. fst (proxy (Globals.truncate ?g) ?env query ip))"
  let ?u = "Dns (SocketV4 (Octets4 9 9 9 9) 53) :: DohUpstream Upstream"
  have x: "upstream_exchange ?g sample_attempt ?u q = Ok (enc_msg sample_msg)" for q
    using proxy_dns_delivers [OF disjI1, OF sample_delivers, of 512 "g_local_bind_address ?g" q]
    by (simp add: upstream_exchange_def exchange_single_def sample_settings_simps run_with_timeout_def from_secs_def
        sample_attempt_def)
  have "17 \<le> length (enc_msg sample_query)"
    by (simp add: enc_msg_def sample_query_def sample_msg_def wire_simps sample_name_def name_wire_len_def)
  moreover have "delivers ?g sample_attempt q ?u" for q
    using sample_delivers by (auto simp: in_time_def sample_settings_simps from_secs_def sample_attempt_def)
  moreover have "backed_by ?sv (Globals.truncate ?g) ?env"
    by (simp add: backed_by_def sample_server_def Globals.defs sample_settings_simps)
  ultimately show ?thesis
    using working_upstream_answers_client [of ?sv ?g "\<lambda>_ _. sample_attempt" sample_server_env "sample_request Standard ''GET'' ''dns=p''"
      "enc_msg sample_query" ?u] x sample_reply(4) validate_sample sample_content_type [of Standard "''GET''" "''dns=p''"]
    by (auto simp: sample_request_simps sample_settings_simps exchange_ready_def)
qed

section \<open>No panic\<close>

text \<open>
  C3 (safety): a server that adds no client subnets and whose time limit is at least a second below the
  longest duration never panics, under every strategy, whatever the network does. Every connection over
  HTTP/1 and HTTP/2 is served, and none of its requests panics; no request over HTTP/3 panics; no client of an
  upstream (UDP and TCP, TLS, HTTPS) panics, whatever octets it reads; nor does the resolution of a host
  name, whatever the bootstrap servers answer.
\<close>

theorem server_never_panics:
  assumes "backed_by sv (Globals.truncate g) (on_network g nets env)"
    and "exchange_ready (g_upstream_mode g) (on_network g nets env)" "\<not> g_enable_ecs g"
    and "g_timeout g + from_secs 1 \<le> DURATION_MAX"
  shows "(\<exists>responses. client_serve_reserved sv (g_timeout g) requests = Ok responses \<and> Some Panic \<notin> set responses)
    \<and> handle_h3_request sv ok hs recv \<noteq> Some (frames, Panic)
    \<and> upstream_exchange g net u query \<noteq> Panic
    \<and> fst (resolve_upstream_addrs (bootstrap_of g) bnet finished host port cache) \<noteq> Panic"
proof -
  have px: "sv_proxy sv q ip \<noteq> Panic" for q ip
    using assms(2,3) by (intro backed_proxy_not_Panic [OF assms(1)]) (simp_all add: Globals.defs)
  have http: "http_call sv req \<noteq> Some Panic" for req using px by (rule http_call_not_Panic)
  have "client_serve_reserved sv (g_timeout g) requests = Ok (map (http_call sv \<circ> fst)
      (filter (\<lambda>(_, answered). answered \<le> g_timeout g + from_secs 1) requests))"
    using assms(4) by (simp add: client_serve_reserved_def duration_add_def del: rbind_eq_Ok)
  moreover have "Some Panic \<notin> set (map (http_call sv \<circ> fst) rs)" for rs :: "(http_request \<times> duration) list"
    using http by (simp add: image_iff) metis
  moreover have "handle_h3_request sv ok hs recv \<noteq> Some (frames, Panic)"
    using h3_request_not_Panic [of sv ok hs recv frames Panic] px by blast
  ultimately show ?thesis using upstream_exchange_not_Panic resolve_upstream_addrs_not_Panic by blast
qed

lemma sample_backed_network:
  "backed_by (sample_server (\<lambda>query ip. fst (proxy (Globals.truncate sample_settings)
     (on_network sample_settings nets sample_server_env) query ip))) (Globals.truncate sample_settings)
     (on_network sample_settings nets sample_server_env)"
  by (simp add: backed_by_def sample_server_def Globals.defs sample_settings_simps)

theorem server_never_panics_witness:
  "\<exists>responses. client_serve_reserved (sample_server (\<lambda>query ip. fst (proxy (Globals.truncate sample_settings)
        (on_network sample_settings (\<lambda>_ _. sample_attempt) sample_server_env) query ip)))
      (from_secs 10) [(sample_request Oblivious ''POST'' ''dns=q'', 1)] = Ok responses \<and> Some Panic \<notin> set responses"
proof -
  have "exchange_ready (g_upstream_mode sample_settings) (on_network sample_settings (\<lambda>_ _. sample_attempt) sample_server_env)"
    "\<not> g_enable_ecs sample_settings" "g_timeout sample_settings + from_secs 1 \<le> DURATION_MAX"
    by (simp_all add: exchange_ready_def sample_settings_simps from_secs_def DURATION_MAX_def)
  from server_never_panics [OF sample_backed_network this] show ?thesis
    unfolding sample_settings_simps by blast
qed

text \<open>The longest time limit that the option \<open>--timeout\<close> accepts panics at the first connection.\<close>

lemma longest_timeout_panics:
  "parse_number (2 ^ 64) ''timeout'' ''18446744073709551615'' = Inr (2 ^ 64 - 1)
   \<and> client_serve_reserved sv (from_secs (2 ^ 64 - 1)) requests = Panic"
  by (simp add: parse_uint_def to_digit_def client_serve_reserved_def duration_add_def from_secs_def DURATION_MAX_def)

end
